(* ===== verification/Prelude.thy ===== *)
theory Prelude
  imports Main "HOL-Library.Sublist"
begin

text \<open>
  What the components share: the named collections of rewrite rules, JavaScript's string
  operations as the sources call them (a string is the list of its code units, here those
  below 256), and the vocabulary of labelled step relations with the locale of their invariants.
\<close>

named_theorems js_defs "definitions of the JavaScript string operations"
named_theorems step_simps "unfolding rules of the handlers of the state machines"

section \<open>Strings\<close>

abbreviation newline :: char where
  "newline \<equiv> CHR 0x0A"

text \<open>\<^verbatim>\<open>s.startsWith(p)\<close>, \<^verbatim>\<open>s.includes(t)\<close>, \<^verbatim>\<open>s.indexOf(t)\<close> with \<^verbatim>\<open>-1\<close> as \<open>None\<close>.\<close>

definition starts_with :: "string \<Rightarrow> string \<Rightarrow> bool" where
  "starts_with s p = prefix p s"

fun js_includes :: "string \<Rightarrow> string \<Rightarrow> bool" where
  "js_includes [] t = (t = [])"
| "js_includes (c # s) t = (prefix t (c # s) \<or> js_includes s t)"

text \<open>
  \<^verbatim>\<open>s.split(sep)\<close> for a string separator: the separators are found left to right and do not
  overlap; an empty separator gives the characters one by one.
\<close>

function split_from :: "string \<Rightarrow> string \<Rightarrow> string \<Rightarrow> string list" where
  "split_from sep acc [] = [acc]"
| "split_from sep acc (c # s) =
     (if sep \<noteq> [] \<and> prefix sep (c # s)
      then acc # split_from sep [] (drop (length sep) (c # s))
      else split_from sep (acc @ [c]) s)"
  by pat_completeness auto
termination
proof (relation "measure (\<lambda>(sep, acc, s). length s)", goal_cases)
  case (2 sep acc c s)
  then show ?case by (cases sep) auto
qed auto

definition split :: "string \<Rightarrow> string \<Rightarrow> string list" where
  "split s sep = (if sep = [] then map (\<lambda>c. [c]) s else split_from sep [] s)"

text \<open>\<^verbatim>\<open>xs.join(sep)\<close>.\<close>

fun join :: "string \<Rightarrow> string list \<Rightarrow> string" where
  "join sep [] = []"
| "join sep [x] = x"
| "join sep (x # y # ys) = x @ sep @ join sep (y # ys)"

text \<open>Decimal digits of a number, as in a template literal or in \<^verbatim>\<open>String(n)\<close>.\<close>

definition digit_char :: "nat \<Rightarrow> char" where
  "digit_char d = char_of (48 + d)"

fun nat_to_string :: "nat \<Rightarrow> string" where
  "nat_to_string n =
     (if n < 10 then [digit_char n] else nat_to_string (n div 10) @ [digit_char (n mod 10)])"

declare nat_to_string.simps [simp del]

definition int_to_string :: "int \<Rightarrow> string" where
  "int_to_string i = (if i < 0 then ''-'' @ nat_to_string (nat (- i)) else nat_to_string (nat i))"

text \<open>The character classes of the sources' regular expressions, and \<^verbatim>\<open>trim\<close>.\<close>

definition code_of :: "char \<Rightarrow> nat" where
  "code_of c = of_char c"

definition is_digit :: "char \<Rightarrow> bool" where
  "is_digit c \<longleftrightarrow> 48 \<le> code_of c \<and> code_of c \<le> 57"

definition is_lower :: "char \<Rightarrow> bool" where
  "is_lower c \<longleftrightarrow> 97 \<le> code_of c \<and> code_of c \<le> 122"

definition is_upper :: "char \<Rightarrow> bool" where
  "is_upper c \<longleftrightarrow> 65 \<le> code_of c \<and> code_of c \<le> 90"

definition is_hex :: "char \<Rightarrow> bool" where
  "is_hex c \<longleftrightarrow> is_digit c \<or> (97 \<le> code_of c \<and> code_of c \<le> 102) \<or> (65 \<le> code_of c \<and> code_of c \<le> 70)"

definition is_word :: "char \<Rightarrow> bool" where
  "is_word c \<longleftrightarrow> is_lower c \<or> is_upper c \<or> is_digit c \<or> c = CHR ''_''"

definition is_space :: "char \<Rightarrow> bool" where
  "is_space c \<longleftrightarrow> code_of c \<in> {9, 10, 11, 12, 13, 32, 160}"

definition trim_left :: "string \<Rightarrow> string" where
  "trim_left s = dropWhile is_space s"

definition trim :: "string \<Rightarrow> string" where
  "trim s = rev (dropWhile is_space (rev (dropWhile is_space s)))"

text \<open>
  \<^verbatim>\<open>parseInt(s, 10)\<close>, with \<^verbatim>\<open>NaN\<close> as \<open>None\<close>: leading white space, a sign, and the digits that follow;
  the rest is ignored. Numbers are exact here, in JavaScript up to \<open>2\<^sup>5\<^sup>3\<close>.
\<close>

definition digits_value :: "string \<Rightarrow> nat" where
  "digits_value ds = foldl (\<lambda>n c. 10 * n + (code_of c - 48)) 0 ds"

definition parse_digits :: "string \<Rightarrow> int option" where
  "parse_digits s =
     (let ds = takeWhile is_digit s in if ds = [] then None else Some (int (digits_value ds)))"

definition parse_int :: "string \<Rightarrow> int option" where
  "parse_int s =
     (case trim_left s of
        [] \<Rightarrow> None
      | c # r \<Rightarrow>
          if c = CHR ''-'' then map_option uminus (parse_digits r)
          else if c = CHR ''+'' then parse_digits r
          else parse_digits (c # r))"


lemmas char_class_defs [js_defs] =
  code_of_def is_digit_def is_lower_def is_upper_def is_hex_def is_word_def is_space_def

section \<open>Labelled steps\<close>

text \<open>
  A component that reacts to events is a relation \<open>step s e t\<close>. \<open>steps step s es t\<close> is a run
  over the events \<open>es\<close>.
\<close>

inductive steps :: "('s \<Rightarrow> 'e \<Rightarrow> 's \<Rightarrow> bool) \<Rightarrow> 's \<Rightarrow> 'e list \<Rightarrow> 's \<Rightarrow> bool"
  for step :: "'s \<Rightarrow> 'e \<Rightarrow> 's \<Rightarrow> bool" where
  steps_Nil: "steps step s [] s"
| steps_Cons: "step s e t \<Longrightarrow> steps step t es u \<Longrightarrow> steps step s (e # es) u"

inductive_simps steps_Nil_iff [simp]: "steps step s [] t"
inductive_simps steps_Cons_iff: "steps step s (e # es) t"

lemma steps_append: "steps step s es t \<Longrightarrow> steps step t fs u \<Longrightarrow> steps step s (es @ fs) u"
  by (induction rule: steps.induct) (auto intro: steps.intros)

lemma steps_appendE:
  assumes "steps step s (es @ fs) u"
  obtains t where "steps step s es t" and "steps step t fs u"
proof -
  have "\<exists>t. steps step s es t \<and> steps step t fs u"
    using assms(1)
  proof (induction es arbitrary: s)
    case (Cons e es)
    then show ?case by (simp add: steps_Cons_iff) blast
  qed simp
  then show thesis using that by blast
qed

text \<open>What every allowed step keeps, every run of allowed steps keeps.\<close>

lemma steps_preserve:
  assumes "\<And>s e t. P s \<Longrightarrow> Q e \<Longrightarrow> step s e t \<Longrightarrow> P t"
  shows "steps step s es t \<Longrightarrow> \<forall>e \<in> set es. Q e \<Longrightarrow> P s \<Longrightarrow> P t"
  by (induction rule: steps.induct) (auto intro: assms)

text \<open>The contract of an invariant, shared by every state machine of the development.\<close>

locale invariant_machine =
  fixes step :: "'s \<Rightarrow> 'e \<Rightarrow> 's \<Rightarrow> bool"
    and init :: "'s"
    and inv :: "'s \<Rightarrow> bool"
  assumes inv_init: "inv init"
    and inv_step: "inv s \<Longrightarrow> step s e t \<Longrightarrow> inv t"
begin

lemma inv_steps: "steps step s es t \<Longrightarrow> inv s \<Longrightarrow> inv t"
  by (induction rule: steps.induct) (auto dest: inv_step)

lemma inv_reachable: "steps step init es t \<Longrightarrow> inv t"
  using inv_steps inv_init by blast

end

text \<open>
  The contract of a refinement: under the invariant every step of the detailed machine is allowed by the
  specification, which has one successor for it, and the specification allows no observed event that the
  detailed machine could not take.
\<close>

locale simulation = invariant_machine step init inv
  for step :: "'s \<Rightarrow> 'e \<Rightarrow> 's \<Rightarrow> bool" and init :: "'s" and inv :: "'s \<Rightarrow> bool" +
  fixes abs :: "'s \<Rightarrow> 'a"
    and spec :: "'e \<Rightarrow> 'a \<Rightarrow> 'a"
    and allows :: "'a \<Rightarrow> 'e \<Rightarrow> bool"
    and observed :: "'e \<Rightarrow> bool"
  assumes simulates: "inv s \<Longrightarrow> step s e t \<Longrightarrow> allows (abs s) e \<and> abs t = spec e (abs s)"
    and progress: "inv s \<Longrightarrow> observed e \<Longrightarrow> allows (abs s) e \<Longrightarrow> \<exists>t. step s e t"
begin

lemma simulates_steps: "steps step s es t \<Longrightarrow> inv s \<Longrightarrow> abs t = fold spec es (abs s)"
proof (induction rule: steps.induct)
  case (steps_Cons s e t es u)
  then show ?case using simulates[of s e t] inv_step[of s e t] by simp
qed simp

lemma simulates_reachable: "steps step init es t \<Longrightarrow> abs t = fold spec es (abs init)"
  using simulates_steps inv_init by blast

lemma observed_exact: "steps step init es t \<Longrightarrow> observed e \<Longrightarrow> (\<exists>u. step t e u) \<longleftrightarrow> allows (abs t) e"
  using inv_reachable simulates progress by blast

end

section \<open>Facts about strings\<close>

lemma js_includes_sublist: "js_includes s t \<longleftrightarrow> sublist t s"
  by (induction s) (auto simp: sublist_Cons_right)

lemma js_includes_subset: "js_includes s t \<Longrightarrow> set t \<subseteq> set s"
  by (simp add: js_includes_sublist set_mono_sublist)

lemma js_includes_self [simp]: "js_includes s s"
  by (simp add: js_includes_sublist)

lemma js_includes_append: "js_includes s t \<Longrightarrow> js_includes (u @ s @ v) t"
  by (auto simp: js_includes_sublist sublist_def) (metis append.assoc)

text \<open>A text without the separator is found in a joined text exactly when one of the parts has it.\<close>

lemma sublist_sep:
  assumes "d \<notin> set p"
  shows "sublist p (x @ d # r) \<longleftrightarrow> sublist p x \<or> sublist p r"
proof
  assume "sublist p (x @ d # r)"
  then show "sublist p x \<or> sublist p r"
    unfolding sublist_append
  proof (elim disjE exE conjE)
    fix p1 p2
    assume "p = p1 @ p2" "suffix p1 x" "prefix p2 (d # r)"
    with assms have "p2 = []" by (cases p2) auto
    with \<open>p = p1 @ p2\<close> \<open>suffix p1 x\<close> show ?thesis by (simp add: suffix_imp_sublist)
  next
    assume "sublist p (d # r)"
    with assms show ?thesis by (cases p) (auto simp: sublist_Cons_right)
  qed simp
next
  assume "sublist p x \<or> sublist p r"
  then show "sublist p (x @ d # r)" by (auto simp: sublist_append sublist_Cons_right)
qed

lemma js_includes_join:
  "ls \<noteq> [] \<Longrightarrow> d \<notin> set p \<Longrightarrow> js_includes (join [d] ls) p \<longleftrightarrow> (\<exists>l \<in> set ls. js_includes l p)"
proof (induction ls)
  case (Cons l ls)
  then show ?case by (cases ls) (simp_all add: js_includes_sublist sublist_sep)
qed simp

lemma starts_with_append [simp]: "starts_with (p @ s) p"
  by (simp add: starts_with_def)

lemma starts_with_js_includes: "starts_with s p \<Longrightarrow> js_includes s p"
  by (simp add: starts_with_def js_includes_sublist prefix_imp_sublist)

lemma split_from_not_Nil [simp]: "split_from sep acc s \<noteq> []"
  by (induction sep acc s rule: split_from.induct) auto

lemma split_not_Nil [simp]: "sep \<noteq> [] \<Longrightarrow> split s sep \<noteq> []"
  by (simp add: split_def)

lemma join_Cons: "ys \<noteq> [] \<Longrightarrow> join sep (x # ys) = x @ sep @ join sep ys"
  by (cases ys) auto

lemma join_split_from: "join sep (split_from sep acc s) = acc @ s"
proof (induction sep acc s rule: split_from.induct)
  case (2 sep acc c s)
  show ?case
  proof (cases "sep \<noteq> [] \<and> prefix sep (c # s)")
    case True
    then obtain r where r: "c # s = sep @ r" by (auto elim: prefixE)
    then have d: "drop (length sep) (c # s) = r" by simp
    with True have "split_from sep acc (c # s) = acc # split_from sep [] r" by simp
    moreover from True 2(1) have "join sep (split_from sep [] r) = r" by (simp add: r)
    ultimately show ?thesis by (simp add: r join_Cons)
  next
    case False
    then show ?thesis using 2(2) by auto
  qed
qed simp

text \<open>Splitting never loses a character: joining with the separator gives the text back.\<close>

lemma join_split: "join sep (split s sep) = s"
proof (cases "sep = []")
  case True
  have "join [] (map (\<lambda>c. [c]) s) = s" for s
  proof (induction s)
    case (Cons c s)
    then show ?case by (cases s) auto
  qed simp
  then show ?thesis by (simp add: True split_def)
next
  case False
  then show ?thesis by (simp add: split_def join_split_from)
qed

lemma join_part_sublist: "x \<in> set xs \<Longrightarrow> sublist x (join sep xs)"
proof (induction sep xs rule: join.induct)
  case (3 sep x' y ys)
  have "sublist z (x' @ sep @ z)" for z by (metis append.right_neutral sublist_appendI append_assoc)
  with 3 show ?case by (auto intro: sublist_order.order.trans)
qed simp_all

lemma join_part_subset: "x \<in> set xs \<Longrightarrow> set x \<subseteq> set (join sep xs)"
  by (induction sep xs rule: join.induct) auto

lemma split_part_subset: "x \<in> set (split s sep) \<Longrightarrow> set x \<subseteq> set s"
  using join_part_subset[of x "split s sep" sep] by (simp add: join_split)

lemma length_split_from: "sep \<noteq> [] \<Longrightarrow> 1 < length (split_from sep acc s) \<longleftrightarrow> js_includes s sep"
  by (induction sep acc s rule: split_from.induct) auto

lemma length_split: "sep \<noteq> [] \<Longrightarrow> 1 < length (split s sep) \<longleftrightarrow> js_includes s sep"
  using length_split_from by (simp add: split_def del: One_nat_def)

text \<open>A separator of one character: the parts are free of it, and splitting undoes joining.\<close>

lemma split_char_from:
  "split_from [d] acc s = (acc @ takeWhile (\<lambda>c. c \<noteq> d) s) #
     (case dropWhile (\<lambda>c. c \<noteq> d) s of [] \<Rightarrow> [] | _ # r \<Rightarrow> split_from [d] [] r)"
  by (induction s arbitrary: acc) auto

lemma split_char_free: "p \<in> set (split_from [d] acc s) \<Longrightarrow> d \<notin> set acc \<Longrightarrow> d \<notin> set p"
  by (induction "[d]" acc s rule: split_from.induct) (auto split: if_splits)

lemma split_char_append:
  "d \<notin> set x \<Longrightarrow> split_from [d] acc (x @ d # r) = (acc @ x) # split_from [d] [] r"
  by (induction x arbitrary: acc) auto

lemma split_char_none: "d \<notin> set x \<Longrightarrow> split_from [d] acc x = [acc @ x]"
  by (induction x arbitrary: acc) auto

lemma split_join_char:
  "xs \<noteq> [] \<Longrightarrow> \<forall>x \<in> set xs. d \<notin> set x \<Longrightarrow> split (join [d] xs) [d] = xs"
proof (induction xs)
  case (Cons x xs)
  then show ?case
    by (cases xs) (auto simp: split_def split_char_none split_char_append)
qed simp

lemma trim_left_suffix: "\<exists>w. s = w @ trim_left s \<and> (\<forall>c \<in> set w. is_space c)"
  by (metis set_takeWhileD takeWhile_dropWhile_id trim_left_def)

lemma nat_to_string_not_Nil [simp]: "nat_to_string n \<noteq> []"
  by (subst nat_to_string.simps) simp

lemma code_digit_char: "d < 10 \<Longrightarrow> code_of (digit_char d) = 48 + d"
  by (simp add: code_of_def digit_char_def)

lemma is_digit_digit_char [simp]: "d < 10 \<Longrightarrow> is_digit (digit_char d)"
  by (simp add: is_digit_def code_digit_char)

lemma nat_to_string_digits: "c \<in> set (nat_to_string n) \<Longrightarrow> is_digit c"
proof (induction n rule: nat_to_string.induct)
  case (1 n)
  then show ?case by (subst (asm) nat_to_string.simps) (auto split: if_splits)
qed

lemma digits_value_snoc: "digits_value (ds @ [c]) = 10 * digits_value ds + (code_of c - 48)"
  by (simp add: digits_value_def)

lemma digits_value_nat_to_string [simp]: "digits_value (nat_to_string n) = n"
proof (induction n rule: nat_to_string.induct)
  case (1 n)
  show ?case
  proof (cases "n < 10")
    case True
    then show ?thesis by (subst nat_to_string.simps) (simp add: digits_value_def code_digit_char)
  next
    case False
    with 1 show ?thesis
      by (subst nat_to_string.simps) (simp add: digits_value_snoc code_digit_char)
  qed
qed

lemma digit_facts: "is_digit c \<Longrightarrow> \<not> is_space c \<and> c \<noteq> CHR ''-'' \<and> c \<noteq> CHR ''+''"
  by (auto simp: is_digit_def is_space_def code_of_def)

lemma parse_int_nat_to_string [simp]: "parse_int (nat_to_string n) = Some (int n)"
proof -
  have d: "\<forall>c \<in> set (nat_to_string n). is_digit c" using nat_to_string_digits by blast
  then have t: "takeWhile is_digit (nat_to_string n) = nat_to_string n" by (simp add: takeWhile_eq_all_conv)
  obtain c r where cr: "nat_to_string n = c # r" by (cases "nat_to_string n") auto
  with d digit_facts[of c] have "trim_left (nat_to_string n) = c # r" "c \<noteq> CHR ''-''" "c \<noteq> CHR ''+''"
    by (simp_all add: trim_left_def)
  with t cr show ?thesis by (simp add: parse_int_def parse_digits_def digits_value_nat_to_string[of n, unfolded cr])
qed

lemma parse_int_Nil [simp]: "parse_int [] = None"
  by (simp add: parse_int_def trim_left_def)

end
