(* ===== verification/JsValue.thy ===== *)
theory JsValue
  imports Prelude
begin

text \<open>
  JavaScript values as far as the frontend computes with them: primitive values, the JSON bodies
  exchanged with the servers (objects whose fields are primitive, as both servers send them;
  numbers are integers), thrown values, and the outcome of a \<^verbatim>\<open>fetch\<close>. A computation that may throw
  returns \<open>thrown + 'a\<close>.
\<close>

section \<open>Values\<close>

datatype jprim = Undefined | Null | Bool bool | Num int | Str string

text \<open>
  A parsed JSON text: \<^verbatim>\<open>null\<close>, a value without the properties the code reads (a number, a
  string, a boolean or an array; the flag is its truthiness), or an object.
\<close>

datatype body = NullBody | ScalarBody bool | ObjectBody "(string \<times> jprim) list"

fun truthy :: "jprim \<Rightarrow> bool" where
  "truthy Undefined = False"
| "truthy Null = False"
| "truthy (Bool b) = b"
| "truthy (Num n) = (n \<noteq> 0)"
| "truthy (Str s) = (s \<noteq> [])"

fun to_string :: "jprim \<Rightarrow> string" where
  "to_string Undefined = ''undefined''"
| "to_string Null = ''null''"
| "to_string (Bool True) = ''true''"
| "to_string (Bool False) = ''false''"
| "to_string (Num n) = int_to_string n"
| "to_string (Str s) = s"

fun truthy_body :: "body \<Rightarrow> bool" where
  "truthy_body NullBody = False"
| "truthy_body (ScalarBody b) = b"
| "truthy_body (ObjectBody fs) = True"

text \<open>\<^verbatim>\<open>JSON.stringify\<close> leaves out the fields whose value is undefined.\<close>

definition json_fields :: "(string \<times> jprim) list \<Rightarrow> (string \<times> jprim) list" where
  "json_fields fs = filter (\<lambda>(k, v). v \<noteq> Undefined) fs"

fun serialize :: "body \<Rightarrow> body" where
  "serialize NullBody = NullBody"
| "serialize (ScalarBody b) = ScalarBody b"
| "serialize (ObjectBody fs) = ObjectBody (json_fields fs)"

section \<open>Exceptions\<close>

text \<open>A thrown value: an \<^verbatim>\<open>Error\<close> with its message, or something else.\<close>

datatype thrown = ErrorObject string | OtherThrown

text \<open>\<^verbatim>\<open>error instanceof Error ? error.message : 'An unknown error occurred'\<close>\<close>

fun error_message :: "thrown \<Rightarrow> string" where
  "error_message (ErrorObject m) = m"
| "error_message OtherThrown = ''An unknown error occurred''"

text \<open>\<^verbatim>\<open>new Error(x)\<close>: an undefined argument gives the empty message.\<close>

fun new_error :: "jprim \<Rightarrow> thrown" where
  "new_error Undefined = ErrorObject ''''"
| "new_error v = ErrorObject (to_string v)"

text \<open>Reading a property of \<^verbatim>\<open>null\<close> or \<^verbatim>\<open>undefined\<close> throws a \<^verbatim>\<open>TypeError\<close>.\<close>

definition read_error :: "string \<Rightarrow> string \<Rightarrow> thrown" where
  "read_error what name =
     ErrorObject (''Cannot read properties of '' @ what @ '' (reading '' @ [CHR 0x27] @ name @ [CHR 0x27] @ '')'')"

definition destructure_error :: "string \<Rightarrow> thrown" where
  "destructure_error name =
     ErrorObject (''Cannot destructure property '' @ [CHR 0x27] @ name @ [CHR 0x27] @
       '' of '' @ [CHR 0x27] @ ''(intermediate value)'' @ [CHR 0x27] @ '' as it is null.'')"

fun field_of :: "(string \<times> jprim) list \<Rightarrow> string \<Rightarrow> jprim" where
  "field_of fs k = (case map_of fs k of None \<Rightarrow> Undefined | Some v \<Rightarrow> v)"

fun get_field :: "body \<Rightarrow> string \<Rightarrow> thrown + jprim" where
  "get_field NullBody k = Inl (read_error ''null'' k)"
| "get_field (ScalarBody b) k = Inr Undefined"
| "get_field (ObjectBody fs) k = Inr (field_of fs k)"

text \<open>\<^verbatim>\<open>const { a, b } = value\<close>\<close>

fun destructure :: "string list \<Rightarrow> body \<Rightarrow> thrown + jprim list" where
  "destructure ks NullBody = Inl (destructure_error (hd ks))"
| "destructure ks (ScalarBody b) = Inr (map (\<lambda>_. Undefined) ks)"
| "destructure ks (ObjectBody fs) = Inr (map (field_of fs) ks)"

fun and_then :: "thrown + 'a \<Rightarrow> ('a \<Rightarrow> thrown + 'b) \<Rightarrow> thrown + 'b" where
  "and_then (Inl t) f = Inl t"
| "and_then (Inr x) f = f x"

section \<open>Network\<close>

text \<open>
  \<^verbatim>\<open>fetch\<close> either rejects or gives a response: its \<^verbatim>\<open>ok\<close> flag and what its \<^verbatim>\<open>json()\<close> settles to.
  A response a route sends has a status and a body, seen by its client as an outcome.
\<close>

datatype outcome = Rejected thrown | Responded bool "thrown + body"

record request =
  url :: string
  sent_fields :: "(string \<times> jprim) list"

record response =
  status :: nat
  payload :: body

definition received :: "response \<Rightarrow> outcome" where
  "received r = Responded (200 \<le> status r \<and> status r \<le> 299) (Inr (serialize (payload r)))"

section \<open>Facts\<close>

lemma field_of_json_fields [simp]:
  "distinct (map fst fs) \<Longrightarrow> field_of (json_fields fs) k = field_of fs k"
proof (induction fs)
  case (Cons x fs)
  then show ?case
    by (cases x) (force simp: json_fields_def map_of_eq_None_iff image_iff split: option.splits
        dest!: map_of_SomeD)
qed (simp add: json_fields_def)

lemma json_fields_idem [simp]: "json_fields (json_fields fs) = json_fields fs"
  by (simp add: json_fields_def)

lemma serialize_idem [simp]: "serialize (serialize b) = serialize b"
  by (cases b) auto

lemma and_then_Inr: "and_then m f = Inr y \<longleftrightarrow> (\<exists>x. m = Inr x \<and> f x = Inr y)"
  by (cases m) auto

lemma and_then_Inl: "and_then m f = Inl t \<longleftrightarrow> m = Inl t \<or> (\<exists>x. m = Inr x \<and> f x = Inl t)"
  by (cases m) auto

lemma get_field_Inl: "get_field b k = Inl t \<longleftrightarrow> b = NullBody \<and> t = read_error ''null'' k"
  by (cases b) auto

lemma new_error_message: "error_message (new_error v) = (if v = Undefined then [] else to_string v)"
  by (cases v) auto

end
