(* ===== verification/Routes.thy ===== *)
theory Routes
  imports JsValue
begin

text \<open>
  The two API routes of the frontend, \<^verbatim>\<open>src/app/api/generate-ir/route.ts\<close> and
  \<^verbatim>\<open>src/app/api/validate/route.ts\<close>: each forwards the request's fields to the relay server (a
  parameter: what \<^verbatim>\<open>fetch\<close> to a URL with given fields does) and turns its answer, or a thrown error,
  into a response.
\<close>

section \<open>The routes\<close>

type_synonym relay = "request \<Rightarrow> outcome"

text \<open>\<^verbatim>\<open>process.env.RELAY_URL || 'http://localhost:3001'\<close>\<close>

definition RELAY_URL :: "string option \<Rightarrow> string" where
  "RELAY_URL env = (case env of None \<Rightarrow> ''http://localhost:3001''
     | Some u \<Rightarrow> if u = [] then ''http://localhost:3001'' else u)"

text \<open>
  The common part of the two \<^verbatim>\<open>try\<close> blocks. \<open>answer\<close>: report the relay's error when the response is
  not ok or carries one (the field is read once in the test and once for the message), pass the
  data on otherwise. \<open>forward\<close>: destructure the request, send the named fields, parse the answer.
\<close>

definition answer :: "bool \<Rightarrow> body \<Rightarrow> thrown + response" where
  "answer ok data =
     and_then (if \<not> ok then Inr True else and_then (get_field data ''error'') (\<lambda>e. Inr (truthy e))) (\<lambda>bad.
       if bad
       then and_then (get_field data ''error'') (\<lambda>e.
         Inr \<lparr>status = 500, payload = ObjectBody [(''error'', e)]\<rparr>)
       else Inr \<lparr>status = 200, payload = data\<rparr>)"

definition relay_request :: "string option \<Rightarrow> string \<Rightarrow> string list \<Rightarrow> jprim list \<Rightarrow> request" where
  "relay_request env path names vs =
     \<lparr>url = RELAY_URL env @ path, sent_fields = json_fields (zip names vs)\<rparr>"

definition forward :: "string \<Rightarrow> string list \<Rightarrow> relay \<Rightarrow> string option \<Rightarrow> (thrown + body) \<Rightarrow> thrown + response" where
  "forward path names relay env req =
     and_then req (\<lambda>b.
     and_then (destructure names b) (\<lambda>vs.
       (case relay (relay_request env path names vs) of
          Rejected t \<Rightarrow> Inl t
        | Responded ok json \<Rightarrow> and_then json (answer ok))))"

definition generate_ir_POST :: "relay \<Rightarrow> string option \<Rightarrow> (thrown + body) \<Rightarrow> response" where
  "generate_ir_POST relay env req =
     (case forward ''/api/generate-ir'' [''cppCode'', ''rustCode''] relay env req of
        Inr r \<Rightarrow> r
      | Inl t \<Rightarrow> \<lparr>status = 500, payload = ObjectBody [(''error'', Str (error_message t))]\<rparr>)"

definition validate_POST :: "relay \<Rightarrow> string option \<Rightarrow> (thrown + body) \<Rightarrow> response" where
  "validate_POST relay env req =
     (case forward ''/api/validate'' [''cppIR'', ''rustIR'', ''cppFunctionName'', ''rustFunctionName'']
        relay env req of
        Inr r \<Rightarrow> r
      | Inl t \<Rightarrow> \<lparr>status = 500, payload = ObjectBody [(''success'', Bool False),
          (''verifier_output'', Str (error_message t)), (''num_errors'', Num 1)]\<rparr>)"

section \<open>What they answer\<close>

lemma answer_Inr:
  "answer ok data = Inr r \<longleftrightarrow>
     (\<exists>e. get_field data ''error'' = Inr e \<and>
        r = (if ok \<and> \<not> truthy e then \<lparr>status = 200, payload = data\<rparr>
             else \<lparr>status = 500, payload = ObjectBody [(''error'', e)]\<rparr>))"
  by (cases "get_field data ''error''") (auto simp: answer_def)

lemma answer_Inl: "answer ok data = Inl t \<longleftrightarrow> data = NullBody \<and> t = read_error ''null'' ''error''"
  by (cases data) (auto simp: answer_def)

lemma forward_Inr:
  "forward path names relay env req = Inr r \<longleftrightarrow>
     (\<exists>b vs ok data. req = Inr b \<and> destructure names b = Inr vs \<and>
        relay (relay_request env path names vs) = Responded ok (Inr data) \<and> answer ok data = Inr r)"
proof (cases req)
  case (Inr b)
  show ?thesis
  proof (cases "destructure names b")
    case (Inr vs)
    with \<open>req = Inr b\<close> show ?thesis
      by (cases "relay (relay_request env path names vs)") (auto simp: forward_def and_then_Inr)
  qed (auto simp: forward_def \<open>req = Inr b\<close>)
qed (simp add: forward_def)

lemma status_answer: "answer ok data = Inr r \<Longrightarrow> status r = 200 \<and> ok \<and> payload r = data \<or> status r = 500"
  by (auto simp: answer_Inr split: if_splits)

lemma status_forward: "forward path names relay env req = Inr r \<Longrightarrow> status r = 200 \<or> status r = 500"
  by (auto simp: forward_Inr dest: status_answer)

text \<open>
  The generate-ir route answers 200 exactly when the request is a JSON value it can
  destructure and the relay's answer to the forwarded code is ok, is JSON and carries no error; it
  then passes the relay's data on unchanged. Every other answer is 500.
\<close>

lemma generate_ir_ok_iff:
  "(status (generate_ir_POST relay env req) = 200 \<longleftrightarrow>
     (\<exists>b vs data e. req = Inr b \<and> destructure [''cppCode'', ''rustCode''] b = Inr vs \<and>
        relay (relay_request env ''/api/generate-ir'' [''cppCode'', ''rustCode''] vs) = Responded True (Inr data) \<and>
        get_field data ''error'' = Inr e \<and> \<not> truthy e \<and>
        generate_ir_POST relay env req = \<lparr>status = 200, payload = data\<rparr>)) \<and>
   status (generate_ir_POST relay env req) \<in> {200, 500}"
proof (cases "forward ''/api/generate-ir'' [''cppCode'', ''rustCode''] relay env req")
  case (Inl t)
  then show ?thesis by (auto simp: generate_ir_POST_def)
next
  case (Inr r)
  then have "generate_ir_POST relay env req = r" by (simp add: generate_ir_POST_def)
  with Inr show ?thesis by (auto simp: forward_Inr answer_Inr split: if_splits)
qed

text \<open>
  What the client sees of a failed validation: when the request or the relay fails by a
  thrown error, the validate route's body has no \<open>error\<close> field (its message is in
  \<open>verifier_output\<close>), unlike the generate-ir route's, which carries the message in \<open>error\<close>.
\<close>

lemma routes_report_thrown:
  assumes "forward ''/api/validate'' [''cppIR'', ''rustIR'', ''cppFunctionName'', ''rustFunctionName'']
             relay env req = Inl t"
    and "forward ''/api/generate-ir'' [''cppCode'', ''rustCode''] relay env req' = Inl t'"
  shows "get_field (payload (validate_POST relay env req)) ''error'' = Inr Undefined \<and>
         get_field (payload (validate_POST relay env req)) ''verifier_output'' = Inr (Str (error_message t)) \<and>
         get_field (payload (generate_ir_POST relay env req')) ''error'' = Inr (Str (error_message t'))"
  using assms by (simp add: validate_POST_def generate_ir_POST_def)

end
