(* ===== verification/EditorForm.thy ===== *)
theory EditorForm
  imports JsValue
begin

text \<open>
  The form of \<^verbatim>\<open>src/components/CodeEditorForm.tsx\<close>: its state, the page it renders, the handlers, and
  the asynchronous \<^verbatim>\<open>handleSubmit\<close> cut at its \<^verbatim>\<open>await\<close>s. Between two \<^verbatim>\<open>await\<close>s the handler runs without
  interruption and React applies its updates before the next event, so each piece is one step; other
  events interleave while a run waits. The network is the sequence of settling events.

  The close buttons of the modal and of the toast lie inside the form, but their handlers take them out
  of the document before the browser would act on the click, so they submit nothing.
\<close>

section \<open>State\<close>

datatype toast_type = ErrorToast | SuccessToast | InfoToast

text \<open>
  Where a run of \<^verbatim>\<open>handleSubmit\<close> waits: for the response of \<^verbatim>\<open>/api/generate-ir\<close>, for its parsed body
  (with the response's \<^verbatim>\<open>ok\<close>), and the same for \<^verbatim>\<open>/api/validate\<close>. A run keeps the function names of the
  render it was started in, which its closure captured.
\<close>

datatype await = IRResponse | IRJson bool | ValResponse | ValJson bool

record run =
  cpp_name :: string
  rust_name :: string
  waiting :: await

record form =
  cppCode :: string
  rustCode :: string
  cppFunctionName :: string
  rustFunctionName :: string
  result :: "body option"
  isLoading :: bool
  showIRModal :: bool
  cppIR :: jprim
  rustIR :: jprim
  isGeneratingIR :: bool
  toast :: "(toast_type \<times> string) option"
  flights :: "run list"
  sent :: "request list"

definition initial :: form where
  "initial = \<lparr>cppCode = '''', rustCode = '''', cppFunctionName = '''', rustFunctionName = '''',
     result = None, isLoading = False, showIRModal = False, cppIR = Str '''', rustIR = Str '''',
     isGeneratingIR = False, toast = None, flights = [], sent = []\<rparr>"

section \<open>The page\<close>

datatype form_event =
    EditCpp string | EditRust string
  | EditCppName string | EditRustName string
  | SelectExample string string
  | ClearAll | Submit | CloseModal | CloseToast
  | Responds nat "thrown + bool"
  | Parses nat "thrown + body"

datatype element =
    ExampleSelector
  | Heading string
  | CppEditor string | RustEditor string
  | ClearButton bool string
  | CppNameInput string string | RustNameInput string string
  | LLVMIRModal bool jprim jprim "body option" bool
  | SubmitButton bool string
  | Toast toast_type string

text \<open>The \<^verbatim>\<open>disabled\<close> attributes and the label of the submit button.\<close>

definition clear_disabled :: "form \<Rightarrow> bool" where
  "clear_disabled s \<longleftrightarrow>
     cppCode s = [] \<and> rustCode s = [] \<and> \<not> truthy (cppIR s) \<and> \<not> truthy (rustIR s)"

definition submit_disabled :: "form \<Rightarrow> bool" where
  "submit_disabled s \<longleftrightarrow> cppCode s = [] \<or> rustCode s = [] \<or> isLoading s \<or> isGeneratingIR s"

definition submit_label :: "form \<Rightarrow> string" where
  "submit_label s =
     (if isGeneratingIR s then ''Generating LLVM IR...''
      else if isLoading s then ''Validating Translation...''
      else ''Validate Translation'')"

definition CodeEditorForm :: "form \<Rightarrow> element list" where
  "CodeEditorForm s =
     [ExampleSelector,
      Heading ''Source C++ Code'', CppEditor (cppCode s),
      Heading ''Translated Rust Code'', ClearButton (clear_disabled s) ''Clear All'', RustEditor (rustCode s),
      CppNameInput (cppFunctionName s) ''C++ Function Name (Optional)'',
      RustNameInput (rustFunctionName s) ''Rust Function Name (Optional)'',
      LLVMIRModal (showIRModal s) (cppIR s) (rustIR s) (result s) (isLoading s),
      SubmitButton (submit_disabled s) (submit_label s)]
     @ (case toast s of None \<Rightarrow> [] | Some (k, m) \<Rightarrow> [Toast k m])"

text \<open>The events an element lets through: a disabled button none, a closed modal none.\<close>

fun offers :: "element \<Rightarrow> form_event \<Rightarrow> bool" where
  "offers ExampleSelector e = (case e of SelectExample cpp rust \<Rightarrow> True | _ \<Rightarrow> False)"
| "offers (Heading label) e = False"
| "offers (CppEditor v) e = (case e of EditCpp v' \<Rightarrow> True | _ \<Rightarrow> False)"
| "offers (RustEditor v) e = (case e of EditRust v' \<Rightarrow> True | _ \<Rightarrow> False)"
| "offers (ClearButton disabled label) e = (e = ClearAll \<and> \<not> disabled)"
| "offers (CppNameInput v placeholder) e = (case e of EditCppName v' \<Rightarrow> True | _ \<Rightarrow> False)"
| "offers (RustNameInput v placeholder) e = (case e of EditRustName v' \<Rightarrow> True | _ \<Rightarrow> False)"
| "offers (LLVMIRModal isOpen c q res validating) e = (e = CloseModal \<and> isOpen)"
| "offers (SubmitButton disabled label) e = (e = Submit \<and> \<not> disabled)"
| "offers (Toast k m) e = (e = CloseToast)"

section \<open>Handlers\<close>

definition showToast :: "string \<Rightarrow> toast_type \<Rightarrow> form \<Rightarrow> form" where
  "showToast message k s = s\<lparr>toast := Some (k, message)\<rparr>"

definition CODE_LENGTH_LIMIT :: nat where
  "CODE_LENGTH_LIMIT = 10000"

definition LLVM_IR_LENGTH_LIMIT :: nat where
  "LLVM_IR_LENGTH_LIMIT = 50000"

text \<open>The message is a template over two lines of the source, indentation included.\<close>

definition limit_message :: "string \<Rightarrow> string \<Rightarrow> nat \<Rightarrow> string" where
  "limit_message codeName typeName limit =
     codeName @ '' length limit exceeded.'' @ [newline] @ replicate 22 (CHR '' '') @
     ''Please keep the '' @ typeName @ '' under '' @ nat_to_string limit @ '' characters.''"

text \<open>\<^verbatim>\<open>code.length > limit\<close>: a value without a length compares as undefined, which is false.\<close>

fun checkLimit :: "string \<Rightarrow> jprim \<Rightarrow> string \<Rightarrow> nat \<Rightarrow> thrown + unit" where
  "checkLimit codeName Undefined typeName limit = Inl (read_error ''undefined'' ''length'')"
| "checkLimit codeName Null typeName limit = Inl (read_error ''null'' ''length'')"
| "checkLimit codeName (Bool b) typeName limit = Inr ()"
| "checkLimit codeName (Num n) typeName limit = Inr ()"
| "checkLimit codeName (Str code) typeName limit =
     (if length code > limit then Inl (ErrorObject (limit_message codeName typeName limit)) else Inr ())"

definition check_limits :: "(string \<times> jprim \<times> string) \<Rightarrow> (string \<times> jprim \<times> string) \<Rightarrow> nat \<Rightarrow> thrown + unit" where
  "check_limits a b limit =
     (case (a, b) of ((n, c, t), (n', c', t')) \<Rightarrow>
        and_then (checkLimit n c t limit) (\<lambda>_. checkLimit n' c' t' limit))"

text \<open>The \<^verbatim>\<open>catch\<close> and \<^verbatim>\<open>finally\<close> blocks.\<close>

definition failure_result :: "string \<Rightarrow> body" where
  "failure_result m =
     ObjectBody [(''success'', Bool False), (''verifier_output'', Str m), (''num_errors'', Num 1)]"

definition catch_error :: "thrown \<Rightarrow> form \<Rightarrow> form" where
  "catch_error t s =
     (showToast (error_message t) ErrorToast s)\<lparr>result := Some (failure_result (error_message t))\<rparr>"

definition finish :: "form \<Rightarrow> form" where
  "finish s = s\<lparr>isGeneratingIR := False, isLoading := False\<rparr>"

definition handleSubmit :: "form \<Rightarrow> form" where
  "handleSubmit s =
     (if cppCode s = [] \<or> rustCode s = [] then s else
      let s1 = showToast ''Generating LLVM IR...'' InfoToast (s\<lparr>isGeneratingIR := True, result := None\<rparr>) in
      case check_limits (''C++ code'', Str (cppCode s), ''C++ code'') (''Rust code'', Str (rustCode s), ''Rust code'')
             CODE_LENGTH_LIMIT of
        Inl t \<Rightarrow> finish (catch_error t s1)
      | Inr _ \<Rightarrow> s1\<lparr>
          sent := sent s1 @ [\<lparr>url = ''/api/generate-ir'',
            sent_fields = json_fields [(''cppCode'', Str (cppCode s)), (''rustCode'', Str (rustCode s))]\<rparr>],
          flights := flights s1 @
            [\<lparr>cpp_name = cppFunctionName s, rust_name = rustFunctionName s, waiting = IRResponse\<rparr>]\<rparr>)"

text \<open>
  The rest of the run, piece by piece. A piece gives the state it leaves and either the error it
  threw, the end of the \<^verbatim>\<open>try\<close> block (\<open>None\<close>), or the run waiting again; \<open>resume\<close> puts the piece's
  outcome back, running \<^verbatim>\<open>catch\<close> and \<^verbatim>\<open>finally\<close> where the run ends.
\<close>

type_synonym piece = "form \<times> (thrown + run option)"

definition check_response :: "bool \<Rightarrow> body \<Rightarrow> thrown + unit" where
  "check_response ok data =
     and_then (if \<not> ok then Inr True else and_then (get_field data ''error'') (\<lambda>e. Inr (truthy e))) (\<lambda>bad.
       if bad then and_then (get_field data ''error'') (\<lambda>e. Inl (new_error e)) else Inr ())"

definition name_or_empty :: "string \<Rightarrow> string" where
  "name_or_empty n = (if length n > 0 then n else ''EMPTY'')"

definition validate_request :: "run \<Rightarrow> jprim \<Rightarrow> jprim \<Rightarrow> request" where
  "validate_request r cpp_ir rust_ir =
     \<lparr>url = ''/api/validate'', sent_fields = json_fields
       [(''cppIR'', cpp_ir), (''rustIR'', rust_ir),
        (''cppFunctionName'', Str (name_or_empty (cpp_name r))),
        (''rustFunctionName'', Str (name_or_empty (rust_name r)))]\<rparr>"

definition start_validation :: "run \<Rightarrow> jprim \<Rightarrow> jprim \<Rightarrow> form \<Rightarrow> piece" where
  "start_validation r c q s =
     (let s1 = showToast ''LLVM IR generated, starting validation...'' InfoToast
                 (s\<lparr>cppIR := c, rustIR := q, showIRModal := True, isLoading := True\<rparr>) in
      case check_limits (''C++ IR'', c, ''generated C++ IR'') (''Rust IR'', q, ''generated Rust IR'')
             LLVM_IR_LENGTH_LIMIT of
        Inl t \<Rightarrow> (s1, Inl t)
      | Inr _ \<Rightarrow> (s1\<lparr>sent := sent s1 @ [validate_request r c q]\<rparr>, Inr (Some (r\<lparr>waiting := ValResponse\<rparr>))))"

definition ir_received :: "run \<Rightarrow> bool \<Rightarrow> body \<Rightarrow> form \<Rightarrow> piece" where
  "ir_received r ok data s =
     (case check_response ok data of
        Inl t \<Rightarrow> (s, Inl t)
      | Inr _ \<Rightarrow>
     (case get_field data ''cppIR'' of
        Inl t \<Rightarrow> (s, Inl t)
      | Inr c \<Rightarrow>
     (case get_field data ''rustIR'' of
        Inl t \<Rightarrow> (s\<lparr>cppIR := c\<rparr>, Inl t)
      | Inr q \<Rightarrow> start_validation r c q s)))"

definition validation_received :: "run \<Rightarrow> bool \<Rightarrow> body \<Rightarrow> form \<Rightarrow> piece" where
  "validation_received r ok data s =
     (case check_response ok data of
        Inl t \<Rightarrow> (s, Inl t)
      | Inr _ \<Rightarrow>
      let s1 = s\<lparr>result := Some data\<rparr> in
      case get_field data ''success'' of
        Inl t \<Rightarrow> (s1, Inl t)
      | Inr v \<Rightarrow>
          (if truthy v then showToast ''Validation completed successfully!'' SuccessToast s1
           else showToast ''Validation failed. Check the results for details.'' ErrorToast s1, Inr None))"

fun response_piece :: "run \<Rightarrow> thrown + bool \<Rightarrow> form \<Rightarrow> piece" where
  "response_piece r (Inl t) s = (s, Inl t)"
| "response_piece r (Inr ok) s =
     (s, Inr (Some (r\<lparr>waiting := (if waiting r = IRResponse then IRJson ok else ValJson ok)\<rparr>)))"

fun json_piece :: "run \<Rightarrow> thrown + body \<Rightarrow> form \<Rightarrow> piece" where
  "json_piece r (Inl t) s = (s, Inl t)"
| "json_piece r (Inr data) s =
     (case waiting r of
        IRJson ok \<Rightarrow> ir_received r ok data s
      | ValJson ok \<Rightarrow> validation_received r ok data s
      | _ \<Rightarrow> (s, Inr (Some r)))"

definition drop_run :: "nat \<Rightarrow> form \<Rightarrow> form" where
  "drop_run i s = s\<lparr>flights := take i (flights s) @ drop (Suc i) (flights s)\<rparr>"

fun resume :: "nat \<Rightarrow> piece \<Rightarrow> form" where
  "resume i (s, Inl t) = drop_run i (finish (catch_error t s))"
| "resume i (s, Inr None) = drop_run i (finish s)"
| "resume i (s, Inr (Some r)) = s\<lparr>flights := (flights s)[i := r]\<rparr>"

section \<open>Steps\<close>

fun handle :: "form_event \<Rightarrow> form \<Rightarrow> form" where
  "handle (EditCpp v) s = s\<lparr>cppCode := v\<rparr>"
| "handle (EditRust v) s = s\<lparr>rustCode := v\<rparr>"
| "handle (EditCppName v) s = s\<lparr>cppFunctionName := v\<rparr>"
| "handle (EditRustName v) s = s\<lparr>rustFunctionName := v\<rparr>"
| "handle (SelectExample cpp rust) s = s\<lparr>cppCode := cpp, rustCode := rust\<rparr>"
| "handle ClearAll s = s\<lparr>cppCode := '''', rustCode := '''', cppIR := Str '''', rustIR := Str '''', result := None\<rparr>"
| "handle Submit s = handleSubmit s"
| "handle CloseModal s = s\<lparr>showIRModal := False\<rparr>"
| "handle CloseToast s = s\<lparr>toast := None\<rparr>"
| "handle (Responds i x) s = resume i (response_piece (flights s ! i) x s)"
| "handle (Parses i x) s = resume i (json_piece (flights s ! i) x s)"

fun awaits_response :: "await \<Rightarrow> bool" where
  "awaits_response IRResponse = True"
| "awaits_response ValResponse = True"
| "awaits_response _ = False"

inductive form_step :: "form \<Rightarrow> form_event \<Rightarrow> form \<Rightarrow> bool" where
  user: "el \<in> set (CodeEditorForm s) \<Longrightarrow> offers el e \<Longrightarrow> form_step s e (handle e s)"
| responds: "i < length (flights s) \<Longrightarrow> awaits_response (waiting (flights s ! i)) \<Longrightarrow>
    form_step s (Responds i x) (handle (Responds i x) s)"
| parses: "i < length (flights s) \<Longrightarrow> \<not> awaits_response (waiting (flights s ! i)) \<Longrightarrow>
    form_step s (Parses i x) (handle (Parses i x) s)"

section \<open>When an event can happen\<close>

inductive_cases form_stepE: "form_step s e t"

lemma form_step_handle: "form_step s e t \<Longrightarrow> t = handle e s"
  by (auto elim: form_stepE)

text \<open>Which events the page and the network let through.\<close>

fun enabled :: "form \<Rightarrow> form_event \<Rightarrow> bool" where
  "enabled s ClearAll = (\<not> clear_disabled s)"
| "enabled s Submit = (\<not> submit_disabled s)"
| "enabled s CloseModal = showIRModal s"
| "enabled s CloseToast = (toast s \<noteq> None)"
| "enabled s (Responds i x) = (i < length (flights s) \<and> awaits_response (waiting (flights s ! i)))"
| "enabled s (Parses i y) = (i < length (flights s) \<and> \<not> awaits_response (waiting (flights s ! i)))"
| "enabled s _ = True"

lemma page_offers:
  "(\<exists>el \<in> set (CodeEditorForm s). offers el e) \<longleftrightarrow>
     enabled s e \<and> (\<forall>i x y. e \<noteq> Responds i x \<and> e \<noteq> Parses i y)"
  by (cases e; cases "toast s") (auto simp: CodeEditorForm_def)

lemma form_step_iff: "form_step s e t \<longleftrightarrow> enabled s e \<and> t = handle e s"
proof
  assume "form_step s e t"
  then show "enabled s e \<and> t = handle e s"
    using page_offers[of s e] by (cases rule: form_stepE) auto
next
  assume r: "enabled s e \<and> t = handle e s"
  show "form_step s e t"
  proof (cases "\<forall>i x y. e \<noteq> Responds i x \<and> e \<noteq> Parses i y")
    case True
    with r page_offers[of s e] show ?thesis by (auto intro: form_step.user)
  next
    case False
    with r show ?thesis by (auto intro: form_step.responds form_step.parses simp del: handle.simps)
  qed
qed

declare form_step_iff [step_simps]

section \<open>The invariant\<close>

text \<open>
  At most one run is in flight, the buttons' flags say whether one is, and \<open>isLoading\<close> says that it
  has reached the validation.
\<close>

fun validating :: "await \<Rightarrow> bool" where
  "validating IRResponse = False"
| "validating (IRJson ok) = False"
| "validating ValResponse = True"
| "validating (ValJson ok) = True"

definition flags_ok :: "form \<Rightarrow> bool" where
  "flags_ok s \<longleftrightarrow> length (flights s) \<le> 1 \<and>
     (isGeneratingIR s \<longleftrightarrow> flights s \<noteq> []) \<and>
     (isLoading s \<longleftrightarrow> (\<exists>r \<in> set (flights s). validating (waiting r)))"

text \<open>What may be sent, and in which order: no validation without its own generation before it.\<close>

fun within :: "jprim \<Rightarrow> nat \<Rightarrow> bool" where
  "within (Str c) n = (length c \<le> n)"
| "within Undefined n = False"
| "within Null n = False"
| "within _ n = True"

definition request_ok :: "request \<Rightarrow> bool" where
  "request_ok q \<longleftrightarrow>
     (if url q = ''/api/generate-ir''
      then map fst (sent_fields q) = [''cppCode'', ''rustCode''] \<and>
           (\<forall>(k, v) \<in> set (sent_fields q). within v CODE_LENGTH_LIMIT \<and> truthy v)
      else url q = ''/api/validate'' \<and>
           map fst (sent_fields q) = [''cppIR'', ''rustIR'', ''cppFunctionName'', ''rustFunctionName''] \<and>
           (\<forall>k \<in> {''cppIR'', ''rustIR''}. within (field_of (sent_fields q) k) LLVM_IR_LENGTH_LIMIT) \<and>
           (\<forall>k \<in> {''cppFunctionName'', ''rustFunctionName''}. truthy (field_of (sent_fields q) k)))"

definition log_ok :: "form \<Rightarrow> bool" where
  "log_ok s \<longleftrightarrow>
     (\<forall>q \<in> set (sent s). request_ok q) \<and>
     (\<forall>i < length (sent s). url (sent s ! i) = ''/api/validate'' \<longrightarrow>
        0 < i \<and> url (sent s ! (i - 1)) = ''/api/generate-ir'') \<and>
     ((\<exists>r \<in> set (flights s). \<not> validating (waiting r)) \<longrightarrow>
        sent s \<noteq> [] \<and> url (last (sent s)) = ''/api/generate-ir'')"

definition form_inv :: "form \<Rightarrow> bool" where
  "form_inv s \<longleftrightarrow> flags_ok s \<and> log_ok s"

lemma form_inv_initial: "form_inv initial"
  by (simp add: form_inv_def flags_ok_def log_ok_def initial_def)

lemma one_flight: "flags_ok s \<Longrightarrow> i < length (flights s) \<Longrightarrow> i = 0 \<and> flights s = [flights s ! 0]"
  by (cases "flights s") (auto simp: flags_ok_def)

lemma checkLimit_Inr: "checkLimit n c t limit = Inr x \<longleftrightarrow> within c limit"
  by (cases c) auto

lemma checkLimit_defined: "checkLimit n c t limit = Inr x \<Longrightarrow> c \<noteq> Undefined"
  by (cases c) auto

lemma check_limits_Inr:
  "check_limits (n, c, t) (n', c', t') limit = Inr x \<longleftrightarrow> within c limit \<and> within c' limit"
  by (simp add: check_limits_def and_then_Inr checkLimit_Inr)

lemma validate_request_ok:
  "within c LLVM_IR_LENGTH_LIMIT \<Longrightarrow> within q LLVM_IR_LENGTH_LIMIT \<Longrightarrow> request_ok (validate_request r c q)"
  by (cases c; cases q) (auto simp: request_ok_def validate_request_def json_fields_def name_or_empty_def)

text \<open>The log after one more request.\<close>

lemma log_snoc:
  assumes "\<forall>i < length qs. url (qs ! i) = ''/api/validate'' \<longrightarrow> 0 < i \<and> url (qs ! (i - 1)) = ''/api/generate-ir''"
    and "url q = ''/api/validate'' \<Longrightarrow> qs \<noteq> [] \<and> url (last qs) = ''/api/generate-ir''"
  shows "\<forall>i < length (qs @ [q]). url ((qs @ [q]) ! i) = ''/api/validate'' \<longrightarrow>
     0 < i \<and> url ((qs @ [q]) ! (i - 1)) = ''/api/generate-ir''"
  using assms by (auto simp: nth_append last_conv_nth less_Suc_eq)

lemma handleSubmit_inv:
  assumes "form_inv s" and "\<not> submit_disabled s"
  shows "form_inv (handleSubmit s)"
proof -
  from assms have idle: "flights s = []" and code: "cppCode s \<noteq> []" "rustCode s \<noteq> []"
    by (auto simp: form_inv_def flags_ok_def submit_disabled_def)
  show ?thesis
  proof (cases "check_limits (''C++ code'', Str (cppCode s), ''C++ code'') (''Rust code'', Str (rustCode s), ''Rust code'') CODE_LENGTH_LIMIT")
    case (Inl t)
    with assms(1) idle code show ?thesis
      by (simp add: handleSubmit_def form_inv_def flags_ok_def log_ok_def finish_def catch_error_def showToast_def)
  next
    case (Inr u)
    let ?q = "\<lparr>url = ''/api/generate-ir'',
       sent_fields = json_fields [(''cppCode'', Str (cppCode s)), (''rustCode'', Str (rustCode s))]\<rparr>"
    from Inr code have "request_ok ?q"
      by (auto simp: check_limits_Inr request_ok_def json_fields_def)
    with assms(1) log_snoc[of "sent s" ?q] have "log_ok (handleSubmit s)"
      using Inr code idle by (auto simp: handleSubmit_def form_inv_def log_ok_def showToast_def)
    moreover from Inr code idle assms(1) have "flags_ok (handleSubmit s)"
      by (auto simp: handleSubmit_def form_inv_def flags_ok_def showToast_def)
    ultimately show ?thesis by (simp add: form_inv_def)
  qed
qed

lemmas piece_defs = drop_run_def finish_def catch_error_def showToast_def

lemma catch_error_keeps [simp]:
  "sent (catch_error t s) = sent s" "flights (catch_error t s) = flights s"
  by (simp_all add: catch_error_def showToast_def)

text \<open>What a piece keeps of the log and of the run it belongs to.\<close>

lemma start_validation_cases:
  "\<exists>s'. sent s' = sent s \<and> flights s' = flights s \<and> isGeneratingIR s' = isGeneratingIR s \<and> isLoading s' \<and>
     ((\<exists>t. start_validation r c q s = (s', Inl t)) \<or>
      within c LLVM_IR_LENGTH_LIMIT \<and> within q LLVM_IR_LENGTH_LIMIT \<and>
      start_validation r c q s = (s'\<lparr>sent := sent s @ [validate_request r c q]\<rparr>, Inr (Some (r\<lparr>waiting := ValResponse\<rparr>))))"
proof (cases "check_limits (''C++ IR'', c, ''generated C++ IR'') (''Rust IR'', q, ''generated Rust IR'') LLVM_IR_LENGTH_LIMIT")
  case (Inl t)
  then show ?thesis by (auto simp: start_validation_def showToast_def Let_def)
next
  case (Inr u)
  then have "within c LLVM_IR_LENGTH_LIMIT \<and> within q LLVM_IR_LENGTH_LIMIT" by (simp only: check_limits_Inr)
  with Inr show ?thesis
    by (intro exI[of _ "showToast ''LLVM IR generated, starting validation...'' InfoToast
          (s\<lparr>cppIR := c, rustIR := q, showIRModal := True, isLoading := True\<rparr>)"])
       (simp add: start_validation_def showToast_def Let_def)
qed

lemma ir_received_cases:
  "(\<exists>s' t. ir_received r ok data s = (s', Inl t) \<and> sent s' = sent s \<and> flights s' = flights s) \<or>
   (\<exists>s' c q. sent s' = sent s \<and> flights s' = flights s \<and> isGeneratingIR s' = isGeneratingIR s \<and> isLoading s' \<and>
      get_field data ''cppIR'' = Inr c \<and> get_field data ''rustIR'' = Inr q \<and>
      within c LLVM_IR_LENGTH_LIMIT \<and> within q LLVM_IR_LENGTH_LIMIT \<and>
      ir_received r ok data s =
        (s'\<lparr>sent := sent s @ [validate_request r c q]\<rparr>, Inr (Some (r\<lparr>waiting := ValResponse\<rparr>))))"
proof (cases "check_response ok data")
  case (Inl t)
  then show ?thesis by (simp add: ir_received_def)
next
  case (Inr u)
  then obtain c q where cq: "get_field data ''cppIR'' = Inr c" "get_field data ''rustIR'' = Inr q"
    by (cases data) (auto simp: check_response_def and_then_Inr split: if_splits)
  with Inr have eq: "ir_received r ok data s = start_validation r c q s" by (simp add: ir_received_def)
  show ?thesis using start_validation_cases[of s r c q] unfolding eq cq by blast
qed

lemma validation_received_cases:
  "\<exists>s'. sent s' = sent s \<and> flights s' = flights s \<and>
     ((\<exists>t. validation_received r ok data s = (s', Inl t)) \<or> validation_received r ok data s = (s', Inr None))"
  by (auto simp: validation_received_def Let_def showToast_def split: sum.splits)

lemma responds_inv:
  assumes "form_inv s" and "enabled s (Responds i x)"
  shows "form_inv (handle (Responds i x) s)"
proof -
  from assms one_flight[of s i] obtain r where r: "flights s = [r]" and i: "i = 0" and w: "awaits_response (waiting r)"
    by (auto simp: form_inv_def)
  show ?thesis
    using assms(1) w unfolding i
    by (cases x; cases "waiting r") (auto simp: r form_inv_def flags_ok_def log_ok_def piece_defs)
qed

lemma parses_inv:
  assumes "form_inv s" and "enabled s (Parses i x)"
  shows "form_inv (handle (Parses i x) s)"
proof -
  from assms one_flight[of s i] obtain r where r: "flights s = [r]" and i: "i = 0" and w: "\<not> awaits_response (waiting r)"
    by (auto simp: form_inv_def)
  have ended: "form_inv (drop_run 0 (finish s'))" if "sent s' = sent s" "flights s' = flights s" for s'
    using assms(1) that by (auto simp: r form_inv_def flags_ok_def log_ok_def piece_defs)
  show ?thesis
  proof (cases x)
    case (Inl t)
    then show ?thesis by (simp add: i ended)
  next
    case (Inr data)
    show ?thesis
    proof (cases "waiting r")
      case (IRJson ok)
      have "form_inv (resume 0 (ir_received r ok data s))"
        using ir_received_cases[of r ok data s]
      proof (elim disjE exE conjE)
        fix s' c q
        assume s': "sent s' = sent s" "flights s' = flights s" "isGeneratingIR s' = isGeneratingIR s" "isLoading s'"
          and c: "within c LLVM_IR_LENGTH_LIMIT" "within q LLVM_IR_LENGTH_LIMIT"
          and eq: "ir_received r ok data s =
            (s'\<lparr>sent := sent s @ [validate_request r c q]\<rparr>, Inr (Some (r\<lparr>waiting := ValResponse\<rparr>)))"
        from assms(1) IRJson have log: "\<forall>i < length (sent s). url (sent s ! i) = ''/api/validate'' \<longrightarrow>
            0 < i \<and> url (sent s ! (i - 1)) = ''/api/generate-ir''"
          and last: "sent s \<noteq> [] \<and> url (last (sent s)) = ''/api/generate-ir''"
          by (auto simp: form_inv_def log_ok_def r)
        show ?thesis
          using assms(1) s' r validate_request_ok[OF c] log_snoc[OF log last]
          unfolding eq by (simp add: form_inv_def flags_ok_def log_ok_def)
      qed (simp add: ended)
      with Inr IRJson r show ?thesis by (simp add: i)
    next
      case (ValJson ok)
      have "form_inv (resume 0 (validation_received r ok data s))"
        using validation_received_cases[of s r ok data] by (auto simp: ended)
      with Inr ValJson r show ?thesis by (simp add: i)
    qed (use w in auto)
  qed
qed

lemma form_inv_step: "form_inv s \<Longrightarrow> form_step s e t \<Longrightarrow> form_inv t"
proof (cases e)
  case Submit
  then show "form_inv s \<Longrightarrow> form_step s e t \<Longrightarrow> form_inv t" using handleSubmit_inv by (simp add: step_simps)
next
  case (Responds i x)
  then show "form_inv s \<Longrightarrow> form_step s e t \<Longrightarrow> form_inv t" using responds_inv by (simp add: step_simps)
next
  case (Parses i x)
  then show "form_inv s \<Longrightarrow> form_step s e t \<Longrightarrow> form_inv t" using parses_inv by (simp add: step_simps)
qed (auto simp: step_simps form_inv_def flags_ok_def log_ok_def)

interpretation form_machine: invariant_machine form_step initial form_inv
  by unfold_locales (rule form_inv_initial, rule form_inv_step)

section \<open>What the user sees of a run\<close>

text \<open>
  C9: the form never has two runs in flight: the submit button is disabled as long as one is, and it
  is enabled again whenever none is and both editors have code. It shows its idle label exactly when no run is in
  flight.
\<close>

theorem one_run_at_a_time:
  assumes "steps form_step initial es s"
  shows "length (flights s) \<le> 1 \<and>
     (submit_disabled s \<longleftrightarrow> flights s \<noteq> [] \<or> cppCode s = [] \<or> rustCode s = []) \<and>
     (submit_label s = ''Validate Translation'' \<longleftrightarrow> flights s = [])"
proof -
  from form_machine.inv_reachable[OF assms] have f: "flags_ok s" by (simp add: form_inv_def)
  then have "isLoading s \<Longrightarrow> isGeneratingIR s" by (cases "flights s") (auto simp: flags_ok_def)
  with f show ?thesis by (auto simp: flags_ok_def submit_disabled_def submit_label_def)
qed

text \<open>An example run: submitted, then the IRs received and their validation started.\<close>

definition generating_example :: form where
  "generating_example = initial\<lparr>cppCode := ''c'', rustCode := ''r'', cppFunctionName := ''f'',
     toast := Some (InfoToast, ''Generating LLVM IR...''), isGeneratingIR := True,
     sent := [\<lparr>url = ''/api/generate-ir'', sent_fields = [(''cppCode'', Str ''c''), (''rustCode'', Str ''r'')]\<rparr>],
     flights := [\<lparr>cpp_name = ''f'', rust_name = '''', waiting = IRJson True\<rparr>]\<rparr>"

definition validating_example :: form where
  "validating_example = generating_example\<lparr>cppIR := Str ''x'', rustIR := Str ''y'', showIRModal := True, isLoading := True,
     toast := Some (InfoToast, ''LLVM IR generated, starting validation...''),
     sent := sent generating_example @
       [validate_request \<lparr>cpp_name = ''f'', rust_name = '''', waiting = IRJson True\<rparr> (Str ''x'') (Str ''y'')],
     flights := [\<lparr>cpp_name = ''f'', rust_name = '''', waiting = ValResponse\<rparr>]\<rparr>"

lemma generating_example_run:
  "steps form_step initial
     [EditCpp ''c'', EditRust ''r'', EditCppName ''f'', Submit, Responds 0 (Inr True)] generating_example"
  by (simp add: steps_Cons_iff step_simps initial_def generating_example_def submit_disabled_def handleSubmit_def
      showToast_def check_limits_def CODE_LENGTH_LIMIT_def json_fields_def)

lemma validation_starts:
  "form_step generating_example
     (Parses 0 (Inr (ObjectBody [(''cppIR'', Str ''x''), (''rustIR'', Str ''y'')]))) validating_example"
  by (simp add: step_simps generating_example_def validating_example_def initial_def ir_received_def check_response_def
      start_validation_def check_limits_def LLVM_IR_LENGTH_LIMIT_def showToast_def)

lemma validating_example_run: "\<exists>es. steps form_step initial es validating_example"
  by (blast intro: steps_append generating_example_run steps_Cons validation_starts steps_Nil)

theorem one_run_at_a_time_witness: "\<exists>es s. steps form_step initial es s \<and> es \<noteq> [] \<and> length (flights s) \<le> 1"
  using one_run_at_a_time[OF generating_example_run] generating_example_run by blast

text \<open>
  The button's label \<open>Validating Translation...\<close> is never shown: \<^verbatim>\<open>isGeneratingIR\<close> stays set until
  the run ends, so while the validation runs the button still says \<open>Generating LLVM IR...\<close>.
\<close>

lemma validating_label_never_shown:
  assumes "steps form_step initial es s"
  shows "submit_label s \<noteq> ''Validating Translation...'' \<and>
     (isLoading s \<longrightarrow> submit_label s = ''Generating LLVM IR...'')"
proof -
  from form_machine.inv_reachable[OF assms] have "flags_ok s" by (simp add: form_inv_def)
  then have "isLoading s \<Longrightarrow> isGeneratingIR s" by (cases "flights s") (auto simp: flags_ok_def)
  then show ?thesis by (auto simp: submit_label_def)
qed

lemma validating_label_never_shown_example:
  "isLoading validating_example \<and> submit_label validating_example = ''Generating LLVM IR...''"
proof -
  obtain es where "steps form_step initial es validating_example" using validating_example_run ..
  from validating_label_never_shown[OF this] show ?thesis
    by (simp add: validating_example_def)
qed

section \<open>What is sent\<close>

text \<open>
  C13: every request the form ever sends is one of two: the code of both editors, non-empty and within
  the length limit, to generate-ir; or the two IRs within theirs, each with a non-empty function name,
  to validate.
\<close>

theorem requests_within_limits:
  assumes "steps form_step initial es s" and "q \<in> set (sent s)"
  shows "request_ok q"
  using form_machine.inv_reachable[OF assms(1)] assms(2) by (simp add: form_inv_def log_ok_def)

theorem requests_within_limits_witness:
  "request_ok \<lparr>url = ''/api/generate-ir'', sent_fields = [(''cppCode'', Str ''c''), (''rustCode'', Str ''r'')]\<rparr>"
  by (rule requests_within_limits[OF generating_example_run]) (simp add: generating_example_def)

text \<open>
  In the log of requests every validate request comes right after a generate-ir request: no
  translation is validated without a generation of its own.
\<close>

lemma validate_follows_generate:
  assumes "steps form_step initial es s" and "i < length (sent s)" and "url (sent s ! i) = ''/api/validate''"
  shows "0 < i \<and> url (sent s ! (i - 1)) = ''/api/generate-ir''"
  using form_machine.inv_reachable[OF assms(1)] assms(2,3) by (simp add: form_inv_def log_ok_def)

lemma validate_follows_generate_example: "url (sent validating_example ! (1 - 1)) = ''/api/generate-ir''"
proof -
  obtain es where "steps form_step initial es validating_example" using validating_example_run ..
  from validate_follows_generate[OF this, of 1] show ?thesis
    by (simp add: validating_example_def generating_example_def validate_request_def)
qed

section \<open>How a run ends\<close>

fun settling :: "form_event \<Rightarrow> bool" where
  "settling (Responds i x) = True"
| "settling (Parses i y) = True"
| "settling _ = False"

lemma user_step_keeps:
  "form_step s e t \<Longrightarrow> \<not> settling e \<Longrightarrow> e \<noteq> Submit \<Longrightarrow> flights t = flights s \<and> sent t = sent s"
  by (cases e) (auto simp: step_simps)

text \<open>The two ways out of a run: an error, or a validation result.\<close>

definition reported :: "form \<Rightarrow> bool" where
  "reported t \<longleftrightarrow>
     (\<exists>m. toast t = Some (ErrorToast, m) \<and> result t = Some (failure_result m)) \<or>
     (\<exists>data v. result t = Some data \<and> get_field data ''success'' = Inr v \<and>
        toast t = Some (if truthy v then (SuccessToast, ''Validation completed successfully!'')
                        else (ErrorToast, ''Validation failed. Check the results for details.'')))"

lemma reported_catch: "reported (drop_run i (finish (catch_error t s)))"
  by (simp add: reported_def piece_defs)

lemma reported_end: "reported s \<Longrightarrow> reported (drop_run i (finish s))"
  by (simp add: reported_def drop_run_def finish_def)

lemma validation_received_reported:
  "validation_received r ok data s = (s', Inr y) \<Longrightarrow> y = None \<and> reported s'"
  by (auto simp: validation_received_def Let_def reported_def showToast_def split: sum.splits if_splits)

text \<open>
  C11: whatever ends a run (a rejected request, a body that is not JSON, an error in it, a value over the
  limit, a validation that passed or failed) leaves both loading flags cleared, a result to show and the
  toast that belongs to it: the success toast exactly for a result that says success, the error's
  message as toast and as verifier output otherwise.
\<close>

theorem run_end_reported:
  assumes "steps form_step initial es s" and "form_step s e t" and "flights s \<noteq> []" and "flights t = []"
  shows "reported t \<and> \<not> isGeneratingIR t \<and> \<not> isLoading t"
proof -
  have inv: "form_inv s" using form_machine.inv_reachable[OF assms(1)] .
  from form_inv_step[OF this assms(2)] assms(4) have flags: "\<not> isGeneratingIR t \<and> \<not> isLoading t"
    by (simp add: form_inv_def flags_ok_def)
  from inv assms(3) obtain r where r: "flights s = [r]" by (cases "flights s") (auto simp: form_inv_def flags_ok_def)
  have "e \<noteq> Submit" using assms(2) inv r by (auto simp: step_simps submit_disabled_def form_inv_def flags_ok_def)
  with user_step_keeps[OF assms(2)] assms(3,4) have "settling e" by auto
  then consider i x where "e = Responds i x" | i y where "e = Parses i y" by (cases e) auto
  then have "reported t"
  proof cases
    case 1
    with assms(2,4) r show ?thesis by (cases x) (auto simp: step_simps reported_catch)
  next
    case 2
    with assms(2) r have t: "t = resume 0 (json_piece r y s)" and w: "\<not> awaits_response (waiting r)"
      by (auto simp: step_simps)
    show ?thesis
    proof (cases y)
      case (Inl z)
      with t show ?thesis by (simp add: reported_catch)
    next
      case (Inr data)
      show ?thesis
      proof (cases "waiting r")
        case (IRJson ok)
        with t Inr assms(4) r ir_received_cases[of r ok data s] show ?thesis by (auto simp: reported_catch)
      next
        case (ValJson ok)
        with t Inr have "t = resume 0 (validation_received r ok data s)" by simp
        then show ?thesis using validation_received_reported[of r ok data s]
          by (cases "validation_received r ok data s"; cases "snd (validation_received r ok data s)")
             (auto simp: reported_catch reported_end)
      qed (use w in auto)
    qed
  qed
  with flags show ?thesis by blast
qed

theorem run_end_reported_witness:
  "reported (handle (Responds 0 (Inl (ErrorObject ''fetch failed''))) validating_example)"
proof -
  obtain es where "steps form_step initial es validating_example" using validating_example_run ..
  moreover have "enabled validating_example (Responds 0 (Inl (ErrorObject ''fetch failed'')))"
    "flights (handle (Responds 0 (Inl (ErrorObject ''fetch failed''))) validating_example) = []"
    by (simp_all add: validating_example_def piece_defs)
  moreover have "flights validating_example \<noteq> []" by (simp add: validating_example_def)
  ultimately show ?thesis using run_end_reported form_step_iff by blast
qed

text \<open>How many answers a run still needs.\<close>

fun answers_left :: "await \<Rightarrow> nat" where
  "answers_left IRResponse = 4"
| "answers_left (IRJson ok) = 3"
| "answers_left ValResponse = 2"
| "answers_left (ValJson ok) = 1"

definition pending :: "form \<Rightarrow> nat" where
  "pending s = sum_list (map (answers_left \<circ> waiting) (flights s))"

lemma pending_drop: "i < length (flights s) \<Longrightarrow> pending (drop_run i s) < pending s"
proof -
  assume i: "i < length (flights s)"
  have "0 < answers_left (waiting (flights s ! i))" by (cases "waiting (flights s ! i)") auto
  moreover have "flights s = take i (flights s) @ flights s ! i # drop (Suc i) (flights s)"
    using i by (rule id_take_nth_drop)
  then have "pending s = sum_list (map (answers_left \<circ> waiting) (take i (flights s) @ flights s ! i # drop (Suc i) (flights s)))"
    unfolding pending_def by (rule arg_cong)
  ultimately show ?thesis by (simp add: pending_def drop_run_def)
qed

lemma pending_update:
  "i < length (flights s) \<Longrightarrow> answers_left (waiting r) < answers_left (waiting (flights s ! i)) \<Longrightarrow>
     pending (s\<lparr>flights := (flights s)[i := r]\<rparr>) < pending s"
proof -
  assume i: "i < length (flights s)" and less: "answers_left (waiting r) < answers_left (waiting (flights s ! i))"
  have "flights s = take i (flights s) @ flights s ! i # drop (Suc i) (flights s)"
    using i by (rule id_take_nth_drop)
  then have "pending s = sum_list (map (answers_left \<circ> waiting) (take i (flights s) @ flights s ! i # drop (Suc i) (flights s)))"
    unfolding pending_def by (rule arg_cong)
  with less i show ?thesis by (simp add: pending_def upd_conv_take_nth_drop)
qed

lemma pending_cong: "flights s' = flights s \<Longrightarrow> pending s' = pending s"
  by (simp add: pending_def)

lemma flights_finish [simp]: "flights (finish s) = flights s"
  by (simp add: finish_def)

lemma resume_pending:
  assumes "i < length (flights s)" and "flights (fst p) = flights s"
    and "\<And>r. snd p = Inr (Some r) \<Longrightarrow> answers_left (waiting r) < answers_left (waiting (flights s ! i))"
  shows "pending (resume i p) < pending s"
proof (cases p)
  case (Pair s' y)
  have drop: "pending (drop_run i s'') < pending s" if "flights s'' = flights s" for s''
    using pending_drop[of i s''] that assms(1) pending_cong[of s'' s] by simp
  have update: "pending (s'\<lparr>flights := (flights s')[i := r]\<rparr>) < pending s" if "y = Inr (Some r)" for r
    using pending_update[of i s' r] assms Pair that pending_cong[of s' s] by simp
  have s': "flights s' = flights s" using assms(2) Pair by simp
  consider t where "y = Inl t" | "y = Inr None" | r where "y = Inr (Some r)"
    by (metis not_None_eq sum.exhaust)
  then show ?thesis
  proof cases
    case 1
    with Pair s' drop show ?thesis by simp
  next
    case 2
    with Pair s' drop show ?thesis by simp
  next
    case 3
    with Pair update show ?thesis by simp
  qed
qed

text \<open>What the parsing of a body does to the runs and to the log.\<close>

lemma json_piece_cases:
  assumes "\<not> awaits_response (waiting r)"
  shows "flights (fst (json_piece r y s)) = flights s \<and>
     (\<exists>qs. sent (fst (json_piece r y s)) = sent s @ qs \<and> (\<forall>q \<in> set qs. \<exists>a b. q = validate_request r a b)) \<and>
     (\<forall>r'. snd (json_piece r y s) = Inr (Some r') \<longrightarrow>
        (\<exists>ok. waiting r = IRJson ok) \<and> r' = r\<lparr>waiting := ValResponse\<rparr>)"
proof (cases y)
  case (Inr data)
  show ?thesis
  proof (cases "waiting r")
    case (IRJson ok)
    from ir_received_cases[of r ok data s] show ?thesis unfolding Inr
      by (elim disjE exE conjE) (simp_all add: IRJson, blast)
  next
    case (ValJson ok)
    with Inr validation_received_cases[of s r ok data] show ?thesis by auto
  qed (use assms in auto)
qed simp

lemma settle_pending:
  assumes "form_step s e t" and "settling e"
  shows "pending t < pending s"
proof -
  consider i x where "e = Responds i x" | i y where "e = Parses i y" using assms(2) by (cases e) auto
  then show ?thesis
  proof cases
    case 1
    with assms(1) have i: "i < length (flights s)" and w: "awaits_response (waiting (flights s ! i))"
      and t: "t = resume i (response_piece (flights s ! i) x s)" by (auto simp: step_simps)
    show ?thesis unfolding t using i w
      by (intro resume_pending; cases x; cases "waiting (flights s ! i)") auto
  next
    case 2
    with assms(1) have i: "i < length (flights s)" and w: "\<not> awaits_response (waiting (flights s ! i))"
      and t: "t = resume i (json_piece (flights s ! i) y s)" by (auto simp: step_simps)
    show ?thesis unfolding t
    proof (rule resume_pending[OF i])
      show "flights (fst (json_piece (flights s ! i) y s)) = flights s" using json_piece_cases[OF w] by blast
      show "answers_left (waiting r) < answers_left (waiting (flights s ! i))"
        if "snd (json_piece (flights s ! i) y s) = Inr (Some r)" for r
        using json_piece_cases[OF w, of y s] that by auto
    qed
  qed
qed

text \<open>
  C10: every run ends. From a reachable state, the answers of the network that can follow one another
  number at most four, whatever they are; and as long as a run is in flight its next answer, whatever it
  is, can be taken. So once the network has answered, the form is idle.
\<close>

theorem every_run_ends:
  assumes "steps form_step initial es s" and "steps form_step s fs t" and "\<forall>e \<in> set fs. settling e"
  shows "length fs \<le> 4 \<and>
     (flights t \<noteq> [] \<longrightarrow> (\<forall>x. form_step t (Responds 0 x) (handle (Responds 0 x) t)) \<or>
                        (\<forall>y. form_step t (Parses 0 y) (handle (Parses 0 y) t)))"
proof -
  from assms(2,3) have "length fs + pending t \<le> pending s"
    by (induction rule: steps.induct) (fastforce dest: settle_pending)+
  moreover have "pending s \<le> 4"
  proof -
    from form_machine.inv_reachable[OF assms(1)] have "flights s = [] \<or> (\<exists>r. flights s = [r])"
      by (cases "flights s") (auto simp: form_inv_def flags_ok_def)
    moreover have "answers_left a \<le> 4" for a by (cases a) auto
    ultimately show ?thesis by (auto simp: pending_def)
  qed
  ultimately show ?thesis by (auto simp: form_step_iff simp del: handle.simps)
qed

theorem every_run_ends_witness:
  "form_step generating_example (Parses 0 (Inl OtherThrown)) (handle (Parses 0 (Inl OtherThrown)) generating_example)"
proof -
  from every_run_ends[OF generating_example_run steps_Nil] show ?thesis
    by (simp add: generating_example_def form_step_iff)
qed

section \<open>What a run depends on\<close>

definition belongs :: "form \<Rightarrow> nat \<Rightarrow> form \<Rightarrow> bool" where
  "belongs s n t \<longleftrightarrow>
     (\<forall>r \<in> set (flights t). cpp_name r = cppFunctionName s \<and> rust_name r = rustFunctionName s) \<and>
     (\<forall>q \<in> set (drop n (sent t)). url q = ''/api/validate'' \<longrightarrow>
        field_of (sent_fields q) ''cppFunctionName'' = Str (name_or_empty (cppFunctionName s)) \<and>
        field_of (sent_fields q) ''rustFunctionName'' = Str (name_or_empty (rustFunctionName s))) \<and>
     n \<le> length (sent t)"

lemma validate_request_names:
  "field_of (sent_fields (validate_request r a b)) ''cppFunctionName'' = Str (name_or_empty (cpp_name r))"
  "field_of (sent_fields (validate_request r a b)) ''rustFunctionName'' = Str (name_or_empty (rust_name r))"
  by (simp_all add: validate_request_def del: field_of.simps, simp_all)

lemma belongs_resume:
  assumes "belongs s n u" and "i < length (flights u)"
    and "flights (fst p) = flights u"
    and "sent (fst p) = sent u @ qs" and "\<forall>q \<in> set qs. \<exists>a b. q = validate_request (flights u ! i) a b"
    and "\<And>r. snd p = Inr (Some r) \<Longrightarrow> cpp_name r = cpp_name (flights u ! i) \<and> rust_name r = rust_name (flights u ! i)"
  shows "belongs s n (resume i p)"
proof -
  have sub: "set (take i (flights u)) \<union> set (drop (Suc i) (flights u)) \<subseteq> set (flights u)"
    using set_take_subset set_drop_subset by fast
  from assms(1,2) have r: "cpp_name (flights u ! i) = cppFunctionName s" "rust_name (flights u ! i) = rustFunctionName s"
    by (simp_all add: belongs_def)
  have keep: "belongs s n t" if f: "flights t = flights u \<or> (\<exists>r. flights t = (flights u)[i := r] \<and> snd p = Inr (Some r)) \<or>
       flights t = take i (flights u) @ drop (Suc i) (flights u)" and q: "sent t = sent u @ qs" for t
  proof -
    have old: "\<forall>r \<in> set (flights u). cpp_name r = cppFunctionName s \<and> rust_name r = rustFunctionName s"
      using assms(1) by (simp add: belongs_def)
    from f have "\<forall>r \<in> set (flights t). r \<in> set (flights u) \<or> snd p = Inr (Some r)"
      using sub set_update_subset_insert[of "flights u" i] by (fastforce dest: subsetD)
    with old r assms(6) have "\<forall>r \<in> set (flights t). cpp_name r = cppFunctionName s \<and> rust_name r = rustFunctionName s" by metis
    moreover have "n \<le> length (sent u)" using assms(1) by (simp add: belongs_def)
    moreover have "\<forall>q \<in> set qs. field_of (sent_fields q) ''cppFunctionName'' = Str (name_or_empty (cppFunctionName s)) \<and>
        field_of (sent_fields q) ''rustFunctionName'' = Str (name_or_empty (rustFunctionName s))"
      using assms(5) r validate_request_names by metis
    ultimately show ?thesis using assms(1) q unfolding belongs_def by auto
  qed
  obtain s' y where p: "p = (s', y)" by (cases p)
  consider t where "y = Inl t" | "y = Inr None" | r where "y = Inr (Some r)"
    by (metis not_None_eq sum.exhaust)
  then show ?thesis
  proof cases
    case 3
    with p assms(3,4) keep[of "resume i p"] show ?thesis by simp
  qed (use p assms(3,4) keep[of "resume i p"] in \<open>auto simp: drop_run_def finish_def\<close>)
qed

lemma belongs_step:
  assumes "belongs s n u" and "e \<noteq> Submit" and "form_step u e t"
  shows "belongs s n t"
proof (cases "settling e")
  case False
  with assms user_step_keeps show ?thesis by (simp add: belongs_def)
next
  case True
  then consider i x where "e = Responds i x" | i y where "e = Parses i y" by (cases e) auto
  then show ?thesis
  proof cases
    case 1
    with assms(1,3) show ?thesis
      by (cases x) (auto simp: form_step_iff intro!: belongs_resume[where qs = "[]" and u = u] simp del: resume.simps)
  next
    case 2
    with assms(3) have i: "i < length (flights u)" and w: "\<not> awaits_response (waiting (flights u ! i))"
      and t: "t = resume i (json_piece (flights u ! i) y u)" by (auto simp: form_step_iff)
    from json_piece_cases[OF w, of y u] obtain qs where
      "sent (fst (json_piece (flights u ! i) y u)) = sent u @ qs" "\<forall>q \<in> set qs. \<exists>a b. q = validate_request (flights u ! i) a b" by blast
    with json_piece_cases[OF w, of y u] show ?thesis unfolding t
      by (intro belongs_resume[OF assms(1) i]) auto
  qed
qed

text \<open>
  C14: what the user changes during a run does not reach it: until the next submit, every validate
  request carries the function names the form held when the run was submitted, with \<open>EMPTY\<close> for a name
  left empty, whatever was edited, cleared or selected meanwhile.
\<close>

theorem names_as_submitted:
  assumes "steps form_step initial ds s" and "form_step s Submit s'" and "steps form_step s' es t"
    and "Submit \<notin> set es" and "q \<in> set (drop (length (sent s)) (sent t))" and "url q = ''/api/validate''"
  shows "field_of (sent_fields q) ''cppFunctionName'' = Str (name_or_empty (cppFunctionName s)) \<and>
         field_of (sent_fields q) ''rustFunctionName'' = Str (name_or_empty (rustFunctionName s))"
proof -
  from form_machine.inv_reachable[OF assms(1)] assms(2) have "flights s = []"
    by (auto simp: form_step_iff submit_disabled_def form_inv_def flags_ok_def)
  with assms(2) have "belongs s (length (sent s)) s'"
    by (auto simp: belongs_def form_step_iff handleSubmit_def Let_def showToast_def finish_def catch_error_def
        split: sum.splits)
  moreover have "\<forall>e \<in> set es. e \<noteq> Submit" using assms(4) by metis
  ultimately have "belongs s (length (sent s)) t"
    using steps_preserve[where P = "belongs s (length (sent s))" and Q = "\<lambda>e. e \<noteq> Submit", OF _ assms(3)] belongs_step
    by blast
  with assms(5,6) show ?thesis by (simp add: belongs_def)
qed

text \<open>
  Clear All does not cancel a run. Whatever the user does while a run waits for its validation's
  body, the run stays as it was, and a valid body is shown as the result, over editors that may by then
  be empty.
\<close>

lemma clear_all_does_not_cancel:
  assumes "flights s = [r]" and "waiting r = ValJson ok" and "steps form_step s es s'"
    and "\<forall>e \<in> set es. \<not> settling e \<and> e \<noteq> Submit" and "check_response ok data = Inr ()"
  shows "\<exists>t. steps form_step s' [Parses 0 (Inr data)] t \<and> result t = Some data \<and>
           cppCode t = cppCode s' \<and> rustCode t = rustCode s'"
proof -
  have "flights s' = [r]"
    using steps_preserve[where P = "\<lambda>s. flights s = [r]" and Q = "\<lambda>e. \<not> settling e \<and> e \<noteq> Submit", OF _ assms(3,4)]
      user_step_keeps assms(1) by metis
  moreover obtain v where "get_field data ''success'' = Inr v"
    using assms(5) by (cases data) (auto simp: check_response_def and_then_Inr split: if_splits)
  ultimately show ?thesis
    using assms(2,5) by (simp add: steps_Cons_iff form_step_iff validation_received_def Let_def piece_defs)
qed

text \<open>The example run from its submit on.\<close>

definition edited_example :: form where
  "edited_example = initial\<lparr>cppCode := ''c'', rustCode := ''r'', cppFunctionName := ''f''\<rparr>"

lemma edited_example_run: "steps form_step initial [EditCpp ''c'', EditRust ''r'', EditCppName ''f''] edited_example"
  by (simp add: steps_Cons_iff form_step_iff edited_example_def)

lemma generating_from_edited:
  "steps form_step (handleSubmit edited_example) [Responds 0 (Inr True)] generating_example"
  by (simp add: steps_Cons_iff form_step_iff initial_def edited_example_def generating_example_def handleSubmit_def
      showToast_def check_limits_def CODE_LENGTH_LIMIT_def json_fields_def)

lemma renamed_example_run:
  "steps form_step (handleSubmit edited_example)
     [Responds 0 (Inr True), Parses 0 (Inr (ObjectBody [(''cppIR'', Str ''x''), (''rustIR'', Str ''y'')])),
      EditCppName ''g'']
     (validating_example\<lparr>cppFunctionName := ''g''\<rparr>)"
proof -
  have "steps form_step validating_example [EditCppName ''g''] (validating_example\<lparr>cppFunctionName := ''g''\<rparr>)"
    by (simp add: steps_Cons_iff form_step_iff)
  with validation_starts have "steps form_step generating_example
      [Parses 0 (Inr (ObjectBody [(''cppIR'', Str ''x''), (''rustIR'', Str ''y'')])), EditCppName ''g'']
      (validating_example\<lparr>cppFunctionName := ''g''\<rparr>)"
    by (rule steps_Cons)
  from steps_append[OF generating_from_edited this] show ?thesis by simp
qed

theorem names_as_submitted_witness:
  "field_of (sent_fields (last (sent (validating_example\<lparr>cppFunctionName := ''g''\<rparr>)))) ''cppFunctionName'' = Str ''f''"
proof -
  have submit: "form_step edited_example Submit (handleSubmit edited_example)"
    by (simp add: form_step_iff edited_example_def submit_disabled_def initial_def)
  have "field_of (sent_fields (last (sent (validating_example\<lparr>cppFunctionName := ''g''\<rparr>)))) ''cppFunctionName''
      = Str (name_or_empty (cppFunctionName edited_example)) \<and>
    field_of (sent_fields (last (sent (validating_example\<lparr>cppFunctionName := ''g''\<rparr>)))) ''rustFunctionName''
      = Str (name_or_empty (rustFunctionName edited_example))"
    by (rule names_as_submitted[OF edited_example_run submit renamed_example_run])
       (simp_all add: edited_example_def initial_def validating_example_def generating_example_def validate_request_def
          del: field_of.simps)
  then show ?thesis by (simp add: edited_example_def name_or_empty_def del: field_of.simps)
qed

definition last_answer_example :: form where
  "last_answer_example = initial\<lparr>cppCode := ''c'', rustCode := ''r'', isGeneratingIR := True, isLoading := True,
     flights := [\<lparr>cpp_name = ''f'', rust_name = '''', waiting = ValJson True\<rparr>]\<rparr>"

lemma clear_all_does_not_cancel_example:
  "\<exists>t. steps form_step (handle ClearAll last_answer_example) [Parses 0 (Inr (ObjectBody [(''success'', Bool True)]))] t \<and>
     result t = Some (ObjectBody [(''success'', Bool True)]) \<and> cppCode t = ''''"
proof -
  have run: "steps form_step last_answer_example [ClearAll] (handle ClearAll last_answer_example)"
    by (simp add: steps_Cons_iff form_step_iff last_answer_example_def clear_disabled_def)
  from clear_all_does_not_cancel[OF _ _ run, where data = "ObjectBody [(''success'', Bool True)]" and ok = True]
  have "\<exists>t. steps form_step (handle ClearAll last_answer_example) [Parses 0 (Inr (ObjectBody [(''success'', Bool True)]))] t \<and>
     result t = Some (ObjectBody [(''success'', Bool True)]) \<and> cppCode t = cppCode (handle ClearAll last_answer_example) \<and>
     rustCode t = rustCode (handle ClearAll last_answer_example)"
    by (simp add: last_answer_example_def check_response_def)
  moreover have "cppCode (handle ClearAll last_answer_example) = ''''" by simp
  ultimately show ?thesis by metis
qed

text \<open>
  Code over the limit is never sent: submitting it, in either editor, sends no request and ends at once, and
  the toast and the result carry the limit's message for the first editor that is over it.
\<close>

lemma long_code_rejected:
  assumes "form_step s Submit t" and "CODE_LENGTH_LIMIT < length (cppCode s) \<or> CODE_LENGTH_LIMIT < length (rustCode s)"
  shows "sent t = sent s \<and> flights t = flights s \<and> \<not> isGeneratingIR t \<and>
     (let m = (if CODE_LENGTH_LIMIT < length (cppCode s) then limit_message ''C++ code'' ''C++ code'' CODE_LENGTH_LIMIT
               else limit_message ''Rust code'' ''Rust code'' CODE_LENGTH_LIMIT)
      in toast t = Some (ErrorToast, m) \<and> result t = Some (failure_result m))"
  using assms by (auto simp: form_step_iff submit_disabled_def handleSubmit_def Let_def check_limits_def
      finish_def catch_error_def showToast_def)

lemma long_code_rejected_example:
  "let t = handleSubmit (initial\<lparr>cppCode := replicate 10001 (CHR ''x''), rustCode := ''r''\<rparr>)
   in sent t = [] \<and> toast t = Some (ErrorToast, limit_message ''C++ code'' ''C++ code'' CODE_LENGTH_LIMIT)"
proof -
  let ?s = "initial\<lparr>cppCode := replicate 10001 (CHR ''x''), rustCode := ''r''\<rparr>"
  have "form_step ?s Submit (handleSubmit ?s)"
    by (simp add: form_step_iff submit_disabled_def initial_def)
  from long_code_rejected[OF this] show ?thesis
    by (simp add: CODE_LENGTH_LIMIT_def Let_def) (simp add: initial_def)
qed

end
