(* ===== verification/JsRegExp.thy ===== *)
theory JsRegExp
  imports Prelude
begin

text \<open>
  The part of ECMAScript's regular expressions that the sources use: character classes,
  sequence, ordered choice, greedy and lazy repetition, capturing groups, lookahead and the assertions
  \<^verbatim>\<open>^\<close> and \<^verbatim>\<open>$\<close> (\<open>LineStart\<close> and \<open>LineEnd\<close> under the multiline flag) and \<^verbatim>\<open>\b\<close>. \<open>matches\<close> lists the ways
  to match in the order a backtracking matcher finds them, so that its head is the match of
  \<^verbatim>\<open>exec\<close>; \<open>search_from\<close> is the scan of an expression without the sticky flag, and
  \<open>split_keep\<close> is \<^verbatim>\<open>s.split(/(r)/)\<close>. \<open>rmatch\<close> states declaratively what a match is, and the
  matcher is proved sound and complete for it.
\<close>

section \<open>Expressions and the backtracking matcher\<close>

datatype regex =
    Eps
  | Class "char \<Rightarrow> bool"
  | Seq regex regex
  | Alt regex regex
  | Star regex
  | Group nat regex
  | AtStart
  | AtEnd
  | LineStart
  | LineEnd
  | WordBoundary
  | Lazy regex
  | Ahead regex

text \<open>
  A cursor: the characters before it, nearest first, the characters after it, and the groups
  captured so far, the latest first.
\<close>

type_synonym captures = "(nat \<times> string) list"
type_synonym cursor = "string \<times> string \<times> captures"

abbreviation rest :: "cursor \<Rightarrow> string" where
  "rest st \<equiv> fst (snd st)"

definition first_is_word :: "string \<Rightarrow> bool" where
  "first_is_word s = (case s of [] \<Rightarrow> False | c # _ \<Rightarrow> is_word c)"

definition line_edge :: "string \<Rightarrow> bool" where
  "line_edge s = (case s of [] \<Rightarrow> True | c # _ \<Rightarrow> code_of c \<in> {10, 13})"

function matches :: "regex \<Rightarrow> cursor \<Rightarrow> cursor list" where
  "matches Eps st = [st]"
| "matches (Class p) st =
     (case rest st of [] \<Rightarrow> []
      | c # cs \<Rightarrow> if p c then [(c # fst st, cs, snd (snd st))] else [])"
| "matches (Seq a b) st = concat (map (matches b) (matches a st))"
| "matches (Alt a b) st = matches a st @ matches b st"
| "matches (Star a) st =
     concat (map (\<lambda>st'. if length (rest st') < length (rest st) then matches (Star a) st' else [])
       (matches a st)) @ [st]"
| "matches (Group n a) st =
     map (\<lambda>(l, s, g). (l, s, (n, take (length (rest st) - length s) (rest st)) # g)) (matches a st)"
| "matches AtStart st = (if fst st = [] then [st] else [])"
| "matches AtEnd st = (if rest st = [] then [st] else [])"
| "matches LineStart st = (if line_edge (fst st) then [st] else [])"
| "matches LineEnd st = (if line_edge (rest st) then [st] else [])"
| "matches WordBoundary st =
     (if first_is_word (fst st) \<noteq> first_is_word (rest st) then [st] else [])"
| "matches (Lazy a) st =
     st # concat (map (\<lambda>st'. if length (rest st') < length (rest st) then matches (Lazy a) st' else [])
       (matches a st))"
| "matches (Ahead a) st =
     (case matches a st of [] \<Rightarrow> [] | st' # ms \<Rightarrow> [(fst st, rest st, snd (snd st'))])"
  by pat_completeness auto
termination
  by (relation "inv_image (less_than <*lex*> less_than) (\<lambda>(r, st). (size r, length (rest st)))") auto

declare matches.simps(5,12) [simp del]

text \<open>Derived forms: \<^verbatim>\<open>r?\<close>, \<^verbatim>\<open>r+\<close>, a literal string, an alternation of literals.\<close>

definition Opt :: "regex \<Rightarrow> regex" where
  "Opt r = Alt r Eps"

definition Plus :: "regex \<Rightarrow> regex" where
  "Plus r = Seq r (Star r)"

fun Lit :: "string \<Rightarrow> regex" where
  "Lit [] = Eps"
| "Lit [c] = Class (\<lambda>d. d = c)"
| "Lit (c # d # s) = Seq (Class (\<lambda>e. e = c)) (Lit (d # s))"

fun Words :: "string list \<Rightarrow> regex" where
  "Words [] = Class (\<lambda>_. False)"
| "Words [w] = Lit w"
| "Words (w # v # ws) = Alt (Lit w) (Words (v # ws))"

text \<open>\<^verbatim>\<open>r+?\<close>: as few as possible, but one.\<close>

definition LazyPlus :: "regex \<Rightarrow> regex" where
  "LazyPlus r = Seq r (Lazy r)"

text \<open>
  The match at a given position, and the leftmost match from a position on: the text skipped, the
  text matched, the captures and the text after the match.
\<close>

definition match_here :: "regex \<Rightarrow> string \<Rightarrow> string \<Rightarrow> (string \<times> captures \<times> string) option" where
  "match_here r l s =
     (case matches r (l, s, []) of [] \<Rightarrow> None
      | (l', s', g) # _ \<Rightarrow> Some (take (length s - length s') s, g, s'))"

fun search_from :: "regex \<Rightarrow> string \<Rightarrow> string \<Rightarrow> (string \<times> string \<times> captures \<times> string) option" where
  "search_from r l [] =
     (case match_here r l [] of None \<Rightarrow> None | Some (m, g, s') \<Rightarrow> Some (rev l, m, g, s'))"
| "search_from r l (c # s) =
     (case match_here r l (c # s) of
        Some (m, g, s') \<Rightarrow> Some (rev l, m, g, s')
      | None \<Rightarrow> search_from r (c # l) s)"

definition search :: "regex \<Rightarrow> string \<Rightarrow> (string \<times> string \<times> captures \<times> string) option" where
  "search r s = search_from r [] s"

definition regex_test :: "regex \<Rightarrow> string \<Rightarrow> bool" where
  "regex_test r s \<longleftrightarrow> search r s \<noteq> None"

text \<open>\<^verbatim>\<open>s.match(r)?.[n]\<close>: the text of group \<open>n\<close> of the leftmost match.\<close>

definition match_group :: "regex \<Rightarrow> nat \<Rightarrow> string \<Rightarrow> string option" where
  "match_group r n s = (case search r s of None \<Rightarrow> None | Some (_, _, g, _) \<Rightarrow> map_of g n)"

text \<open>
  \<^verbatim>\<open>s.split(/(r)/)\<close>: unmatched text and matched text alternate, starting and ending with unmatched
  text. \<open>acc\<close> is the unmatched text since the last match; an empty match right after a match is
  skipped, as in the standard.
\<close>

function split_keep_from :: "regex \<Rightarrow> string \<Rightarrow> string \<Rightarrow> string \<Rightarrow> string list" where
  "split_keep_from r acc l [] = [acc]"
| "split_keep_from r acc l (c # s) =
     (case match_here r l (c # s) of
        Some (m, g, s') \<Rightarrow>
          if m \<noteq> [] \<and> length s' \<le> length s
          then acc # m # split_keep_from r [] (rev m @ l) s'
          else if acc \<noteq> [] then acc # m # split_keep_from r [] l (c # s)
          else split_keep_from r (acc @ [c]) (c # l) s
      | None \<Rightarrow> split_keep_from r (acc @ [c]) (c # l) s)"
  by pat_completeness auto
termination
  by (relation "inv_image (less_than <*lex*> less_than)
       (\<lambda>(r, acc, l, s). (length s, if acc = [] then 0 else 1))") auto

definition split_keep :: "regex \<Rightarrow> string \<Rightarrow> string list" where
  "split_keep r s =
     (if s = [] then (if match_here r [] [] = None then [[]] else []) else split_keep_from r [] [] s)"

section \<open>What a match is\<close>

inductive rmatch :: "regex \<Rightarrow> string \<Rightarrow> string \<Rightarrow> string \<Rightarrow> bool"
  \<comment> \<open>\<open>rmatch r l w s\<close>: after \<open>l\<close> (nearest first) and before \<open>s\<close>, the text \<open>w\<close> matches \<open>r\<close>\<close>
  where
  rm_Eps: "rmatch Eps l [] s"
| rm_Class: "p c \<Longrightarrow> rmatch (Class p) l [c] s"
| rm_Seq: "rmatch a l v (w @ s) \<Longrightarrow> rmatch b (rev v @ l) w s \<Longrightarrow> rmatch (Seq a b) l (v @ w) s"
| rm_Alt1: "rmatch a l w s \<Longrightarrow> rmatch (Alt a b) l w s"
| rm_Alt2: "rmatch b l w s \<Longrightarrow> rmatch (Alt a b) l w s"
| rm_Star0: "rmatch (Star a) l [] s"
| rm_Star1: "rmatch a l v (w @ s) \<Longrightarrow> rmatch (Star a) (rev v @ l) w s \<Longrightarrow> rmatch (Star a) l (v @ w) s"
| rm_Group: "rmatch a l w s \<Longrightarrow> rmatch (Group n a) l w s"
| rm_AtStart: "rmatch AtStart [] [] s"
| rm_AtEnd: "rmatch AtEnd l [] []"
| rm_LineStart: "line_edge l \<Longrightarrow> rmatch LineStart l [] s"
| rm_LineEnd: "line_edge s \<Longrightarrow> rmatch LineEnd l [] s"
| rm_WordBoundary: "first_is_word l \<noteq> first_is_word s \<Longrightarrow> rmatch WordBoundary l [] s"
| rm_Lazy0: "rmatch (Lazy a) l [] s"
| rm_Lazy1: "rmatch a l v (w @ s) \<Longrightarrow> rmatch (Lazy a) (rev v @ l) w s \<Longrightarrow> rmatch (Lazy a) l (v @ w) s"
| rm_Ahead: "rmatch a l v s \<Longrightarrow> rmatch (Ahead a) l [] (v @ s)"

inductive_cases rm_EpsE [elim!]: "rmatch Eps l w s"
inductive_cases rm_ClassE [elim!]: "rmatch (Class p) l w s"
inductive_cases rm_SeqE [elim!]: "rmatch (Seq a b) l w s"
inductive_cases rm_AltE [elim!]: "rmatch (Alt a b) l w s"
inductive_cases rm_GroupE [elim!]: "rmatch (Group n a) l w s"
inductive_cases rm_AtStartE [elim!]: "rmatch AtStart l w s"
inductive_cases rm_AtEndE [elim!]: "rmatch AtEnd l w s"
inductive_cases rm_LineStartE [elim!]: "rmatch LineStart l w s"
inductive_cases rm_LineEndE [elim!]: "rmatch LineEnd l w s"
inductive_cases rm_WordBoundaryE [elim!]: "rmatch WordBoundary l w s"
inductive_cases rm_AheadE [elim!]: "rmatch (Ahead a) l w s"

lemma matches_sound:
  "(l', s', g') \<in> set (matches r (l, s, g)) \<Longrightarrow> \<exists>w. s = w @ s' \<and> l' = rev w @ l \<and> rmatch r l w s'"
proof (induction r "(l, s, g)" arbitrary: l s g l' s' g' rule: matches.induct)
  case (2 p)
  then show ?case by (auto intro: rm_Class split: list.splits if_splits)
next
  case (3 a b)
  from "3.prems" obtain l1 s1 g1 where a: "(l1, s1, g1) \<in> set (matches a (l, s, g))"
    and b: "(l', s', g') \<in> set (matches b (l1, s1, g1))" by auto
  from 3(1)[OF a] obtain v where v: "s = v @ s1" "l1 = rev v @ l" "rmatch a l v s1" by blast
  from 3(2)[OF a b] obtain w where "s1 = w @ s'" "l' = rev w @ l1" "rmatch b l1 w s'" by blast
  with v show ?case by (intro exI[of _ "v @ w"]) (auto intro: rm_Seq)
next
  case (4 a b)
  then show ?case by simp (metis rm_Alt1 rm_Alt2)
next
  case (5 a)
  show ?case
  proof (cases "(l', s', g') = (l, s, g)")
    case True
    then show ?thesis by (auto intro: rm_Star0)
  next
    case False
    with "5.prems" obtain l1 s1 g1 where a: "(l1, s1, g1) \<in> set (matches a (l, s, g))"
      and len: "length s1 < length s"
      and b: "(l', s', g') \<in> set (matches (Star a) (l1, s1, g1))"
      by (subst (asm) matches.simps(5)) (auto split: if_splits)
    from 5(1)[OF a] obtain v where v: "s = v @ s1" "l1 = rev v @ l" "rmatch a l v s1" by blast
    from 5(2)[OF a _ b] len obtain w where
      "s1 = w @ s'" "l' = rev w @ l1" "rmatch (Star a) l1 w s'" by auto
    with v show ?thesis by (intro exI[of _ "v @ w"]) (auto intro: rm_Star1)
  qed
next
  case (6 n a)
  then show ?case by (force intro: rm_Group)
next
  case (12 a)
  show ?case
  proof (cases "(l', s', g') = (l, s, g)")
    case True
    then show ?thesis by (auto intro: rm_Lazy0)
  next
    case False
    with "12.prems" obtain l1 s1 g1 where a: "(l1, s1, g1) \<in> set (matches a (l, s, g))"
      and len: "length s1 < length s"
      and b: "(l', s', g') \<in> set (matches (Lazy a) (l1, s1, g1))"
      by (subst (asm) matches.simps(12)) (auto split: if_splits)
    from 12(1)[OF a] obtain v where v: "s = v @ s1" "l1 = rev v @ l" "rmatch a l v s1" by blast
    from 12(2)[OF a _ b] len obtain w where
      "s1 = w @ s'" "l' = rev w @ l1" "rmatch (Lazy a) l1 w s'" by auto
    with v show ?thesis by (intro exI[of _ "v @ w"]) (auto intro: rm_Lazy1)
  qed
next
  case (13 a)
  from "13.prems" obtain l1 s1 ms where m: "matches a (l, s, g) = (l1, s1, g') # ms" and st: "l' = l" "s' = s"
    by (cases "matches a (l, s, g)") auto
  then have "(l1, s1, g') \<in> set (matches a (l, s, g))" by simp
  from 13(1)[OF this] obtain v where "s = v @ s1" "rmatch a l v s1" by blast
  with st show ?case by (auto intro: rm_Ahead)
qed (auto intro: rmatch.intros split: if_splits)

lemma matches_complete: "rmatch r l w s \<Longrightarrow> \<exists>g'. (rev w @ l, s, g') \<in> set (matches r (l, w @ s, g))"
proof (induction arbitrary: g rule: rmatch.induct)
  case (rm_Seq a l v w s b)
  from rm_Seq.IH(1) obtain g1 where "(rev v @ l, w @ s, g1) \<in> set (matches a (l, v @ w @ s, g))" by blast
  moreover from rm_Seq.IH(2) obtain g2 where
    "(rev w @ rev v @ l, s, g2) \<in> set (matches b (rev v @ l, w @ s, g1))" by blast
  ultimately show ?case by force
next
  case (rm_Star0 a l s)
  then show ?case by (subst matches.simps(5)) auto
next
  case (rm_Star1 a l v w s)
  show ?case
  proof (cases "v = []")
    case True
    with rm_Star1.IH(2) show ?thesis by simp
  next
    case False
    from rm_Star1.IH(1) obtain g1 where a: "(rev v @ l, w @ s, g1) \<in> set (matches a (l, v @ w @ s, g))" by blast
    from rm_Star1.IH(2) obtain g2 where
      b: "(rev w @ rev v @ l, s, g2) \<in> set (matches (Star a) (rev v @ l, w @ s, g1))" by blast
    from False have "length (w @ s) < length (v @ w @ s)" by simp
    with a b show ?thesis by (subst matches.simps(5)) (force intro: exI[of _ g2])
  qed
next
  case (rm_Group a l w s n)
  from rm_Group.IH obtain g' where "(rev w @ l, s, g') \<in> set (matches a (l, w @ s, g))" by blast
  then show ?case by (force simp: image_iff)
next
  case (rm_Alt1 a l w s b)
  from rm_Alt1.IH obtain g' where "(rev w @ l, s, g') \<in> set (matches a (l, w @ s, g))" by blast
  then show ?case by auto
next
  case (rm_Alt2 b l w s a)
  from rm_Alt2.IH obtain g' where "(rev w @ l, s, g') \<in> set (matches b (l, w @ s, g))" by blast
  then show ?case by auto
next
  case (rm_Lazy0 a l s)
  then show ?case by (subst matches.simps(12)) auto
next
  case (rm_Lazy1 a l v w s)
  show ?case
  proof (cases "v = []")
    case True
    with rm_Lazy1.IH(2) show ?thesis by simp
  next
    case False
    from rm_Lazy1.IH(1) obtain g1 where a: "(rev v @ l, w @ s, g1) \<in> set (matches a (l, v @ w @ s, g))" by blast
    from rm_Lazy1.IH(2) obtain g2 where
      b: "(rev w @ rev v @ l, s, g2) \<in> set (matches (Lazy a) (rev v @ l, w @ s, g1))" by blast
    from False have "length (w @ s) < length (v @ w @ s)" by simp
    with a b show ?thesis by (subst matches.simps(12)) (force intro: exI[of _ g2])
  qed
next
  case (rm_Ahead a l v s)
  from rm_Ahead.IH[of g] have "matches a (l, v @ s, g) \<noteq> []" by auto
  then show ?case by (auto simp: neq_Nil_conv)
qed simp_all

lemma matches_iff_rmatch:
  "(\<exists>g'. (rev w @ l, s, g') \<in> set (matches r (l, w @ s, g))) \<longleftrightarrow> rmatch r l w s"
proof
  assume "\<exists>g'. (rev w @ l, s, g') \<in> set (matches r (l, w @ s, g))"
  then obtain g' where "(rev w @ l, s, g') \<in> set (matches r (l, w @ s, g))" ..
  from matches_sound[OF this] show "rmatch r l w s" by auto
qed (rule matches_complete)

section \<open>Matching at a position, searching, splitting\<close>

lemma match_here_Some:
  assumes "match_here r l s = Some (m, g, s')"
  shows "s = m @ s' \<and> rmatch r l m s'"
proof -
  from assms obtain l' ms where ms: "matches r (l, s, []) = (l', s', g) # ms"
    and m: "m = take (length s - length s') s"
    by (auto simp: match_here_def split: list.splits)
  then have "(l', s', g) \<in> set (matches r (l, s, []))" by simp
  from matches_sound[OF this] m show ?thesis by auto
qed

lemma match_here_None:
  "match_here r l s = None \<longleftrightarrow> (\<forall>w s'. s = w @ s' \<longrightarrow> \<not> rmatch r l w s')"
proof
  assume "match_here r l s = None"
  then have "matches r (l, s, []) = []" by (auto simp: match_here_def split: list.splits)
  then show "\<forall>w s'. s = w @ s' \<longrightarrow> \<not> rmatch r l w s'"
    using matches_complete[of r l _ _ "[]"] by fastforce
next
  assume no: "\<forall>w s'. s = w @ s' \<longrightarrow> \<not> rmatch r l w s'"
  have "matches r (l, s, []) = []"
  proof (rule ccontr)
    assume "matches r (l, s, []) \<noteq> []"
    then obtain l' s' g where "(l', s', g) \<in> set (matches r (l, s, []))" by (metis list.set_intros(1) neq_Nil_conv prod_cases3)
    from matches_sound[OF this] no show False by blast
  qed
  then show "match_here r l s = None" by (simp add: match_here_def)
qed

lemma search_from_Some:
  "search_from r l s = Some (u, m, g, s') \<Longrightarrow>
     \<exists>w. u = rev l @ w \<and> s = w @ m @ s' \<and> rmatch r (rev u) m s'"
proof (induction r l s rule: search_from.induct)
  case (1 r l)
  then show ?case by (auto split: option.splits dest!: match_here_Some)
next
  case (2 r l c s)
  show ?case
  proof (cases "match_here r l (c # s)")
    case None
    with 2 obtain w where "u = rev (c # l) @ w" "s = w @ m @ s'" "rmatch r (rev u) m s'" by auto
    then show ?thesis by (intro exI[of _ "c # w"]) simp
  next
    case (Some x)
    with "2.prems" show ?thesis by (auto dest!: match_here_Some)
  qed
qed

lemma search_from_None:
  "search_from r l s = None \<longleftrightarrow>
     (\<forall>u w s'. s = u @ w @ s' \<longrightarrow> \<not> rmatch r (rev u @ l) w s')"
proof (induction r l s rule: search_from.induct)
  case (1 r l)
  show ?case using match_here_None[of r l "[]"] by (auto split: option.splits)
next
  case (2 r l c s)
  show ?case
  proof (cases "match_here r l (c # s)")
    case None
    with 2 have "search_from r l (c # s) = None \<longleftrightarrow>
      (\<forall>u w s'. s = u @ w @ s' \<longrightarrow> \<not> rmatch r (rev u @ c # l) w s')" by simp
    also have "\<dots> \<longleftrightarrow> (\<forall>u w s'. c # s = u @ w @ s' \<longrightarrow> \<not> rmatch r (rev u @ l) w s')"
    proof
      assume *: "\<forall>u w s'. s = u @ w @ s' \<longrightarrow> \<not> rmatch r (rev u @ c # l) w s'"
      show "\<forall>u w s'. c # s = u @ w @ s' \<longrightarrow> \<not> rmatch r (rev u @ l) w s'"
      proof (intro allI impI)
        fix u w s' assume "c # s = u @ w @ s'"
        with * None show "\<not> rmatch r (rev u @ l) w s'" by (cases u) (auto simp: match_here_None)
      qed
    next
      assume *: "\<forall>u w s'. c # s = u @ w @ s' \<longrightarrow> \<not> rmatch r (rev u @ l) w s'"
      show "\<forall>u w s'. s = u @ w @ s' \<longrightarrow> \<not> rmatch r (rev u @ c # l) w s'"
      proof (intro allI impI)
        fix u w s' assume "s = u @ w @ s'"
        with *[rule_format, of "c # u"] show "\<not> rmatch r (rev u @ c # l) w s'" by simp
      qed
    qed
    finally show ?thesis .
  next
    case (Some x)
    obtain m g s' where x: "x = (m, g, s')" by (cases x)
    from Some match_here_Some[of r l "c # s" m g s'] have "c # s = [] @ m @ s'" "rmatch r (rev [] @ l) m s'"
      by (auto simp: x)
    then have "\<not> (\<forall>u w s'. c # s = u @ w @ s' \<longrightarrow> \<not> rmatch r (rev u @ l) w s')" by blast
    moreover have "search_from r l (c # s) \<noteq> None" using Some x by simp
    ultimately show ?thesis by blast
  qed
qed

lemma search_Some: "search r s = Some (u, m, g, s') \<Longrightarrow> s = u @ m @ s' \<and> rmatch r (rev u) m s'"
  using search_from_Some[of r "[]" s] by (auto simp: search_def)

lemma search_None: "search r s = None \<longleftrightarrow> (\<forall>u w s'. s = u @ w @ s' \<longrightarrow> \<not> rmatch r (rev u) w s')"
  by (simp add: search_def search_from_None)

lemma concat_split_keep_from: "concat (split_keep_from r acc l s) = acc @ s"
proof (induction r acc l s rule: split_keep_from.induct)
  case (2 r acc l c s)
  have "m = [] \<or> length s' \<le> length s" if "match_here r l (c # s) = Some (m, g, s')" for m g s'
    using match_here_Some[OF that] by (cases m) auto
  with 2 show ?case by (auto split: option.splits dest: match_here_Some)
qed simp

text \<open>The parts of a split, matched and unmatched, give the text back.\<close>

lemma concat_split_keep: "concat (split_keep r s) = s"
  by (auto simp: split_keep_def concat_split_keep_from)

section \<open>Matches of the derived forms\<close>

lemma rmatch_Eps [simp]: "rmatch Eps l w s \<longleftrightarrow> w = []"
  by (auto intro: rm_Eps)

lemma rmatch_Class [simp]: "rmatch (Class p) l w s \<longleftrightarrow> (\<exists>c. w = [c] \<and> p c)"
  by (auto intro: rm_Class)

lemma rmatch_Seq: "rmatch (Seq a b) l w s \<longleftrightarrow> (\<exists>u v. w = u @ v \<and> rmatch a l u (v @ s) \<and> rmatch b (rev u @ l) v s)"
  by (auto intro: rm_Seq)

lemma rmatch_Alt [simp]: "rmatch (Alt a b) l w s \<longleftrightarrow> rmatch a l w s \<or> rmatch b l w s"
  by (auto intro: rm_Alt1 rm_Alt2)

lemma rmatch_Group [simp]: "rmatch (Group n a) l w s \<longleftrightarrow> rmatch a l w s"
  by (auto intro: rm_Group)

lemma rmatch_Opt [simp]: "rmatch (Opt a) l w s \<longleftrightarrow> rmatch a l w s \<or> w = []"
  by (simp add: Opt_def)

lemma rmatch_AtStart [simp]: "rmatch AtStart l w s \<longleftrightarrow> l = [] \<and> w = []"
  by (auto intro: rm_AtStart)

lemma rmatch_AtEnd [simp]: "rmatch AtEnd l w s \<longleftrightarrow> s = [] \<and> w = []"
  by (auto intro: rm_AtEnd)

lemma rmatch_LineStart [simp]: "rmatch LineStart l w s \<longleftrightarrow> line_edge l \<and> w = []"
  by (auto intro: rm_LineStart)

lemma rmatch_LineEnd [simp]: "rmatch LineEnd l w s \<longleftrightarrow> line_edge s \<and> w = []"
  by (auto intro: rm_LineEnd)

lemma rmatch_WordBoundary [simp]:
  "rmatch WordBoundary l w s \<longleftrightarrow> w = [] \<and> first_is_word l \<noteq> first_is_word s"
  by (auto intro: rm_WordBoundary)

lemma rmatch_Lit [simp]: "rmatch (Lit x) l w s \<longleftrightarrow> w = x"
  by (induction x arbitrary: l w rule: Lit.induct) (auto simp: rmatch_Seq)

lemma rmatch_Words [simp]: "rmatch (Words ws) l w s \<longleftrightarrow> w \<in> set ws"
  by (induction ws rule: Words.induct) auto

lemma rmatch_Star_Class_imp: "rmatch r l w s \<Longrightarrow> r = Star (Class p) \<Longrightarrow> \<forall>c \<in> set w. p c"
  by (induction rule: rmatch.induct) auto

lemma rmatch_Star_Class [simp]: "rmatch (Star (Class p)) l w s \<longleftrightarrow> (\<forall>c \<in> set w. p c)"
proof
  show "\<forall>c \<in> set w. p c \<Longrightarrow> rmatch (Star (Class p)) l w s"
  proof (induction w arbitrary: l)
    case (Cons c w)
    then show ?case using rm_Star1[of "Class p" l "[c]" w s] by simp
  qed (simp add: rm_Star0)
qed (blast dest: rmatch_Star_Class_imp)

lemma rmatch_Plus_Class [simp]: "rmatch (Plus (Class p)) l w s \<longleftrightarrow> w \<noteq> [] \<and> (\<forall>c \<in> set w. p c)"
proof (cases w)
  case (Cons c v)
  have "w = [c] @ v" by (simp add: Cons)
  then have "w \<noteq> [] \<and> (\<forall>c \<in> set w. p c) \<Longrightarrow> rmatch (Plus (Class p)) l w s"
    unfolding Plus_def rmatch_Seq by (intro exI[of _ "[c]"] exI[of _ v]) simp
  moreover have "rmatch (Plus (Class p)) l w s \<Longrightarrow> w \<noteq> [] \<and> (\<forall>c \<in> set w. p c)"
    by (auto simp: Plus_def rmatch_Seq)
  ultimately show ?thesis by blast
qed (simp add: Plus_def rmatch_Seq)

declare Lit.simps [simp del] Words.simps [simp del]

text \<open>The first match of a repeated class is the longest.\<close>

lemma matches_Star_Class:
  "\<exists>ms. matches (Star (Class p)) (l, s, g) = (rev (takeWhile p s) @ l, dropWhile p s, g) # ms"
proof (induction s arbitrary: l)
  case Nil
  then show ?case by (simp add: matches.simps(5))
next
  case (Cons c s)
  from Cons[of "c # l"] show ?case by (auto simp: matches.simps(5)[of _ "(l, c # s, g)"])
qed

lemma matches_Plus_Class:
  "s \<noteq> [] \<Longrightarrow> p (hd s) \<Longrightarrow>
     \<exists>ms. matches (Plus (Class p)) (l, s, g) = (rev (takeWhile p s) @ l, dropWhile p s, g) # ms"
  using matches_Star_Class[of p "hd s # l" "tl s" g] by (cases s) (auto simp: Plus_def)

section \<open>What the parts of a split are\<close>

text \<open>A matched part is the match at its place; at no place inside an unmatched part does a match start.\<close>

definition matched_part :: "regex \<Rightarrow> string \<Rightarrow> string \<Rightarrow> string \<Rightarrow> bool" where
  "matched_part r u p v \<longleftrightarrow> (\<exists>g. match_here r (rev u) (p @ v) = Some (p, g, v))"

definition plain_part :: "regex \<Rightarrow> string \<Rightarrow> string \<Rightarrow> string \<Rightarrow> bool" where
  "plain_part r u p v \<longleftrightarrow> (\<forall>a b. p = a @ b \<and> b \<noteq> [] \<longrightarrow> match_here r (rev (u @ a)) (b @ v) = None)"

definition never_empty :: "regex \<Rightarrow> bool" where
  "never_empty r \<longleftrightarrow> (\<forall>l s. \<not> rmatch r l [] s)"

lemma split_keep_from_parts:
  assumes "never_empty r" and "p \<in> set (split_keep_from r acc (rev acc @ l0) s)"
    and "plain_part r (rev l0) acc s"
  shows "\<exists>u v. rev l0 @ acc @ s = u @ p @ v \<and> (matched_part r u p v \<or> plain_part r u p v)"
  using assms
proof (induction r acc "rev acc @ l0" s arbitrary: acc l0 rule: split_keep_from.induct)
  case (1 r acc)
  then show ?case by (intro exI[of _ "rev l0"] exI[of _ "[]"]) simp
next
  case (2 r acc c s)
  let ?l = "rev acc @ l0"
  note IHn = 2(1) and IHm = 2(2)
  show ?case
  proof (cases "match_here r ?l (c # s)")
    case None
    with "2.prems" have "p \<in> set (split_keep_from r (acc @ [c]) (c # ?l) s)" by simp
    moreover have "plain_part r (rev l0) (acc @ [c]) s"
      unfolding plain_part_def
    proof (intro allI impI)
      fix a b assume ab: "acc @ [c] = a @ b \<and> b \<noteq> []"
      then obtain b' where b: "b = b' @ [c]" "acc = a @ b'"
        by (metis append_butlast_last_id butlast_append butlast_snoc last_appendR last_snoc)
      show "match_here r (rev (rev l0 @ a)) (b @ s) = None"
        using None "2.prems"(3) b by (cases "b' = []") (auto simp: plain_part_def)
    qed
    ultimately show ?thesis using None IHn[of "acc @ [c]" l0] "2.prems"(1) by simp
  next
    case (Some x)
    obtain m g s' where x: "x = (m, g, s')" by (cases x)
    from match_here_Some[of r ?l "c # s" m g s'] Some x have ms: "c # s = m @ s'" "rmatch r ?l m s'" by auto
    with "2.prems"(1) have "m \<noteq> []" by (auto simp: never_empty_def)
    with ms have len: "length s' \<le> length s" by (cases m) auto
    from "2.prems"(2) Some x \<open>m \<noteq> []\<close> len
    consider "p = acc" | "p = m" | "p \<in> set (split_keep_from r [] (rev m @ ?l) s')" by auto
    then show ?thesis
    proof cases
      assume "p = acc"
      with "2.prems"(3) show ?thesis by (intro exI[of _ "rev l0"] exI[of _ "c # s"]) simp
    next
      assume "p = m"
      with Some x ms show ?thesis
        by (intro exI[of _ "rev l0 @ acc"] exI[of _ s']) (auto simp: matched_part_def)
    next
      assume p: "p \<in> set (split_keep_from r [] (rev m @ ?l) s')"
      have "plain_part r (rev (rev m @ ?l)) [] s'" by (simp add: plain_part_def)
      with IHm[OF Some, of m "(g, s')" g s' "[]" "rev m @ ?l"] x "2.prems"(1) p \<open>m \<noteq> []\<close> len
      obtain u v where "rev (rev m @ ?l) @ s' = u @ p @ v" "matched_part r u p v \<or> plain_part r u p v" by auto
      with ms show ?thesis by (metis append.assoc rev_append rev_rev_ident)
    qed
  qed
qed

lemma split_keep_parts:
  assumes "never_empty r" and "p \<in> set (split_keep r s)"
  shows "\<exists>u v. s = u @ p @ v \<and> (matched_part r u p v \<or> plain_part r u p v)"
proof (cases "s = []")
  case True
  with assms(2) have "p = []" by (auto simp: split_keep_def split: if_splits)
  with True show ?thesis by (intro exI[of _ "[]"]) (simp add: plain_part_def)
next
  case False
  with assms split_keep_from_parts[of r p "[]" "[]" s] show ?thesis
    by (simp add: split_keep_def plain_part_def)
qed

lemma match_here_Alt1: "match_here a l s = Some x \<Longrightarrow> match_here (Alt a b) l s = Some x"
  by (auto simp: match_here_def split: list.splits)

lemma match_here_exists: "rmatch r l w s \<Longrightarrow> \<exists>x. match_here r l (w @ s) = Some x"
  using match_here_None[of r l "w @ s"] by (cases "match_here r l (w @ s)") auto

lemma first_is_word_rev: "first_is_word (rev u) \<longleftrightarrow> u \<noteq> [] \<and> is_word (last u)"
  by (cases u rule: rev_cases) (auto simp: first_is_word_def)

end
