(* ===== verification/LineView.thy ===== *)
theory LineView
  imports JsRegExp JsValue
begin

text \<open>
  The \<^verbatim>\<open>Line\<close> component of \<^verbatim>\<open>src/components/LLVMIRModal.tsx\<close> and the table of technical terms it
  shares with the editor: how one line of the verifier's output becomes coloured text with tooltips.
  A rendered element is a tree of text, spans (with the colour class that carries the meaning; layout
  classes are left out), tooltips around children, and blocks. Rendering may throw, which the nearest
  error boundary catches.
\<close>

section \<open>Elements\<close>

text \<open>What a tooltip shows: a text, or a value that is not one (see \<open>term_lookup\<close>).\<close>

datatype content = TextContent string | FunctionContent | ObjectContent

datatype node =
    Text string
  | Span string "node list"
  | Tip content "node list"
  | Block "node list"

text \<open>The text on the page, tooltips closed.\<close>

fun text_of :: "node \<Rightarrow> string" where
  "text_of (Text s) = s"
| "text_of (Span c ns) = concat (map text_of ns)"
| "text_of (Tip c ns) = concat (map text_of ns)"
| "text_of (Block ns) = concat (map text_of ns)"

text \<open>The contents of the tooltips of an element.\<close>

fun tips_of :: "node \<Rightarrow> content list" where
  "tips_of (Text s) = []"
| "tips_of (Span c ns) = concat (map tips_of ns)"
| "tips_of (Tip c ns) = c # concat (map tips_of ns)"
| "tips_of (Block ns) = concat (map tips_of ns)"

text \<open>
  A tooltip that opens renders its content as a child: a text as it is, a function as nothing, and an object throws.
\<close>

definition object_child_error :: thrown where
  "object_child_error =
     ErrorObject (''Objects are not valid as a React child (found: object with keys {}). '' @
       ''If you meant to render a collection of children, use an array instead.'')"

definition render_content :: "content \<Rightarrow> thrown + node list" where
  "render_content c =
     (case c of
        TextContent t \<Rightarrow> Inr [Text t]
      | FunctionContent \<Rightarrow> Inr []
      | ObjectContent \<Rightarrow> Inl object_child_error)"

text \<open>A child of type \<^verbatim>\<open>string | undefined\<close>: undefined renders as nothing.\<close>

fun text_child :: "string option \<Rightarrow> node list" where
  "text_child None = []"
| "text_child (Some s) = [Text s]"

section \<open>Technical terms\<close>

definition technicalTerms :: "(string \<times> string) list" where
  "technicalTerms =
     [(''noundef'', ''value cannot be undefined''),
      (''i32'', ''32-bit integer type''),
      (''ptr'', ''pointer type''),
      (''align'', ''memory alignment requirement''),
      (''define'', ''declare a function with definition''),
      (''declare'', ''declare a function without definition''),
      (''extractvalue'', ''extract a member from an aggregate value''),
      (''assume'', ''tell optimizer to assume a condition is true''),
      (''call'', ''call a function''),
      (''UB'', ''Undefined Behavior in language specification''),
      (''gep'', ''computes address of a subelement in an aggregate data structure''),
      (''inbounds'', ''indicates pointer arithmetic will not overflow or go out of bounds''),
      (''noreturn'', ''function never returns to caller''),
      (''offset'', ''memory address offset''),
      (''block_id'', ''memory block identifier''),
      (''address'', ''memory location''),
      (''local'', (''memory block allocated in current function'' @ [CHR 0x27] @ ''s stack frame'')),
      (''non-local'', (''memory block allocated outside current function'' @ [CHR 0x27] @ ''s stack frame'')),
      (''const'', ''constant value''),
      (''alive'', ''memory block is still in use''),
      (''poison'', ''value that causes undefined behavior when used in computations''),
      (''store'', ''store value to memory location''),
      (''load'', ''load value from memory location''),
      (''br'', ''branch to different basic block''),
      (''ret'', ''return value from function''),
      (''label'', ''basic block identifier''),
      (''switch'', ''multi-way branch based on value''),
      (''ule'', ''unsigned less-than-or-equal comparison''),
      (''uge'', ''unsigned greater-than-or-equal comparison''),
      (''ult'', ''unsigned less-than comparison''),
      (''ugt'', ''unsigned greater-than comparison''),
      (''icmp'', ''integer comparison''),
      (''fcmp'', ''floating-point comparison''),
      (''phi'', ''select value based on predecessor block''),
      (''alloca'', ''allocate memory on stack''),
      (''sext'', ''extends a smaller integer to a larger one by copying the sign bit''),
      (''zext'', ''extends a smaller integer to a larger one by padding with zeros''),
      (''trunc'', ''converts a larger integer to a smaller one by dropping high-order bits''),
      (''signext'', ''extends a smaller integer to a larger one by copying the sign bit'')]"

text \<open>
  \<^verbatim>\<open>technicalTerms[k]\<close> on an object literal: its own entry, or what it inherits from
  \<^verbatim>\<open>Object.prototype\<close>: functions, and an object under \<^verbatim>\<open>__proto__\<close>.
\<close>

definition prototype_functions :: "string list" where
  "prototype_functions =
     [''constructor'', ''__defineGetter__'', ''__defineSetter__'', ''hasOwnProperty'',
      ''__lookupGetter__'', ''__lookupSetter__'', ''isPrototypeOf'', ''propertyIsEnumerable'',
      ''toString'', ''valueOf'', ''toLocaleString'']"

definition term_lookup :: "string \<Rightarrow> content option" where
  "term_lookup k =
     (case map_of technicalTerms k of
        Some t \<Rightarrow> Some (TextContent t)
      | None \<Rightarrow> if k \<in> set prototype_functions then Some FunctionContent
                else if k = ''__proto__'' then Some ObjectContent else None)"

section \<open>The expressions of the component\<close>

text \<open>\<^verbatim>\<open>[_A-Za-z0-9$.]\<close> and \<^verbatim>\<open>[\w.]\<close>\<close>

definition is_fn_char :: "char \<Rightarrow> bool" where
  "is_fn_char c \<longleftrightarrow> is_word c \<or> c = CHR ''$'' \<or> c = CHR ''.''"

definition is_var_char :: "char \<Rightarrow> bool" where
  "is_var_char c \<longleftrightarrow> is_word c \<or> c = CHR ''.''"

definition headings :: "string list" where
  "headings = [''SOURCE MEMORY STATE'', ''TARGET MEMORY STATE'', ''LOCAL BLOCKS'', ''NON-LOCAL BLOCKS'']"

definition heading_regex :: regex where
  "heading_regex = Seq AtStart (Seq (Group 1 (Words headings)) (Seq (Opt (Lit '':'')) AtEnd))"

definition at_function_regex :: regex where
  "at_function_regex = Seq AtStart (Seq (Lit ''@'') (Plus (Class is_fn_char)))"

definition function_regex :: regex where
  "function_regex = Seq (Lit ''@'') (Group 1 (Plus (Class is_fn_char)))"

definition jump_regex :: regex where
  "jump_regex = Seq (Lit ''>>'') (Seq (Star (Class is_space)) (Seq (Lit ''Jump to'')
      (Seq (Star (Class is_space)) (Group 1 (Seq (Lit ''%'') (Plus (Class is_word)))))))"

definition split_terms :: "string list" where
  "split_terms =
     [''i32'', ''ptr'', ''declare'', ''noreturn'', ''UB'', ''define'', ''call'', ''gep'', ''inbounds'',
      ''extractvalue'', ''assume'', ''noundef'', ''const'', ''alive'', ''block_id'', ''offset'', ''poison'',
      ''local'', ''store'', ''load'', ''br'', ''ret'', ''label'', ''align'', ''switch'', ''signext'', ''zext'',
      ''trunc'', ''sext'', ''alloca'', ''icmp'', ''fcmp'', ''phi'', ''ule'', ''uge'', ''ult'', ''ugt'']"

definition term_regex :: regex where
  "term_regex = Seq WordBoundary (Seq (Words split_terms) WordBoundary)"

definition variable_regex :: regex where
  "variable_regex = Seq (Lit ''%'') (Seq (Opt (Class (\<lambda>c. c \<in> set ''#_''))) (Plus (Class is_var_char)))"

definition name_regex :: regex where
  "name_regex = Seq (Lit ''@'') (Plus (Class is_fn_char))"

text \<open>\<^verbatim>\<open>#x([0-9a-fA-F]+)(?:\(([^)]+)\))?\<close>, with the groups that \<^verbatim>\<open>part.match\<close> reads\<close>

definition not_close :: "char \<Rightarrow> bool" where
  "not_close c \<longleftrightarrow> c \<noteq> CHR '')''"

definition hex_regex :: regex where
  "hex_regex = Seq (Lit ''#x'') (Seq (Group 1 (Plus (Class is_hex)))
     (Opt (Seq (Lit ''('') (Seq (Group 2 (Plus (Class not_close))) (Lit '')'')))))"

definition label_regex :: "string \<Rightarrow> regex" where
  "label_regex label = Seq (Lit label) (Plus (Class is_digit))"

definition address_regex :: regex where
  "address_regex = Seq (Lit ''Address=#x'') (Plus (Class is_hex))"

definition parts_regex :: regex where
  "parts_regex = Alt term_regex (Alt variable_regex (Alt name_regex (Alt hex_regex
     (Alt (label_regex ''block_id='') (Alt (label_regex ''offset='') address_regex)))))"

section \<open>Rendering a line\<close>

definition nth_part :: "string list \<Rightarrow> nat \<Rightarrow> string option" where
  "nth_part xs i = (if i < length xs then Some (xs ! i) else None)"

text \<open>\<^verbatim>\<open>x.split(sep)\<close> on a string or \<^verbatim>\<open>undefined\<close>\<close>

fun split_or_throw :: "string option \<Rightarrow> string \<Rightarrow> thrown + string list" where
  "split_or_throw None sep = Inl (read_error ''undefined'' ''split'')"
| "split_or_throw (Some s) sep = Inr (split s sep)"

definition function_tooltip :: "string \<Rightarrow> string" where
  "function_tooltip name =
     (if starts_with name ''_ZN''
      then ''Rust mangled function name'' @
        (if js_includes name ''panic'' then '' (panic handler)''
         else if js_includes name ''core'' then '' (core library function)'' else '''')
      else if starts_with name ''_Z'' then ''C++ mangled function name''
      else if starts_with name ''alloc'' then ''memory allocation function'' else '''')"

definition error_highlight :: "string option \<Rightarrow> string \<Rightarrow> string \<Rightarrow> thrown + node" where
  "error_highlight after word tip =
     and_then (split_or_throw after word) (\<lambda>ps. Inr (Block
       [Span ''text-rose-600'' (text_child (nth_part ps 0)),
        Tip (TextContent tip) [Span ''text-rose-600 font-bold'' [Text word]],
        Span ''text-rose-600'' (text_child (nth_part ps 1))]))"

definition error_line :: "string \<Rightarrow> thrown + node" where
  "error_line content =
     (let after = nth_part (split content ''ERROR: '') 1 in
      if js_includes content ''type check''
      then error_highlight after ''type check''
             ''whether the type of the two converted LLVM IR functions match with each other''
      else if js_includes content ''defined''
      then error_highlight after ''defined''
             ''a program state that does not trigger any undefined behavior (UB)''
      else if js_includes content ''Timeout''
      then Inr (Block [Span ''text-rose-600'' [Text ''The verification process ''],
             Tip (TextContent ''verification process of Alive2 exceeds the time limit'')
               [Span ''text-rose-600 font-bold'' [Text ''timed out'']]])
      else Inr (Block [Span ''text-rose-600'' (text_child after)]))"

definition function_line :: "string \<Rightarrow> string \<Rightarrow> node" where
  "function_line content name =
     Block ([Span '''' [Text ''Function ''],
        Tip (TextContent (function_tooltip name)) [Span ''text-emerald-600'' [Text ''@'', Text name]]]
      @ (if js_includes content ''triggered UB''
         then [Span '''' [Text '' ''],
           Tip (TextContent ''function execution resulted in Undefined Behavior'')
             [Span ''text-rose-600'' [Text ''triggered UB'']]]
         else []))"

definition jump_line :: "string \<Rightarrow> node" where
  "jump_line target =
     Block [Span ''text-blue-500'' [Text ''  >> ''],
       Tip (TextContent ''Branch instruction to a labeled block'') [Span '''' [Text ''Jump to'']],
       Span ''text-purple-600'' [Text ('' '' @ target)]]"

text \<open>The parts of a line, matched and plain in turn, and the element of one part.\<close>

definition line_parts :: "string \<Rightarrow> string list" where
  "line_parts content = split_keep parts_regex content"

definition term_tooltip :: "string \<Rightarrow> content option" where
  "term_tooltip part =
     (case term_lookup part of
        Some c \<Rightarrow> Some c
      | None \<Rightarrow> if part = ''i32'' then Some (TextContent ''32-bit integer type'')
                else if part = ''ptr'' then Some (TextContent ''Pointer type'') else None)"

definition label_node :: "string \<Rightarrow> node" where
  "label_node part =
     (let ps = split part ''='' in
      Span '''' (text_child (nth_part ps 0) @ [Text ''='', Span ''text-amber-600'' (text_child (nth_part ps 1))]))"

definition hex_node :: "string \<Rightarrow> node option" where
  "hex_node part =
     (case search hex_regex part of
        None \<Rightarrow> None
      | Some (_, _, g, _) \<Rightarrow>
          Some (Span '''' ([Text ''#x'', Span ''text-orange-600'' (text_child (map_of g 1))]
            @ (case map_of g 2 of
                 None \<Rightarrow> []
               | Some v \<Rightarrow> if v = [] then [] else
                   [Span '''' [Text ''('', Span ''text-amber-600'' [Text v], Text '')'']]))))"

definition plain_node :: "string \<Rightarrow> node" where
  "plain_node part = Span '''' [Text part]"

definition part_node :: "string \<Rightarrow> node" where
  "part_node part =
     (case term_tooltip part of
        Some tip \<Rightarrow> Tip tip [Span '''' [Text part]]
      | None \<Rightarrow>
     if starts_with part ''%'' then Span ''text-purple-600'' [Text part]
     else if starts_with part ''block_id='' \<or> starts_with part ''offset='' then label_node part
     else case (if starts_with part ''#x'' then hex_node part else None) of
       Some n \<Rightarrow> n
     | None \<Rightarrow>
     if starts_with part ''@'' \<and> function_tooltip (drop 1 part) \<noteq> ''''
     then Tip (TextContent (function_tooltip (drop 1 part))) [Span ''text-emerald-600'' [Text part]]
     else plain_node part)"

definition Line :: "string \<Rightarrow> thrown + node" where
  "Line content =
     (if js_includes content ''ERROR:'' then error_line content
      else if regex_test heading_regex content
      then Inr (Block [Span ''text-blue-600 font-bold'' [Text content]])
      else case (if js_includes content ''Function @'' \<or> regex_test at_function_regex content
                 then match_group function_regex 1 content else None) of
        Some name \<Rightarrow> Inr (function_line content name)
      | None \<Rightarrow>
      case (if starts_with content ''  >>'' then match_group jump_regex 1 content else None) of
        Some target \<Rightarrow> Inr (jump_line target)
      | None \<Rightarrow> Inr (Block (map part_node (line_parts content))))"

section \<open>When a line cannot be rendered\<close>

lemma error_highlight_Inl: "(\<exists>t. error_highlight after w tip = Inl t) \<longleftrightarrow> after = None"
  by (cases after) (auto simp: error_highlight_def)

definition crash_line :: "string \<Rightarrow> bool" where
  "crash_line content \<longleftrightarrow>
     js_includes content ''ERROR:'' \<and> \<not> js_includes content ''ERROR: '' \<and>
     (js_includes content ''type check'' \<or> js_includes content ''defined'')"

lemma Line_crashes: "(\<exists>t. Line content = Inl t) \<longleftrightarrow> crash_line content"
proof -
  have "nth_part (split content ''ERROR: '') 1 = None \<longleftrightarrow> \<not> js_includes content ''ERROR: ''"
    using length_split[of "''ERROR: ''" content] by (auto simp: nth_part_def)
  then show ?thesis
    by (auto simp: Line_def error_line_def Let_def error_highlight_Inl crash_line_def split: option.splits)
qed

text \<open>
  Rendering a line throws exactly when the line has \<open>ERROR:\<close> without a following space and
  mentions \<open>type check\<close> or \<open>defined\<close>: the text after the separator is then undefined, and its
  \<open>split\<close> is a type error. All other lines render.
\<close>

lemma Line_throws_iff:
  "(\<exists>t. Line content = Inl t) \<longleftrightarrow>
     js_includes content ''ERROR:'' \<and> \<not> js_includes content ''ERROR: '' \<and>
     (js_includes content ''type check'' \<or> js_includes content ''defined'')"
  using Line_crashes unfolding crash_line_def .

section \<open>Lines of a fixed shape\<close>

lemma regex_test_iff: "regex_test r s \<longleftrightarrow> (\<exists>u w v. s = u @ w @ v \<and> rmatch r (rev u) w v)"
  by (auto simp: regex_test_def search_None)

lemma heading_lines:
  "regex_test heading_regex content \<longleftrightarrow> (\<exists>h \<in> set headings. content = h \<or> content = h @ '':'')"
proof -
  have "rmatch heading_regex (rev u) w v \<longleftrightarrow>
     u = [] \<and> v = [] \<and> (\<exists>x y. w = x @ y \<and> x \<in> set headings \<and> (y = '':'' \<or> y = []))" for u w v
    by (simp add: heading_regex_def rmatch_Seq) blast
  then have "regex_test heading_regex content \<longleftrightarrow>
     (\<exists>x y. content = x @ y \<and> x \<in> set headings \<and> (y = '':'' \<or> y = []))"
    unfolding regex_test_iff by simp
  then show ?thesis by blast
qed

text \<open>The function name a line shows is the run of name characters after its first such \<^verbatim>\<open>@\<close>.\<close>

lemma function_regex_here:
  assumes "n \<noteq> []" and "\<forall>c \<in> set n. is_fn_char c" and "r = [] \<or> \<not> is_fn_char (hd r)"
  shows "\<exists>g. match_here function_regex l (CHR ''@'' # n @ r) = Some (CHR ''@'' # n, g, r) \<and> map_of g 1 = Some n"
proof -
  from assms have t: "takeWhile is_fn_char (n @ r) = n" "dropWhile is_fn_char (n @ r) = r"
    by (cases r; simp)+
  from assms have "is_fn_char (hd (n @ r))" by (cases n) auto
  with matches_Plus_Class[of "n @ r" is_fn_char "CHR ''@'' # l" "[]"] assms(1) t
  obtain ms where "matches (Plus (Class is_fn_char)) (CHR ''@'' # l, n @ r, []) = (rev n @ CHR ''@'' # l, r, []) # ms"
    by auto
  then show ?thesis by (simp add: match_here_def function_regex_def Lit.simps)
qed

lemma search_Function:
  assumes "n \<noteq> []" and "\<forall>c \<in> set n. is_fn_char c" and "r = [] \<or> \<not> is_fn_char (hd r)"
  shows "match_group function_regex 1 (''Function @'' @ n @ r) = Some n"
proof -
  have skip: "match_here function_regex l (c # s) = None" if "c \<noteq> CHR ''@''" for l c s
    using that by (simp add: match_here_def function_regex_def Lit.simps)
  have here: "\<exists>g. match_here function_regex l (CHR ''@'' # n @ r) = Some (CHR ''@'' # n, g, r) \<and> map_of g 1 = Some n" for l
    using function_regex_here[OF assms] .
  show ?thesis
    unfolding match_group_def search_def
    by (simp add: skip) (use here[of "rev ''Function ''"] in \<open>auto split: option.splits\<close>)
qed

text \<open>
  A line about a function shows the function's name and whether it triggered undefined
  behaviour, and nothing else of the line. So \<open>Function @f triggered UB\<close> is shown in full, while the
  \<open>returned\<close> of Alive2's \<open>Function @f returned\<close> is dropped.
\<close>

lemma function_line_text:
  assumes "n \<noteq> []" and "\<forall>c \<in> set n. is_fn_char c" and "r = [] \<or> \<not> is_fn_char (hd r)"
    and "CHR '':'' \<notin> set r"
  shows "\<exists>e. Line (''Function @'' @ n @ r) = Inr e \<and>
     text_of e = ''Function @'' @ n @ (if js_includes (''Function @'' @ n @ r) ''triggered UB'' then '' triggered UB'' else '''')"
proof -
  let ?c = "''Function @'' @ n @ r"
  have "CHR '':'' \<notin> set n" using assms(2) by (auto simp: is_fn_char_def js_defs)
  then have "\<not> js_includes ?c ''ERROR:''" using assms(4) js_includes_subset[of ?c "''ERROR:''"] by auto
  moreover have "\<not> regex_test heading_regex ?c" by (simp add: heading_lines headings_def)
  moreover have "js_includes ?c ''Function @''" using js_includes_append[of "''Function @''" _ "[]" "n @ r"] by simp
  ultimately have "Line ?c = Inr (function_line ?c n)"
    using search_Function[OF assms(1-3)] by (simp add: Line_def del: js_includes.simps append_Cons)
  then show ?thesis by (simp add: function_line_def)
qed

lemma function_line_text_example:
  "\<exists>e. Line ''Function @_ZN4core9panicking returned'' = Inr e \<and> text_of e = ''Function @_ZN4core9panicking''"
proof -
  have "\<exists>e. Line (''Function @'' @ ''_ZN4core9panicking'' @ '' returned'') = Inr e \<and>
     text_of e = ''Function @'' @ ''_ZN4core9panicking'' @
       (if js_includes (''Function @'' @ ''_ZN4core9panicking'' @ '' returned'') ''triggered UB'' then '' triggered UB'' else '''')"
    by (rule function_line_text) (simp_all add: is_fn_char_def js_defs)
  then show ?thesis by simp
qed

section \<open>The parts of a line\<close>

text \<open>The texts a hexadecimal value can be, and how its element shows them.\<close>

lemma rmatch_hex:
  "rmatch hex_regex l w s \<longleftrightarrow>
     (\<exists>ds. ds \<noteq> [] \<and> (\<forall>c \<in> set ds. is_hex c) \<and>
       (w = ''#x'' @ ds \<or>
        (\<exists>xs. xs \<noteq> [] \<and> (\<forall>c \<in> set xs. not_close c) \<and> w = ''#x'' @ ds @ ''('' @ xs @ '')'')))"
  by (simp add: hex_regex_def rmatch_Seq) blast

lemma not_hex_open: "\<not> is_hex (CHR ''('')"
  by (simp add: js_defs)

lemma matches_hex_tail:
  assumes "t = [] \<or> (\<exists>xs. xs \<noteq> [] \<and> (\<forall>c \<in> set xs. not_close c) \<and> t = ''('' @ xs @ '')'')"
  shows "\<exists>l' g' ms. matches (Opt (Seq (Lit ''('') (Seq (Group 2 (Plus (Class not_close))) (Lit '')'')))) (l, t, g)
           = (l', [], g') # ms \<and> g' = (if t = [] then g else (2, butlast (tl t)) # g)"
proof (cases "t = []")
  case True
  then show ?thesis by (simp add: Opt_def Lit.simps)
next
  case False
  with assms obtain xs where xs: "xs \<noteq> []" "\<forall>c \<in> set xs. not_close c" "t = ''('' @ xs @ '')''" by blast
  then have "takeWhile not_close (xs @ '')'') = xs" "dropWhile not_close (xs @ '')'') = '')''"
    by (simp_all add: not_close_def)
  moreover from xs have "not_close (hd (xs @ '')''))" by (cases xs) auto
  ultimately obtain ms where "matches (Plus (Class not_close)) (CHR ''('' # l, xs @ '')'', g) =
      (rev xs @ CHR ''('' # l, '')'', g) # ms"
    using matches_Plus_Class[of "xs @ '')''" not_close "CHR ''('' # l" g] xs(1) by auto
  with False xs(3) show ?thesis by (simp add: Opt_def Lit.simps butlast_append)
qed

lemma search_hex:
  assumes "ds \<noteq> []" and "\<forall>c \<in> set ds. is_hex c"
    and "t = [] \<or> (\<exists>xs. xs \<noteq> [] \<and> (\<forall>c \<in> set xs. not_close c) \<and> t = ''('' @ xs @ '')'')"
  shows "\<exists>m g. search hex_regex (''#x'' @ ds @ t) = Some ([], m, g, []) \<and>
           map_of g 1 = Some ds \<and> map_of g 2 = (if t = [] then None else Some (butlast (tl t)))"
proof -
  from assms have tw: "takeWhile is_hex (ds @ t) = ds" "dropWhile is_hex (ds @ t) = t"
    by (auto simp: not_hex_open)
  from assms have "is_hex (hd (ds @ t))" by (cases ds) auto
  with matches_Plus_Class[of "ds @ t" is_hex "''x#''" "[]"] assms(1) tw
  obtain ms where P: "matches (Plus (Class is_hex)) (''x#'', ds @ t, []) = (rev ds @ ''x#'', t, []) # ms" by auto
  obtain l' g' ns where T: "matches (Opt (Seq (Lit ''('') (Seq (Group 2 (Plus (Class not_close))) (Lit '')''))))
      (rev ds @ ''x#'', t, [(1, ds)]) = (l', [], g') # ns"
    and g': "g' = (if t = [] then [(1, ds)] else (2, butlast (tl t)) # [(1, ds)])"
    using matches_hex_tail[OF assms(3)] by blast
  from P T have "match_here hex_regex [] (''#x'' @ ds @ t) = Some (''#x'' @ ds @ t, g', [])"
    by (simp add: match_here_def hex_regex_def Lit.simps)
  then have "search hex_regex (''#x'' @ ds @ t) = Some ([], ''#x'' @ ds @ t, g', [])"
    by (simp add: search_def)
  with g' show ?thesis by auto
qed

lemma hex_node_text:
  assumes "rmatch hex_regex l p s"
  shows "\<exists>n. hex_node p = Some n \<and> text_of n = p"
proof -
  from assms obtain ds t where p: "p = ''#x'' @ ds @ t" and ds: "ds \<noteq> []" "\<forall>c \<in> set ds. is_hex c"
    and t: "t = [] \<or> (\<exists>xs. xs \<noteq> [] \<and> (\<forall>c \<in> set xs. not_close c) \<and> t = ''('' @ xs @ '')'')"
    unfolding rmatch_hex by force
  from search_hex[OF ds t] t show ?thesis
    unfolding p hex_node_def by (auto simp: butlast_append)
qed

lemma never_empty_parts: "never_empty parts_regex"
  by (simp add: never_empty_def parts_regex_def term_regex_def variable_regex_def name_regex_def
      hex_regex_def label_regex_def address_regex_def rmatch_Seq split_terms_def)

lemma rmatch_parts_hex: "rmatch hex_regex l w s \<Longrightarrow> rmatch parts_regex l w s"
  by (simp add: parts_regex_def)

lemma rmatch_hex_context: "rmatch hex_regex l w s \<Longrightarrow> rmatch hex_regex l' w s'"
  by (simp only: rmatch_hex)

lemma rmatch_parts_hash:
  assumes "rmatch parts_regex l p s" and "starts_with p ''#x''"
  shows "rmatch hex_regex l p s"
proof -
  have "\<forall>x \<in> set split_terms. \<not> starts_with x ''#x''" by (simp add: split_terms_def starts_with_def)
  then have "\<not> rmatch term_regex l p s" using assms(2) by (auto simp: term_regex_def rmatch_Seq)
  moreover have "\<not> rmatch variable_regex l p s" "\<not> rmatch name_regex l p s"
    "\<not> rmatch (label_regex ''block_id='') l p s" "\<not> rmatch (label_regex ''offset='') l p s" "\<not> rmatch address_regex l p s"
    using assms(2) by (auto simp: starts_with_def variable_regex_def name_regex_def label_regex_def address_regex_def rmatch_Seq)
  ultimately show ?thesis using assms(1) by (simp add: parts_regex_def)
qed

lemma plain_part_no_hex:
  assumes "plain_part parts_regex u p v"
  shows "hex_node p = None"
proof -
  have "\<not> rmatch hex_regex (rev a) w b" if p: "p = a @ w @ b" for a w b
  proof
    assume m: "rmatch hex_regex (rev a) w b"
    then have "w \<noteq> []" by (auto simp: rmatch_hex)
    with assms p have "match_here parts_regex (rev (u @ a)) (w @ b @ v) = None"
      unfolding plain_part_def by (metis append_assoc append_is_Nil_conv)
    moreover have "rmatch parts_regex (rev (u @ a)) w (b @ v)"
      using m rmatch_hex_context rmatch_parts_hex by blast
    ultimately show False using match_here_exists by fastforce
  qed
  then have "search hex_regex p = None" by (simp add: search_None)
  then show ?thesis by (simp add: hex_node_def)
qed

text \<open>What the branch for \<^verbatim>\<open>block_id=\<close> and \<^verbatim>\<open>offset=\<close> is for.\<close>

definition labels :: "string list" where
  "labels = [''block_id='', ''offset='']"

lemma label_part_context:
  assumes "p \<in> set (line_parts content)" and "l \<in> set labels" and "starts_with p l"
  shows "\<exists>u v. content = u @ p @ v \<and> u \<noteq> [] \<and> is_word (last u)"
proof -
  from split_keep_parts[OF never_empty_parts assms(1)[unfolded line_parts_def]] obtain u v
    where c: "content = u @ p @ v" and m: "matched_part parts_regex u p v \<or> plain_part parts_regex u p v" by blast
  from assms(2,3) have "\<exists>w \<in> {''block_id'', ''offset''}. \<exists>t. p = w @ CHR ''='' # t"
    by (auto simp: labels_def starts_with_def prefix_def)
  then obtain w t where w: "w \<in> {''block_id'', ''offset''}" and p: "p = w @ CHR ''='' # t" by blast
  have "rmatch term_regex (rev u) w (CHR ''='' # t @ v)" if "u = [] \<or> \<not> is_word (last u)"
  proof -
    have "first_is_word (w @ CHR ''='' # t @ v)" "first_is_word (rev w @ rev u)"
      "\<not> first_is_word (CHR ''='' # t @ v)" "\<not> first_is_word (rev u)" "w \<in> set split_terms"
      using w that by (auto simp: first_is_word_rev first_is_word_def js_defs split_terms_def split: list.splits)
    then show ?thesis by (auto simp: term_regex_def rmatch_Seq)
  qed
  moreover have "\<not> rmatch term_regex (rev u) w (CHR ''='' # t @ v)"
  proof
    assume r: "rmatch term_regex (rev u) w (CHR ''='' # t @ v)"
    show False using m
    proof
      assume "plain_part parts_regex u p v"
      then have "match_here parts_regex (rev u) (p @ v) = None"
        unfolding plain_part_def using p by (metis append_Nil append_Nil2 append_is_Nil_conv list.distinct(1))
      moreover have "rmatch parts_regex (rev u) w (CHR ''='' # t @ v)" using r by (simp add: parts_regex_def)
      ultimately show False using match_here_exists p by fastforce
    next
      assume "matched_part parts_regex u p v"
      then obtain g where g: "match_here parts_regex (rev u) (p @ v) = Some (p, g, v)" by (auto simp: matched_part_def)
      obtain x where x: "match_here term_regex (rev u) (p @ v) = Some x"
        using match_here_exists[OF r] p by auto
      from match_here_Alt1[OF this] g have "x = (p, g, v)" by (simp add: parts_regex_def)
      with x match_here_Some have "rmatch term_regex (rev u) p v" by blast
      then have "p \<in> set split_terms" by (simp add: term_regex_def rmatch_Seq)
      moreover have "CHR ''='' \<in> set p" by (simp add: p)
      moreover have "\<forall>x \<in> set split_terms. CHR ''='' \<notin> set x" by (simp add: split_terms_def)
      ultimately show False by blast
    qed
  qed
  ultimately show ?thesis using c by blast
qed

lemma part_node_text:
  assumes "p \<in> set (line_parts content)" and "\<forall>l \<in> set labels. \<not> starts_with p l"
  shows "text_of (part_node p) = p"
proof -
  from split_keep_parts[OF never_empty_parts assms(1)[unfolded line_parts_def]] obtain u v
    where m: "matched_part parts_regex u p v \<or> plain_part parts_regex u p v" by blast
  have hex: "text_of n = p" if "starts_with p ''#x''" and n: "hex_node p = Some n" for n
    using m
  proof
    assume "matched_part parts_regex u p v"
    then obtain g where "match_here parts_regex (rev u) (p @ v) = Some (p, g, v)" by (auto simp: matched_part_def)
    then have "rmatch parts_regex (rev u) p v" using match_here_Some by blast
    with that(1) have "rmatch hex_regex (rev u) p v" using rmatch_parts_hash by blast
    with n show ?thesis using hex_node_text by fastforce
  next
    assume "plain_part parts_regex u p v"
    with n show ?thesis using plain_part_no_hex by simp
  qed
  have nolabel: "\<not> starts_with p ''block_id=''" "\<not> starts_with p ''offset=''"
    using assms(2) by (auto simp: labels_def simp del: starts_with_def)
  show ?thesis
    unfolding part_node_def using hex
    by (auto simp: nolabel plain_node_def split: option.splits)
qed

text \<open>
  C16: no text of a line is lost or invented: a line without the marks of the special cases (an error, a
  function, a jump) and without a glued label is shown as its own text, whatever parts it is split
  into.
\<close>

theorem Line_shows_content:
  assumes "\<not> js_includes content ''ERROR:''" and "\<not> js_includes content ''Function @''"
    and "\<not> starts_with content ''@''" and "\<not> starts_with content ''  >>''"
    and "\<And>u l v. content = u @ l @ v \<Longrightarrow> l \<in> set labels \<Longrightarrow> u = [] \<or> \<not> is_word (last u)"
  shows "\<exists>e. Line content = Inr e \<and> text_of e = content"
proof -
  have "\<not> regex_test at_function_regex content"
    using assms(3) by (auto simp: regex_test_iff at_function_regex_def rmatch_Seq starts_with_def)
  moreover have "text_of (part_node p) = p" if p: "p \<in> set (line_parts content)" for p
  proof (rule part_node_text[OF p], rule ballI, rule notI)
    fix l assume l: "l \<in> set labels" "starts_with p l"
    then obtain t where t: "p = l @ t" by (auto simp: starts_with_def prefix_def)
    from label_part_context[OF p l] obtain u v where "content = u @ p @ v" "u \<noteq> []" "is_word (last u)" by blast
    with assms(5)[of u l "t @ v"] l t show False by simp
  qed
  then have "concat (map (text_of \<circ> part_node) (line_parts content)) = content"
    using concat_split_keep[of parts_regex content]
    by (metis (mono_tags, lifting) comp_apply line_parts_def map_idI)
  ultimately show ?thesis
    using assms(1-4) by (simp add: Line_def)
qed

text \<open>
  C28: \<^verbatim>\<open>\bblock_id\b\<close> comes before \<^verbatim>\<open>block_id=\d+\<close> in the expression, so a part that starts with \<open>block_id=\<close> or
  \<open>offset=\<close>, which the component would colour, only arises right after a word character. In Alive2's
  pointers, where a label follows a bracket, a comma or a space, the colouring never applies.
\<close>

lemma label_parts_only_glued:
  assumes "p \<in> set (line_parts content)" and "starts_with p ''block_id='' \<or> starts_with p ''offset=''"
  shows "\<exists>u v. content = u @ p @ v \<and> u \<noteq> [] \<and> is_word (last u)"
  using assms(2) label_part_context[OF assms(1)] unfolding labels_def by fastforce

lemmas line_parts_eval = line_parts_def split_keep_def match_here_def parts_regex_def term_regex_def Lit.simps
  Words.simps split_terms_def first_is_word_def js_defs variable_regex_def name_regex_def hex_regex_def
  label_regex_def address_regex_def Opt_def Plus_def is_fn_char_def is_var_char_def not_close_def
  matches.simps(5)

lemma label_parts_only_glued_example:
  "\<exists>u v. ''xoffset=3'' = u @ ''offset=3'' @ v \<and> u \<noteq> [] \<and> is_word (last u)"
  by (rule label_parts_only_glued) (simp_all add: line_parts_eval starts_with_def)

theorem Line_shows_content_witness:
  "\<exists>e. Line ''ptr block_id=1'' = Inr e \<and> text_of e = ''ptr block_id=1''"
proof (rule Line_shows_content)
  fix u l v
  assume "''ptr block_id=1'' = u @ l @ v" and "l \<in> set labels"
  then show "u = [] \<or> \<not> is_word (last u)"
    by (auto simp: labels_def Cons_eq_append_conv js_defs)
qed (simp_all add: starts_with_def)

text \<open>
  The lookup of a part in the table of terms also finds what the table inherits: a part of a line
  that is one of \<^verbatim>\<open>Object.prototype\<close>'s names is rendered with a tooltip whose content is a function or
  an object instead of a text.
\<close>

lemma inherited_terms:
  "(\<exists>t. term_lookup part = Some t \<and> (\<forall>s. t \<noteq> TextContent s)) \<longleftrightarrow>
     part \<in> set (''__proto__'' # prototype_functions)"
proof -
  have "\<forall>x \<in> set (''__proto__'' # prototype_functions). map_of technicalTerms x = None" by code_simp
  moreover have "''__proto__'' \<notin> set prototype_functions" by (simp add: prototype_functions_def)
  ultimately show ?thesis by (cases "map_of technicalTerms part") (auto simp: term_lookup_def)
qed

text \<open>
  So an object is what a tooltip shows only in a line that has \<open>__proto__\<close> in it.
\<close>

lemma text_child_tips [simp]: "concat (map tips_of (text_child x)) = []"
  by (cases x) simp_all

lemma part_node_object: "ObjectContent \<in> set (tips_of (part_node part)) \<Longrightarrow> part = ''__proto__''"
  by (auto simp: part_node_def term_tooltip_def term_lookup_def label_node_def Let_def hex_node_def plain_node_def
      split: option.splits if_splits prod.splits)

lemma function_line_tips: "ObjectContent \<notin> set (tips_of (function_line content name))"
  by (auto simp: function_line_def)

lemma error_line_tips: "error_line content = Inr n \<Longrightarrow> ObjectContent \<notin> set (tips_of n)"
  by (auto simp: error_line_def Let_def error_highlight_def and_then_Inr split: if_splits)

lemma Line_object_tip:
  assumes "Line content = Inr n" and "ObjectContent \<in> set (tips_of n)"
  shows "js_includes content ''__proto__''"
proof -
  have "''__proto__'' \<in> set (line_parts content)"
    using assms function_line_tips error_line_tips part_node_object
    by (fastforce simp: Line_def jump_line_def split: if_splits option.splits)
  moreover have "concat (line_parts content) = content" by (simp add: line_parts_def concat_split_keep)
  ultimately obtain u v where "content = u @ ''__proto__'' @ v" by (metis concat.simps(2) concat_append split_list)
  then show ?thesis by (auto simp: js_includes_sublist sublist_def)
qed

end
