(* ===== verification/VerifierOutput.thy ===== *)
theory VerifierOutput
  imports Prelude "HOL-Library.Multiset"
begin

text \<open>
  \<^verbatim>\<open>formatVerifierOutput\<close> of \<^verbatim>\<open>src/components/LLVMIRModal.tsx\<close>: the scan that files each line of the
  verifier's output under a section of the result panel. The reports it scans are printed by
  Alive2's comparison driver (\<^verbatim>\<open>alive2_snapshot/llvm_util/compare.cpp\<close>), modelled by
  \<open>print_report\<close>; the lemmas show that no line is lost, duplicated, reordered or made up, and that
  the scan reads a report back into its parts.
\<close>

section \<open>The sections and the scan\<close>

datatype section_key =
    S_main | S_source | S_target | S_error | S_alive2_source | S_alive2_target | S_example | S_ub_warning

text \<open>The sections can be enumerated, so sums and quantifiers over them compute.\<close>

instantiation section_key :: enum
begin

definition enum_section_key :: "section_key list" where
  "enum_section_key =
     [S_main, S_source, S_target, S_error, S_alive2_source, S_alive2_target, S_example, S_ub_warning]"

definition enum_all_section_key :: "(section_key \<Rightarrow> bool) \<Rightarrow> bool" where
  "enum_all_section_key P \<longleftrightarrow> list_all P
     [S_main, S_source, S_target, S_error, S_alive2_source, S_alive2_target, S_example, S_ub_warning]"

definition enum_ex_section_key :: "(section_key \<Rightarrow> bool) \<Rightarrow> bool" where
  "enum_ex_section_key P \<longleftrightarrow> list_ex P
     [S_main, S_source, S_target, S_error, S_alive2_source, S_alive2_target, S_example, S_ub_warning]"

instance
proof
  have ex: "k \<in> set enum_class.enum" for k :: section_key
    by (cases k) (simp_all add: enum_section_key_def)
  then show "(UNIV :: section_key set) = set enum_class.enum" by blast
  show "distinct (enum_class.enum :: section_key list)"
    by (simp add: enum_section_key_def)
  show "enum_class.enum_all P \<longleftrightarrow> Ball UNIV P" for P :: "section_key \<Rightarrow> bool"
    using ex unfolding enum_all_section_key_def enum_section_key_def[symmetric] by (auto simp: list_all_iff)
  show "enum_class.enum_ex P \<longleftrightarrow> Bex UNIV P" for P :: "section_key \<Rightarrow> bool"
    using ex unfolding enum_ex_section_key_def enum_section_key_def[symmetric] by (auto simp: list_ex_iff)
qed

end

record ValidationSections =
  lines_of :: "section_key \<Rightarrow> string list"
  success :: bool

record scan =
  filed :: "section_key \<Rightarrow> string list"
  currentSection :: section_key
  inAlive2Section :: bool
  inUBWarningSection :: bool

definition alive2_rule :: string where
  "alive2_rule = replicate 40 (CHR ''-'')"

definition ub_rule :: string where
  "ub_rule = replicate 40 (CHR ''*'')"

text \<open>\<^verbatim>\<open>sections[k].push(line)\<close>\<close>

definition push :: "section_key \<Rightarrow> string \<Rightarrow> scan \<Rightarrow> scan" where
  "push k line st = st\<lparr>filed := (filed st)(k := filed st k @ [line])\<rparr>"

text \<open>The body of the loop over the lines; an early \<^verbatim>\<open>return\<close> of the callback is a branch.\<close>

definition process_line :: "scan \<Rightarrow> string \<Rightarrow> scan" where
  "process_line st line =
    (if starts_with line alive2_rule
     then st\<lparr>inAlive2Section := True, currentSection := S_alive2_source\<rparr>
     else if starts_with line ''=>'' then st\<lparr>currentSection := S_alive2_target\<rparr>
     else if line = ''ERROR: Timeout'' then push S_error line st
     else if starts_with line ''Transformation''
     then st\<lparr>inAlive2Section := False, currentSection := S_main\<rparr>
     else if starts_with line ''Example:'' then st\<lparr>currentSection := S_example\<rparr>
     else if line = ub_rule then st\<lparr>inUBWarningSection := \<not> inUBWarningSection st\<rparr>
     else if inUBWarningSection st then push S_ub_warning line st
     else if inAlive2Section st then push (currentSection st) line st
     else if starts_with line ''ERROR:'' then push S_error line (st\<lparr>currentSection := S_error\<rparr>)
     else if starts_with line ''Source:'' then st\<lparr>currentSection := S_source\<rparr>
     else if starts_with line ''Target:'' then st\<lparr>currentSection := S_target\<rparr>
     else if starts_with line ''SOURCE MEMORY STATE''
     then push (currentSection st) line (push S_source [newline] st)
     else if starts_with line ''TARGET MEMORY STATE''
     then push (currentSection st) line (push S_target [newline] st)
     else push (currentSection st) line st)"

definition scan_start :: scan where
  "scan_start = \<lparr>filed = (\<lambda>_. []), currentSection = S_main, inAlive2Section = False,
     inUBWarningSection = False\<rparr>"

definition CORRECT :: string where
  "CORRECT = ''Transformation seems to be correct!''"

definition formatVerifierOutput :: "string \<Rightarrow> ValidationSections" where
  "formatVerifierOutput output =
     \<lparr>lines_of = filed (foldl process_line scan_start (split output [newline])),
      success = js_includes output CORRECT\<rparr>"

section \<open>What Alive2 prints\<close>

text \<open>
  The verdicts of \<^verbatim>\<open>Verifier::compareFunctions\<close>. A counterexample has the lines of its parts as
  \<^verbatim>\<open>transform.cpp\<close> and \<^verbatim>\<open>errors.cpp\<close> write them: a blank line closes each part but the last.
\<close>

record counterexample =
  message :: string
  inputs :: "string list"
  source_state :: "string list"
  target_state :: "string list"

datatype verdict =
    Correct
  | SyntacticallyEqual
  | TypeCheckFailed
  | Unsound counterexample
  | FailedToProve string

record report =
  source_ir :: "string list"
  target_ir :: "string list"
  warnings :: "string list"
  verdict :: verdict

fun print_counterexample :: "counterexample \<Rightarrow> string list" where
  "print_counterexample c =
     [''ERROR: '' @ message c, [], ''Example:''] @ inputs c @ [[], ''Source:''] @ source_state c
     @ [[], ''Target:''] @ target_state c"

fun print_verdict :: "verdict \<Rightarrow> string list" where
  "print_verdict Correct = [CORRECT, [], []]"
| "print_verdict SyntacticallyEqual = [CORRECT @ '' (syntactically equal)'', [], []]"
| "print_verdict TypeCheckFailed =
     [''Transformation doesn'' @ [CHR 0x27] @ ''t verify!'',
      ''ERROR: program doesn'' @ [CHR 0x27] @ ''t type check!'', [], []]"
| "print_verdict (Unsound c) =
     [''Transformation doesn'' @ [CHR 0x27] @ ''t verify!'', []] @ print_counterexample c @ [[], []]"
| "print_verdict (FailedToProve m) = [''ERROR: '' @ m, [], []]"

definition print_warning :: "string \<Rightarrow> string list" where
  "print_warning w = [[], ub_rule, ''WARNING: '' @ w, ub_rule, []]"

definition print_report :: "report \<Rightarrow> string list" where
  "print_report r = [[], alive2_rule] @ source_ir r @ [''=>''] @ target_ir r
     @ concat (map print_warning (warnings r)) @ print_verdict (verdict r)"

section \<open>Markers and plain lines\<close>

text \<open>The lines the scan consumes, whatever its state; the other markers are read outside the Alive2 part only.\<close>

definition control_line :: "string \<Rightarrow> bool" where
  "control_line l \<longleftrightarrow> starts_with l alive2_rule \<or> starts_with l ''=>'' \<or> starts_with l ''Transformation''
     \<or> starts_with l ''Example:'' \<or> l = ub_rule"

definition marker :: "string \<Rightarrow> bool" where
  "marker l \<longleftrightarrow> control_line l \<or> starts_with l ''Source:'' \<or> starts_with l ''Target:''"

definition ir_line :: "string \<Rightarrow> bool" where
  "ir_line l \<longleftrightarrow> newline \<notin> set l \<and> \<not> control_line l \<and> l \<noteq> ''ERROR: Timeout''"

definition state_line :: "string \<Rightarrow> bool" where
  "state_line l \<longleftrightarrow> ir_line l \<and> \<not> marker l \<and> \<not> starts_with l ''ERROR:''
     \<and> \<not> starts_with l ''SOURCE MEMORY STATE'' \<and> \<not> starts_with l ''TARGET MEMORY STATE''"

section \<open>No line is lost, duplicated, reordered or made up\<close>

text \<open>
  A log of the pushes: the section and the text, in order. \<open>filing L\<close> is the sections they leave,
  \<open>texts L\<close> the lines they file (a separator is not a line of the output).
\<close>

definition filing :: "(section_key \<times> string) list \<Rightarrow> section_key \<Rightarrow> string list" where
  "filing L k = map snd (filter (\<lambda>p. fst p = k) L)"

definition texts :: "(section_key \<times> string) list \<Rightarrow> string list" where
  "texts L = filter (\<lambda>l. l \<noteq> [newline]) (map snd L)"

lemma filing_append [simp]: "filing (L @ M) k = filing L k @ filing M k"
  by (simp add: filing_def)

lemma texts_append [simp]: "texts (L @ M) = texts L @ texts M"
  by (simp add: texts_def)

lemma filed_push [simp]: "filed (push k l st) = (filed st)(k := filed st k @ [l])"
  by (simp add: push_def)

lemma push_other [simp]:
  "currentSection (push k l st) = currentSection st"
  "inAlive2Section (push k l st) = inAlive2Section st"
  "inUBWarningSection (push k l st) = inUBWarningSection st"
  by (simp_all add: push_def)

definition placed :: "scan \<Rightarrow> string \<Rightarrow> (section_key \<times> string) list" where
  "placed st line =
    (if starts_with line alive2_rule \<or> starts_with line ''=>'' then []
     else if line = ''ERROR: Timeout'' then [(S_error, line)]
     else if starts_with line ''Transformation'' \<or> starts_with line ''Example:'' \<or> line = ub_rule then []
     else if inUBWarningSection st then [(S_ub_warning, line)]
     else if inAlive2Section st then [(currentSection st, line)]
     else if starts_with line ''ERROR:'' then [(S_error, line)]
     else if starts_with line ''Source:'' \<or> starts_with line ''Target:'' then []
     else if starts_with line ''SOURCE MEMORY STATE'' then [(S_source, [newline]), (currentSection st, line)]
     else if starts_with line ''TARGET MEMORY STATE'' then [(S_target, [newline]), (currentSection st, line)]
     else [(currentSection st, line)])"

lemma filing_simps [simp]:
  "filing [] k = []"
  "filing (p # L) k = (if fst p = k then snd p # filing L k else filing L k)"
  by (simp_all add: filing_def)

lemma filed_process_line: "filed (process_line st line) k = filed st k @ filing (placed st line) k"
  by (simp add: process_line_def placed_def)

lemma texts_simps [simp]:
  "texts [] = []"
  "texts (p # L) = (if snd p = [newline] then texts L else snd p # texts L)"
  by (simp_all add: texts_def)

lemma if_prop: "(c \<Longrightarrow> P a) \<Longrightarrow> (\<not> c \<Longrightarrow> P b) \<Longrightarrow> P (if c then a else b)"
  by simp

lemma texts_placed:
  assumes "newline \<notin> set line"
  shows "texts (placed st line) = [line] \<or> texts (placed st line) = [] \<and> marker line"
    (is "?P (placed st line)")
proof -
  from assms have "line \<noteq> [newline]" by auto
  then show ?thesis
    unfolding placed_def
    by (intro if_prop [where P = ?P]) (auto simp: marker_def control_line_def)
qed

lemma scan_log:
  assumes "\<forall>l \<in> set ls. newline \<notin> set l"
  shows "\<exists>L D. filed (foldl process_line st ls) = (\<lambda>k. filed st k @ filing L k)
     \<and> subseq (texts L) ls \<and> mset ls = mset (texts L) + mset D \<and> (\<forall>d \<in> set D. marker d)"
  using assms
proof (induction ls arbitrary: st)
  case Nil
  show ?case by (intro exI[of _ "[]"]) (simp add: filing_def texts_def)
next
  case (Cons l ls)
  let ?P = "placed st l"
  from Cons.prems have t: "texts ?P = [l] \<or> texts ?P = [] \<and> marker l" by (simp add: texts_placed)
  from Cons.prems Cons.IH[of "process_line st l"] obtain L D where
    L: "filed (foldl process_line (process_line st l) ls) = (\<lambda>k. filed (process_line st l) k @ filing L k)"
    and r: "subseq (texts L) ls" "mset ls = mset (texts L) + mset D" "\<forall>d \<in> set D. marker d"
    by auto
  from t show ?case
  proof
    assume "texts ?P = [l]"
    with r show ?thesis
      by (intro exI[of _ "?P @ L"] exI[of _ D]) (simp add: L filed_process_line)
  next
    assume "texts ?P = [] \<and> marker l"
    with r show ?thesis
      by (intro exI[of _ "?P @ L"] exI[of _ "l # D"]) (simp add: L filed_process_line list_emb_Cons)
  qed
qed

lemma split_lines_free: "l \<in> set (split s [d]) \<Longrightarrow> d \<notin> set l"
  by (auto simp: split_def dest: split_char_free)

text \<open>Where the lines of a section come from.\<close>

lemma filed_lines_from:
  "l \<in> set (filed (foldl process_line st ls) k) \<Longrightarrow> l \<in> set (filed st k) \<or> l \<in> set ls \<or> l = [newline]"
proof (induction ls arbitrary: st)
  case (Cons x xs)
  have "set (filing (placed st x) k) \<subseteq> {x, [newline]}"
    unfolding placed_def by (intro if_prop [where P = "\<lambda>L. set (filing L k) \<subseteq> {x, [newline]}"]) simp_all
  moreover from Cons.IH[of "process_line st x"] Cons.prems
  have "l \<in> set (filed st k) \<or> l \<in> set (filing (placed st x) k) \<or> l \<in> set xs \<or> l = [newline]"
    by (auto simp: filed_process_line simp del: split_paired_All)
  ultimately show ?case by auto
qed simp

lemma sections_from_output:
  "l \<in> set (lines_of (formatVerifierOutput out) k) \<Longrightarrow> l \<in> set (split out [newline]) \<or> l = [newline]"
  using filed_lines_from[of l scan_start "split out [newline]" k] by (simp add: formatVerifierOutput_def scan_start_def)

text \<open>
  C17: every line of the output is filed under exactly one section, once and in the output's order,
  or it is one of the markers the scan consumes; what else the sections hold are the line breaks put
  before the memory states.
\<close>

theorem formatVerifierOutput_partition:
  "\<exists>L D. (\<forall>k. lines_of (formatVerifierOutput out) k = filing L k) \<and>
     subseq (texts L) (split out [newline]) \<and>
     mset (split out [newline]) = mset (texts L) + mset D \<and> (\<forall>d \<in> set D. marker d)"
proof -
  have "\<forall>l \<in> set (split out [newline]). newline \<notin> set l" by (auto dest: split_lines_free)
  from scan_log[OF this, of scan_start] show ?thesis
    by (auto simp: formatVerifierOutput_def scan_start_def)
qed

theorem formatVerifierOutput_partition_witness:
  "\<exists>L D. (\<forall>k. lines_of (formatVerifierOutput ''ERROR: x'') k = filing L k) \<and>
     mset [''ERROR: x''] = mset (texts L) + mset D"
  using formatVerifierOutput_partition[of "''ERROR: x''"] by (simp add: split_def) blast

section \<open>Reading a report back\<close>

text \<open>A run of lines that no branch of the scan treats specially goes to the current section.\<close>

definition file_all :: "string list \<Rightarrow> scan \<Rightarrow> scan" where
  "file_all ls st = st\<lparr>filed := (filed st)(currentSection st := filed st (currentSection st) @ ls)\<rparr>"

lemma file_all_simps [simp]:
  "currentSection (file_all ls st) = currentSection st"
  "inAlive2Section (file_all ls st) = inAlive2Section st"
  "inUBWarningSection (file_all ls st) = inUBWarningSection st"
  "filed (file_all ls st) = (filed st)(currentSection st := filed st (currentSection st) @ ls)"
  "file_all [] st = st"
  by (simp_all add: file_all_def)

lemma file_all_append: "file_all (ls @ ms) st = file_all ms (file_all ls st)"
  by (simp add: file_all_def)

lemma file_all_Cons: "file_all ls (file_all [l] st) = file_all (l # ls) st"
  by (simp add: file_all_def)

lemma file_all_Cons2: "file_all ls (file_all [k, l] st) = file_all (k # l # ls) st"
  by (simp add: file_all_def)

lemma push_file_all: "push (currentSection st) l st = file_all [l] st"
  by (simp add: push_def file_all_def)

lemma process_ir_line:
  "ir_line l \<Longrightarrow> inAlive2Section st \<Longrightarrow> \<not> inUBWarningSection st \<Longrightarrow> process_line st l = file_all [l] st"
  by (simp add: process_line_def ir_line_def control_line_def push_file_all)

lemma scan_ir_lines:
  "\<forall>l \<in> set ls. ir_line l \<Longrightarrow> inAlive2Section st \<Longrightarrow> \<not> inUBWarningSection st \<Longrightarrow>
     foldl process_line st ls = file_all ls st"
  by (induction ls arbitrary: st) (simp_all add: process_ir_line file_all_Cons)

text \<open>
  Outside the Alive2 part, the lines of a counterexample. A memory state's header gets a line break
  of its own before it, in the section of its program.
\<close>

definition separated :: "string \<Rightarrow> string list \<Rightarrow> string list" where
  "separated header ls = concat (map (\<lambda>l. if starts_with l header then [[newline], l] else [l]) ls)"

definition SOURCE_MEMORY :: string where
  "SOURCE_MEMORY = ''SOURCE MEMORY STATE''"

definition TARGET_MEMORY :: string where
  "TARGET_MEMORY = ''TARGET MEMORY STATE''"

definition memory_line :: "string \<Rightarrow> string \<Rightarrow> bool" where
  "memory_line header l \<longleftrightarrow> newline \<notin> set l \<and> starts_with l header"

lemma separated_simps [simp]:
  "separated h [] = []"
  "separated h (l # ls) = (if starts_with l h then [[newline], l] else [l]) @ separated h ls"
  by (simp_all add: separated_def)

lemma process_state_line:
  "state_line l \<Longrightarrow> \<not> inAlive2Section st \<Longrightarrow> \<not> inUBWarningSection st \<Longrightarrow> process_line st l = file_all [l] st"
  by (simp add: process_line_def state_line_def ir_line_def marker_def control_line_def push_file_all)

lemma starts_with_clash: "starts_with l a \<Longrightarrow> \<not> prefix a b \<Longrightarrow> \<not> prefix b a \<Longrightarrow> \<not> starts_with l b"
  unfolding starts_with_def using prefix_same_cases by blast

lemma memory_not_marker:
  assumes "starts_with l h" and "h = SOURCE_MEMORY \<or> h = TARGET_MEMORY"
  shows "\<not> marker l" and "l \<noteq> ''ERROR: Timeout''" and "\<not> starts_with l ''ERROR:''"
proof -
  have "\<not> starts_with l b" if "b \<in> {alive2_rule, ''=>'', ''Transformation'', ''Example:'', ub_rule, ''Source:'',
      ''Target:'', ''ERROR:''}" for b
  proof
    assume "starts_with l b"
    with assms(1) have "prefix h b \<or> prefix b h" by (auto simp: starts_with_def dest: prefix_same_cases)
    with assms(2) that show False
      by (auto simp: SOURCE_MEMORY_def TARGET_MEMORY_def alive2_rule_def ub_rule_def numeral_eq_Suc)
  qed
  note no = this
  have "l \<noteq> ub_rule" using no[of ub_rule] by (auto simp: starts_with_def)
  then show "\<not> marker l" by (simp add: marker_def control_line_def no)
  show "\<not> starts_with l ''ERROR:''" by (simp add: no)
  then show "l \<noteq> ''ERROR: Timeout''" by (auto simp: starts_with_def)
qed

lemma process_memory_line:
  assumes "starts_with l h" and "\<not> inAlive2Section st" and "\<not> inUBWarningSection st"
    and "h = SOURCE_MEMORY \<and> currentSection st = S_source \<or> h = TARGET_MEMORY \<and> currentSection st = S_target"
  shows "process_line st l = file_all [[newline], l] st"
proof -
  from assms(4) have "h = SOURCE_MEMORY \<or> h = TARGET_MEMORY" by blast
  note nm = memory_not_marker[OF assms(1) this]
  have "\<not> starts_with l SOURCE_MEMORY" if "h = TARGET_MEMORY"
    using assms(1) that starts_with_clash[of l h SOURCE_MEMORY]
    by (simp add: SOURCE_MEMORY_def TARGET_MEMORY_def)
  with nm assms show ?thesis
    by (auto simp: process_line_def marker_def control_line_def push_def file_all_def
        SOURCE_MEMORY_def TARGET_MEMORY_def)
qed

lemma scan_state_lines:
  assumes "\<forall>l \<in> set ls. state_line l \<or> memory_line h l" and "\<not> inAlive2Section st" and "\<not> inUBWarningSection st"
    and "h = SOURCE_MEMORY \<and> currentSection st = S_source \<or> h = TARGET_MEMORY \<and> currentSection st = S_target"
  shows "foldl process_line st ls = file_all (separated h ls) st"
  using assms
proof (induction ls arbitrary: st)
  case (Cons l ls)
  show ?case
  proof (cases "starts_with l h")
    case True
    with Cons show ?thesis
      by (simp add: process_memory_line[of l h] file_all_Cons2)
  next
    case False
    with Cons.prems(1) have "state_line l" by (auto simp: memory_line_def)
    with False Cons show ?thesis by (simp add: process_state_line file_all_Cons)
  qed
qed simp

lemma scan_plain_state_lines:
  "\<forall>l \<in> set ls. state_line l \<Longrightarrow> \<not> inAlive2Section st \<Longrightarrow> \<not> inUBWarningSection st \<Longrightarrow>
     foldl process_line st ls = file_all ls st"
  by (induction ls arbitrary: st) (simp_all add: process_state_line file_all_Cons)

text \<open>The fixed lines of a report.\<close>

lemma process_blank: "\<not> inUBWarningSection st \<Longrightarrow> process_line st [] = file_all [[]] st"
  by (simp add: process_line_def starts_with_def alive2_rule_def ub_rule_def push_file_all)

lemma process_alive2_rule:
  "process_line st alive2_rule = st\<lparr>inAlive2Section := True, currentSection := S_alive2_source\<rparr>"
  by (simp add: process_line_def starts_with_def)

lemma process_arrow: "process_line st ''=>'' = st\<lparr>currentSection := S_alive2_target\<rparr>"
  by (simp add: process_line_def starts_with_def alive2_rule_def numeral_eq_Suc)

lemma process_Transformation:
  "process_line st (''Transformation'' @ x) = st\<lparr>inAlive2Section := False, currentSection := S_main\<rparr>"
  by (simp add: process_line_def starts_with_def alive2_rule_def numeral_eq_Suc)

lemma process_Example: "process_line st ''Example:'' = st\<lparr>currentSection := S_example\<rparr>"
  by (simp add: process_line_def starts_with_def alive2_rule_def numeral_eq_Suc)

lemma process_Source:
  "\<not> inAlive2Section st \<Longrightarrow> \<not> inUBWarningSection st \<Longrightarrow>
     process_line st ''Source:'' = st\<lparr>currentSection := S_source\<rparr>"
  by (simp add: process_line_def starts_with_def alive2_rule_def ub_rule_def numeral_eq_Suc)

lemma process_Target:
  "\<not> inAlive2Section st \<Longrightarrow> \<not> inUBWarningSection st \<Longrightarrow>
     process_line st ''Target:'' = st\<lparr>currentSection := S_target\<rparr>"
  by (simp add: process_line_def starts_with_def alive2_rule_def ub_rule_def numeral_eq_Suc)

lemma process_ERROR:
  "m \<noteq> ''Timeout'' \<Longrightarrow> \<not> inAlive2Section st \<Longrightarrow> \<not> inUBWarningSection st \<Longrightarrow>
     process_line st (''ERROR: '' @ m) = file_all [''ERROR: '' @ m] (st\<lparr>currentSection := S_error\<rparr>)"
  by (simp add: process_line_def starts_with_def alive2_rule_def ub_rule_def numeral_eq_Suc push_def file_all_def)

lemma process_ERROR_alive2:
  "m \<noteq> ''Timeout'' \<Longrightarrow> inAlive2Section st \<Longrightarrow> \<not> inUBWarningSection st \<Longrightarrow>
     process_line st (''ERROR: '' @ m) = file_all [''ERROR: '' @ m] st"
  by (simp add: process_line_def starts_with_def alive2_rule_def ub_rule_def numeral_eq_Suc push_def file_all_def)

lemma process_Timeout: "process_line st ''ERROR: Timeout'' = push S_error ''ERROR: Timeout'' st"
  by (simp add: process_line_def starts_with_def alive2_rule_def numeral_eq_Suc)

lemma process_ub_rule:
  "process_line st ub_rule = st\<lparr>inUBWarningSection := \<not> inUBWarningSection st\<rparr>"
  by (simp add: process_line_def starts_with_def alive2_rule_def ub_rule_def numeral_eq_Suc)

lemma process_WARNING:
  "inUBWarningSection st \<Longrightarrow> process_line st (''WARNING: '' @ w) = push S_ub_warning (''WARNING: '' @ w) st"
  by (simp add: process_line_def starts_with_def alive2_rule_def ub_rule_def numeral_eq_Suc)

lemmas process_fixed =
  process_blank process_alive2_rule process_arrow process_Transformation process_Example process_Source
  process_Target process_ERROR process_ERROR_alive2 process_Timeout process_ub_rule process_WARNING

lemmas process_fixed_Cons = process_fixed [simplified append_Cons append_Nil]

definition warned :: "string list \<Rightarrow> scan \<Rightarrow> scan" where
  "warned ws st = st\<lparr>filed := (filed st)(
     currentSection st := filed st (currentSection st) @ concat (map (\<lambda>_. [[], []]) ws),
     S_ub_warning := filed st S_ub_warning @ map (\<lambda>w. ''WARNING: '' @ w) ws)\<rparr>"

lemma scan_warning:
  "\<not> inUBWarningSection st \<Longrightarrow> currentSection st \<noteq> S_ub_warning \<Longrightarrow>
     foldl process_line st (print_warning w) = warned [w] st"
  by (simp add: print_warning_def process_fixed_Cons warned_def push_def file_all_def fun_upd_twist)

lemma scan_warnings:
  "\<not> inUBWarningSection st \<Longrightarrow> currentSection st \<noteq> S_ub_warning \<Longrightarrow>
     foldl process_line st (concat (map print_warning ws)) = warned ws st"
proof (induction ws arbitrary: st)
  case Nil
  then show ?case by (simp add: warned_def)
next
  case (Cons w ws)
  then have "foldl process_line st (concat (map print_warning (w # ws))) = warned ws (warned [w] st)"
    by (simp add: scan_warning) (simp add: warned_def)
  also have "\<dots> = warned (w # ws) st"
    using Cons.prems by (simp add: warned_def fun_upd_twist)
  finally show ?case .
qed

text \<open>The reports the scan is made for, and the sections it should make of one.\<close>

definition wf_counterexample :: "counterexample \<Rightarrow> bool" where
  "wf_counterexample c \<longleftrightarrow> newline \<notin> set (message c) \<and> message c \<noteq> ''Timeout''
     \<and> (\<forall>l \<in> set (inputs c). state_line l)
     \<and> (\<forall>l \<in> set (source_state c). state_line l \<or> memory_line SOURCE_MEMORY l)
     \<and> (\<forall>l \<in> set (target_state c). state_line l \<or> memory_line TARGET_MEMORY l)"

fun wf_verdict :: "verdict \<Rightarrow> bool" where
  "wf_verdict (Unsound c) = wf_counterexample c"
| "wf_verdict (FailedToProve m) = (newline \<notin> set m)"
| "wf_verdict _ = True"

definition wf_report :: "report \<Rightarrow> bool" where
  "wf_report r \<longleftrightarrow> (\<forall>l \<in> set (source_ir r). ir_line l) \<and> (\<forall>l \<in> set (target_ir r). ir_line l)
     \<and> (\<forall>w \<in> set (warnings r). newline \<notin> set w) \<and> wf_verdict (verdict r)"

fun is_correct :: "verdict \<Rightarrow> bool" where
  "is_correct Correct = True"
| "is_correct SyntacticallyEqual = True"
| "is_correct _ = False"

definition program_parts :: "report \<Rightarrow> section_key \<Rightarrow> string list" where
  "program_parts r = (\<lambda>_. [])(S_main := [[]], S_alive2_source := source_ir r,
     S_alive2_target := target_ir r @ concat (map (\<lambda>_. [[], []]) (warnings r)),
     S_ub_warning := map (\<lambda>w. ''WARNING: '' @ w) (warnings r))"

fun verdict_parts :: "verdict \<Rightarrow> section_key \<Rightarrow> string list" where
  "verdict_parts (Unsound c) = (\<lambda>_. [])(S_main := [[]], S_error := [''ERROR: '' @ message c, []],
     S_example := inputs c @ [[]], S_source := separated SOURCE_MEMORY (source_state c) @ [[]],
     S_target := separated TARGET_MEMORY (target_state c) @ [[], []])"
| "verdict_parts TypeCheckFailed = (\<lambda>_. [])(S_error :=
     [''ERROR: program doesn'' @ [CHR 0x27] @ ''t type check!'', [], []])"
| "verdict_parts (FailedToProve m) =
     (if m = ''Timeout'' then (\<lambda>_. [])(S_error := [''ERROR: Timeout''], S_alive2_target := [[], []])
      else (\<lambda>_. [])(S_alive2_target := [''ERROR: '' @ m, [], []]))"
| "verdict_parts _ = (\<lambda>_. [])(S_main := [[], []])"

lemma scan_program:
  assumes "wf_report r"
  shows "foldl process_line scan_start (print_report r) =
     foldl process_line \<lparr>filed = program_parts r, currentSection = S_alive2_target,
       inAlive2Section = True, inUBWarningSection = False\<rparr> (print_verdict (verdict r))"
  using assms
  by (simp add: print_report_def wf_report_def process_fixed scan_ir_lines scan_warnings scan_start_def)
     (simp add: file_all_def warned_def program_parts_def fun_upd_twist)

lemma scan_counterexample:
  assumes "wf_counterexample c" and "\<not> inAlive2Section st" and "\<not> inUBWarningSection st"
  shows "filed (foldl process_line st (print_counterexample c @ [[], []])) =
     (filed st)(S_error := filed st S_error @ [''ERROR: '' @ message c, []],
       S_example := filed st S_example @ inputs c @ [[]],
       S_source := filed st S_source @ separated SOURCE_MEMORY (source_state c) @ [[]],
       S_target := filed st S_target @ separated TARGET_MEMORY (target_state c) @ [[], []])"
  using assms unfolding wf_counterexample_def print_counterexample.simps
  by (simp add: process_fixed_Cons scan_plain_state_lines scan_state_lines[where h = SOURCE_MEMORY]
      scan_state_lines[where h = TARGET_MEMORY])

lemma scan_verdict:
  assumes "wf_verdict v" and "inAlive2Section st" and "\<not> inUBWarningSection st"
    and "currentSection st = S_alive2_target"
  shows "filed (foldl process_line st (print_verdict v)) k = filed st k @ verdict_parts v k"
proof (cases v)
  case (Unsound c)
  let ?st = "file_all [[]] (st\<lparr>inAlive2Section := False, currentSection := S_main\<rparr>)"
  have "foldl process_line st (print_verdict v) = foldl process_line ?st (print_counterexample c @ [[], []])"
    using assms by (simp add: Unsound process_fixed_Cons del: print_counterexample.simps)
  moreover have "filed (foldl process_line ?st (print_counterexample c @ [[], []])) =
     (filed ?st)(S_error := filed ?st S_error @ [''ERROR: '' @ message c, []],
       S_example := filed ?st S_example @ inputs c @ [[]],
       S_source := filed ?st S_source @ separated SOURCE_MEMORY (source_state c) @ [[]],
       S_target := filed ?st S_target @ separated TARGET_MEMORY (target_state c) @ [[], []])"
    using assms by (intro scan_counterexample) (simp_all add: Unsound)
  ultimately show ?thesis by (simp add: Unsound)
next
  case TypeCheckFailed
  then show ?thesis
    using assms process_fixed_Cons(8)[of "''program doesn'' @ [CHR 0x27] @ ''t type check!''"]
    by (simp add: process_fixed_Cons)
next
  case (FailedToProve m)
  then show ?thesis using assms by (auto simp: process_fixed_Cons)
qed (use assms in \<open>simp_all add: CORRECT_def process_fixed_Cons\<close>)

lemma line_kinds_newline_free:
  "ir_line l \<Longrightarrow> newline \<notin> set l" "state_line l \<Longrightarrow> newline \<notin> set l" "memory_line h l \<Longrightarrow> newline \<notin> set l"
  by (simp_all add: ir_line_def state_line_def memory_line_def)

lemma newline_free_verdict:
  assumes "wf_verdict v"
  shows "\<forall>l \<in> set (print_verdict v). newline \<notin> set l"
proof (cases v)
  case (Unsound c)
  have "newline \<notin> set l" if "l \<in> set (inputs c) \<union> set (source_state c) \<union> set (target_state c)" for l
    using assms that line_kinds_newline_free unfolding Unsound wf_verdict.simps wf_counterexample_def by blast
  with assms show ?thesis by (simp add: Unsound wf_counterexample_def ball_Un)
qed (use assms in \<open>simp_all add: CORRECT_def\<close>)

lemma newline_free_report:
  assumes "wf_report r" and "l \<in> set (print_report r)"
  shows "newline \<notin> set l"
proof -
  have w: "newline \<notin> set l" if "l \<in> set (print_warning w)" "newline \<notin> set w" for w
    using that by (auto simp: print_warning_def ub_rule_def)
  have f: "newline \<notin> set alive2_rule" "newline \<notin> set ''=>''" by (simp_all add: alive2_rule_def)
  from assms(2) consider "l = []" | "l = alive2_rule" | "l = ''=>''" | "l \<in> set (source_ir r) \<union> set (target_ir r)"
    | x where "x \<in> set (warnings r)" "l \<in> set (print_warning x)" | "l \<in> set (print_verdict (verdict r))"
    unfolding print_report_def by auto
  then show ?thesis
    using assms(1) f w newline_free_verdict line_kinds_newline_free(1)
    by cases (auto simp: wf_report_def)
qed

lemma print_report_not_Nil: "print_report r \<noteq> []"
  by (simp add: print_report_def)

lemma correct_report_includes: "is_correct (verdict r) \<Longrightarrow> \<exists>l \<in> set (print_report r). js_includes l CORRECT"
  using js_includes_append[of CORRECT CORRECT "[]"]
  by (cases "verdict r") (auto simp: print_report_def)

lemma split_report: "wf_report r \<Longrightarrow> split (join [newline] (print_report r)) [newline] = print_report r"
  using newline_free_report by (intro split_join_char print_report_not_Nil) blast

lemma sections_of_report:
  assumes "wf_report r"
  shows "lines_of (formatVerifierOutput (join [newline] (print_report r))) k =
     program_parts r k @ verdict_parts (verdict r) k"
proof -
  from assms have "wf_verdict (verdict r)" by (simp add: wf_report_def)
  then show ?thesis
    by (simp add: formatVerifierOutput_def split_report[OF assms] scan_program[OF assms] scan_verdict)
qed

lemma success_of_report:
  assumes "is_correct (verdict r) \<or> (\<forall>l \<in> set (print_report r). \<not> js_includes l CORRECT)"
  shows "success (formatVerifierOutput (join [newline] (print_report r))) \<longleftrightarrow> is_correct (verdict r)"
proof -
  have "newline \<notin> set CORRECT" by (simp add: CORRECT_def)
  from js_includes_join[OF print_report_not_Nil this] show ?thesis
    using assms correct_report_includes[of r] by (auto simp: formatVerifierOutput_def)
qed

text \<open>
  C7: reading back a report. For a report as Alive2 prints it, with program and state lines that are
  not themselves markers, the panel's sections are exactly the report's parts: the two programs, the
  undefined-behaviour warnings, the error message, the example, the two program states with their
  memory headers set apart; and success is shown exactly when the verdict is that the transformation
  is correct.
\<close>

theorem formatVerifierOutput_report:
  assumes "wf_report r"
    and "is_correct (verdict r) \<or> (\<forall>l \<in> set (print_report r). \<not> js_includes l CORRECT)"
  shows "lines_of (formatVerifierOutput (join [newline] (print_report r))) k =
           program_parts r k @ verdict_parts (verdict r) k \<and>
         (success (formatVerifierOutput (join [newline] (print_report r))) \<longleftrightarrow> is_correct (verdict r))"
  using sections_of_report[OF assms(1)] success_of_report[OF assms(2)] by blast

definition sample_report :: report where
  "sample_report = \<lparr>source_ir = [''define i32 @_Z3add() {'', ''}''], target_ir = [''define i32 @_ZN3add() {'', ''}''],
     warnings = [''Source function is always UB''],
     verdict = Unsound \<lparr>message = ''Source is more defined than target'', inputs = [''i32 %a = #x0''],
       source_state = [''i32 %r = #x0'', '''', ''SOURCE MEMORY STATE''], target_state = [''Function @panic triggered UB'']\<rparr>\<rparr>"

theorem formatVerifierOutput_report_witness:
  "lines_of (formatVerifierOutput (join [newline] (print_report sample_report))) S_source =
     [''i32 %r = #x0'', '''', [newline], ''SOURCE MEMORY STATE'', '''']"
proof -
  note [simp] = wf_counterexample_def state_line_def ir_line_def marker_def control_line_def memory_line_def
    starts_with_def alive2_rule_def ub_rule_def SOURCE_MEMORY_def TARGET_MEMORY_def numeral_eq_Suc
  have wf: "wf_report sample_report" by (simp add: wf_report_def sample_report_def)
  have "\<forall>l \<in> set (print_report sample_report). \<not> js_includes l CORRECT"
    by (simp add: print_report_def sample_report_def CORRECT_def print_warning_def)
  with formatVerifierOutput_report[OF wf, of S_source] show ?thesis
    by (simp add: program_parts_def sample_report_def)
qed

text \<open>
  An error Alive2 reports without a verdict line, other than a timeout, is not shown as an
  error: the scan is still in the Alive2 part, so the message ends up among the lines of the
  target program and the error section stays empty.
\<close>

lemma failed_proof_message_misfiled:
  assumes "wf_report r" and "verdict r = FailedToProve m" and "m \<noteq> ''Timeout''"
  shows "lines_of (formatVerifierOutput (join [newline] (print_report r))) S_error = [] \<and>
         ''ERROR: '' @ m \<in> set (lines_of (formatVerifierOutput (join [newline] (print_report r))) S_alive2_target)"
  using assms by (simp add: sections_of_report program_parts_def)

lemma failed_proof_message_misfiled_example:
  "lines_of (formatVerifierOutput (join [newline] (print_report
     \<lparr>source_ir = [''}''], target_ir = [''}''], warnings = [], verdict = FailedToProve ''SMT Error''\<rparr>))) S_error = []"
proof -
  have "wf_report \<lparr>source_ir = [''}''], target_ir = [''}''], warnings = [], verdict = FailedToProve ''SMT Error''\<rparr>"
    by (simp add: wf_report_def ir_line_def control_line_def starts_with_def alive2_rule_def ub_rule_def numeral_eq_Suc)
  from failed_proof_message_misfiled[OF this] show ?thesis by simp
qed

end
