(* ===== verification/IRModal.thy ===== *)
theory IRModal
  imports LineView VerifierOutput
begin

text \<open>
  The modal of \<^verbatim>\<open>src/components/LLVMIRModal.tsx\<close>: the two IR panels, the state of the validation, the
  sections of the verifier's output line by line, and the effects that should keep the scroll position.
  A line that throws makes the render throw.
\<close>

section \<open>The panels of the verifier's output\<close>

record panel =
  panel_title :: string
  panel_tip :: string
  panel_lines :: "node list"

fun render_lines :: "string list \<Rightarrow> thrown + node list" where
  "render_lines [] = Inr []"
| "render_lines (l # ls) = and_then (Line l) (\<lambda>n. and_then (render_lines ls) (\<lambda>ns. Inr (n # ns)))"

text \<open>\<^verbatim>\<open>sections.x.length > 0 && ...\<close>\<close>

definition section_panel :: "string \<Rightarrow> string \<Rightarrow> string list \<Rightarrow> thrown + panel list" where
  "section_panel title tip ls =
     (if ls = [] then Inr []
      else and_then (render_lines ls) (\<lambda>ns. Inr [\<lparr>panel_title = title, panel_tip = tip, panel_lines = ns\<rparr>]))"

fun panels_in_order :: "(thrown + panel list) list \<Rightarrow> thrown + panel list" where
  "panels_in_order [] = Inr []"
| "panels_in_order (p # ps) = and_then p (\<lambda>x. and_then (panels_in_order ps) (\<lambda>xs. Inr (x @ xs)))"

definition or_none :: "string list \<Rightarrow> string list" where
  "or_none ls = map (\<lambda>l. if l = [] \<and> length ls = 1 then ''(None)'' else l) ls"

definition ValidationOutput :: "ValidationSections \<Rightarrow> thrown + panel list" where
  "ValidationOutput sections = panels_in_order
     ([section_panel ''Source C++ Program'' ''The original C++ program converted to Alive2 IR form''
         (lines_of sections S_alive2_source),
       section_panel ''Translated Rust Program'' ''The translated Rust program converted to Alive2 IR form''
         (lines_of sections S_alive2_target),
       section_panel ''Undefined Behavior Detected'' ''Undefined Behavior Detected For The Original C++ Program''
         (lines_of sections S_ub_warning)]
      @ (if success sections then [] else
      [section_panel ''Error Message'' ''The counterexample used to justify the failure of the translation''
         (lines_of sections S_error),
       section_panel ''Counterexample'' ''The counterexample used to justify the failure of the translation''
         (or_none (lines_of sections S_example)),
       section_panel ''Source Program State'' ''The state of the source program that leads to verification failure''
         (or_none (lines_of sections S_source)),
       section_panel ''Target Program State'' ''The state of the target program that leads to verification failure''
         (or_none (lines_of sections S_target))]))"

section \<open>The modal\<close>

datatype ir_panel = IREditor jprim | GeneratingIR

definition IRDisplay :: "jprim \<Rightarrow> jprim \<Rightarrow> ir_panel list" where
  "IRDisplay cpp rust = map (\<lambda>v. if truthy v then IREditor v else GeneratingIR) [cpp, rust]"

text \<open>\<^verbatim>\<open>output.includes(...)\<close>, the first use of the output, on a value that may not be a string\<close>

fun verifier_text :: "jprim \<Rightarrow> thrown + string" where
  "verifier_text Undefined = Inl (read_error ''undefined'' ''includes'')"
| "verifier_text Null = Inl (read_error ''null'' ''includes'')"
| "verifier_text (Str s) = Inr s"
| "verifier_text _ = Inl (ErrorObject ''output.includes is not a function'')"

text \<open>What is under the IR panels: the spinner, nothing, or the verdict with the copyable output and its panels.\<close>

datatype modal_status = Validating | NoVerdict | Verdict bool jprim "panel list"

definition result_view :: "body \<Rightarrow> thrown + modal_status" where
  "result_view b =
     (if \<not> truthy_body b then Inr NoVerdict
      else and_then (get_field b ''success'') (\<lambda>v.
           and_then (get_field b ''verifier_output'') (\<lambda>out.
           and_then (verifier_text out) (\<lambda>text.
           and_then (ValidationOutput (formatVerifierOutput text)) (\<lambda>ps. Inr (Verdict (truthy v) out ps))))))"

definition render_modal :: "bool \<Rightarrow> jprim \<Rightarrow> jprim \<Rightarrow> body option \<Rightarrow> bool \<Rightarrow> thrown + (ir_panel list \<times> modal_status) option" where
  "render_modal isOpen cpp rust validationResult isValidating =
     (if \<not> isOpen then Inr None
      else and_then (if isValidating then Inr Validating
                     else case validationResult of None \<Rightarrow> Inr NoVerdict | Some b \<Rightarrow> result_view b)
             (\<lambda>st. Inr (Some (IRDisplay cpp rust, st))))"

text \<open>The contents of the tooltips under the verdict.\<close>

definition panel_tips :: "panel \<Rightarrow> content list" where
  "panel_tips p = TextContent (panel_tip p) # concat (map tips_of (panel_lines p))"

fun status_tips :: "modal_status \<Rightarrow> content list" where
  "status_tips (Verdict v out ps) = concat (map panel_tips ps)"
| "status_tips _ = []"

section \<open>When the modal throws\<close>

lemma render_lines_Inl: "(\<exists>t. render_lines ls = Inl t) \<longleftrightarrow> (\<exists>l \<in> set ls. crash_line l)"
proof (induction ls)
  case (Cons l ls)
  then show ?case using Line_crashes[of l]
    by (cases "Line l"; cases "render_lines ls") auto
qed simp

lemma section_panel_Inl: "(\<exists>t. section_panel a b ls = Inl t) \<longleftrightarrow> (\<exists>l \<in> set ls. crash_line l)"
  using render_lines_Inl[of ls] by (auto simp: section_panel_def and_then_Inl)

lemma panels_in_order_Inl: "(\<exists>t. panels_in_order ps = Inl t) \<longleftrightarrow> (\<exists>p \<in> set ps. \<exists>t. p = Inl t)"
proof (induction ps)
  case (Cons p ps)
  then show ?case by (cases p; cases "panels_in_order ps") auto
qed simp

lemma crash_plain: "\<not> crash_line []" "\<not> crash_line ''(None)''" "\<not> crash_line [c]"
  by (auto simp: crash_line_def)

lemma or_none_crash: "(\<exists>l \<in> set (or_none ls). crash_line l) \<longleftrightarrow> (\<exists>l \<in> set ls. crash_line l)"
  by (auto simp: or_none_def crash_plain)

definition shown_sections :: "ValidationSections \<Rightarrow> section_key list" where
  "shown_sections sections = [S_alive2_source, S_alive2_target, S_ub_warning]
     @ (if success sections then [] else [S_error, S_example, S_source, S_target])"

lemma ValidationOutput_Inl:
  "(\<exists>t. ValidationOutput sections = Inl t) \<longleftrightarrow>
     (\<exists>k \<in> set (shown_sections sections). \<exists>l \<in> set (lines_of sections k). crash_line l)"
  unfolding ValidationOutput_def panels_in_order_Inl
  by (auto simp: section_panel_Inl or_none_crash shown_sections_def)

lemma result_view_Inl:
  "(\<exists>t. result_view b = Inl t) \<longleftrightarrow>
     truthy_body b \<and> (\<forall>text. get_field b ''verifier_output'' = Inr (Str text) \<longrightarrow>
       (\<exists>k \<in> set (shown_sections (formatVerifierOutput text)).
          \<exists>l \<in> set (lines_of (formatVerifierOutput text) k). crash_line l))"
proof (cases b)
  case (ObjectBody fs)
  show ?thesis
  proof (cases "field_of fs ''verifier_output''")
    case (Str s)
    with ObjectBody ValidationOutput_Inl[of "formatVerifierOutput s"] show ?thesis
      by (auto simp: result_view_def and_then_Inl simp del: field_of.simps)
  qed (simp_all add: ObjectBody result_view_def and_then_Inl del: field_of.simps)
qed (auto simp: result_view_def)
text \<open>
  C18: when the modal cannot be rendered: it is open, no validation is running, and the result it is given has no text
  as verifier output, or one of the lines in a section it shows makes the line renderer throw. In all other
  states, closed, waiting or with any other result, it renders.
\<close>

theorem modal_throws_iff:
  "(\<exists>t. render_modal isOpen cpp rust res validating = Inl t) \<longleftrightarrow>
     isOpen \<and> \<not> validating \<and> (\<exists>b. res = Some b \<and> truthy_body b \<and>
       (\<forall>text. get_field b ''verifier_output'' = Inr (Str text) \<longrightarrow>
         (\<exists>k \<in> set (shown_sections (formatVerifierOutput text)).
            \<exists>l \<in> set (lines_of (formatVerifierOutput text) k). crash_line l)))"
  using result_view_Inl by (cases res) (auto simp: render_modal_def and_then_Inl)

theorem modal_throws_iff_witness:
  "\<exists>t. render_modal True (Str ''x'') (Str ''y'') (Some (ObjectBody [(''success'', Bool True)])) False = Inl t"
  by (subst modal_throws_iff) simp

section \<open>The tooltips of the modal\<close>

text \<open>The lines in the panels are lines of the sections, so only one with \<open>__proto__\<close> in it has an object in a tooltip.\<close>

definition lines_from :: "string set \<Rightarrow> panel list \<Rightarrow> bool" where
  "lines_from L ps \<longleftrightarrow> (\<forall>p \<in> set ps. \<forall>n \<in> set (panel_lines p). \<exists>l \<in> L. Line l = Inr n)"

lemma render_lines_from: "render_lines ls = Inr ns \<Longrightarrow> n \<in> set ns \<Longrightarrow> \<exists>l \<in> set ls. Line l = Inr n"
  by (induction ls arbitrary: ns) (auto simp: and_then_Inr)

lemma section_panel_from: "section_panel a b ls = Inr ps \<Longrightarrow> set ls \<subseteq> L \<Longrightarrow> lines_from L ps"
  using render_lines_from by (fastforce simp: section_panel_def lines_from_def and_then_Inr split: if_splits)

lemma panels_in_order_from:
  "panels_in_order ps = Inr xs \<Longrightarrow> (\<And>p x. p \<in> set ps \<Longrightarrow> p = Inr x \<Longrightarrow> lines_from L x) \<Longrightarrow> lines_from L xs"
proof (induction ps arbitrary: xs)
  case (Cons p ps)
  from Cons.prems(1) obtain x y where p: "p = Inr x" and y: "panels_in_order ps = Inr y" "xs = x @ y"
    by (auto simp: and_then_Inr)
  have "lines_from L x" using Cons.prems(2) p by simp
  moreover have "lines_from L y" using Cons.IH[OF y(1)] Cons.prems(2) by simp
  ultimately show ?case by (auto simp: y(2) lines_from_def)
qed (simp add: lines_from_def)

lemma or_none_subset: "set (or_none ls) \<subseteq> insert ''(None)'' (set ls)"
  by (auto simp: or_none_def)

lemma ValidationOutput_from:
  assumes "ValidationOutput sections = Inr ps"
  shows "lines_from (insert ''(None)'' (\<Union>k. set (lines_of sections k))) ps"
proof -
  let ?L = "insert ''(None)'' (\<Union>k. set (lines_of sections k))"
  have plain: "set (lines_of sections k) \<subseteq> ?L" for k by blast
  have none: "set (or_none (lines_of sections k)) \<subseteq> ?L" for k using or_none_subset[of "lines_of sections k"] plain[of k] by blast
  show ?thesis
    using assms unfolding ValidationOutput_def
    by (rule panels_in_order_from) (use section_panel_from[OF _ plain] section_panel_from[OF _ none] in \<open>auto split: if_splits\<close>)
qed

lemma result_tips:
  assumes "result_view b = Inr st" and "ObjectContent \<in> set (status_tips st)"
  shows "\<exists>m k. get_field b ''verifier_output'' = Inr (Str m) \<and>
     (\<exists>l \<in> set (lines_of (formatVerifierOutput m) k). js_includes l ''__proto__'')"
proof -
  from assms(2) obtain v out ps where st: "st = Verdict v out ps" by (cases st) auto
  with assms(1) obtain m where out: "get_field b ''verifier_output'' = Inr out" "verifier_text out = Inr m"
    and ps: "ValidationOutput (formatVerifierOutput m) = Inr ps"
    by (auto simp: result_view_def and_then_Inr split: if_splits)
  from out(2) have "out = Str m" by (cases out) auto
  from assms(2) obtain p n where n: "p \<in> set ps" "n \<in> set (panel_lines p)" "ObjectContent \<in> set (tips_of n)"
    by (auto simp: st panel_tips_def)
  with ValidationOutput_from[OF ps] obtain l where
    l: "Line l = Inr n" "l \<in> insert ''(None)'' (\<Union>k. set (lines_of (formatVerifierOutput m) k))"
    unfolding lines_from_def by blast
  from Line_object_tip[OF l(1) n(3)] l(2) have "\<exists>k. l \<in> set (lines_of (formatVerifierOutput m) k)" by auto
  with Line_object_tip[OF l(1) n(3)] out(1) \<open>out = Str m\<close> show ?thesis by blast
qed

lemma render_lines_mem: "render_lines ls = Inr ns \<Longrightarrow> l \<in> set ls \<Longrightarrow> Line l = Inr n \<Longrightarrow> n \<in> set ns"
  by (induction ls arbitrary: ns) (auto simp: and_then_Inr)

lemma panels_head: "panels_in_order (p # ps) = Inr xs \<Longrightarrow> \<exists>a. p = Inr a \<and> set a \<subseteq> set xs"
  by (auto simp: and_then_Inr)

lemma source_panel_tips:
  assumes "result_view b = Inr st" and "get_field b ''verifier_output'' = Inr (Str m)" and "truthy_body b"
    and "l \<in> set (lines_of (formatVerifierOutput m) S_alive2_source)"
  shows "TextContent ''The original C++ program converted to Alive2 IR form'' \<in> set (status_tips st) \<and>
     (\<forall>n tip. Line l = Inr n \<and> tip \<in> set (tips_of n) \<longrightarrow> tip \<in> set (status_tips st))"
proof -
  from assms(1-3) obtain v ps where st: "st = Verdict v (Str m) ps" and ps: "ValidationOutput (formatVerifierOutput m) = Inr ps"
    by (auto simp: result_view_def and_then_Inr)
  let ?ls = "lines_of (formatVerifierOutput m) S_alive2_source"
  from panels_head[OF ps[unfolded ValidationOutput_def append_Cons]] obtain a where
    a: "section_panel ''Source C++ Program'' ''The original C++ program converted to Alive2 IR form'' ?ls = Inr a"
    "set a \<subseteq> set ps" by blast
  from assms(4) have "?ls \<noteq> []" by auto
  with a(1) obtain ns where ns: "render_lines ?ls = Inr ns"
    "a = [\<lparr>panel_title = ''Source C++ Program'', panel_tip = ''The original C++ program converted to Alive2 IR form'', panel_lines = ns\<rparr>]"
    by (auto simp: section_panel_def and_then_Inr)
  then have "set (panel_tips (a ! 0)) \<subseteq> set (status_tips st)" using a(2) by (auto simp: st)
  moreover have "n \<in> set ns" if "Line l = Inr n" for n using render_lines_mem[OF ns(1) assms(4) that] .
  ultimately show ?thesis by (auto simp: ns(2) panel_tips_def)
qed

section \<open>The panels of a report\<close>

lemma render_lines_Inr: "\<forall>l \<in> set ls. \<not> crash_line l \<Longrightarrow> \<exists>ns. render_lines ls = Inr ns \<and> length ns = length ls"
proof (induction ls)
  case (Cons l ls)
  moreover from Cons.prems Line_crashes[of l] obtain n where "Line l = Inr n" by (cases "Line l") auto
  ultimately show ?case by auto
qed simp

lemma section_panel_titles:
  "\<forall>l \<in> set ls. \<not> crash_line l \<Longrightarrow>
     \<exists>ps. section_panel a b ls = Inr ps \<and> map panel_title ps = (if ls = [] then [] else [a])"
  using render_lines_Inr[of ls] by (auto simp: section_panel_def)

definition titled :: "thrown + panel list \<Rightarrow> string list \<Rightarrow> bool" where
  "titled p ts \<longleftrightarrow> (\<exists>xs. p = Inr xs \<and> map panel_title xs = ts)"

lemma panels_in_order_titles: "list_all2 titled ps tss \<Longrightarrow> titled (panels_in_order ps) (concat tss)"
proof (induction rule: list_all2_induct)
  case (Cons p ps ts tss)
  then show ?case by (auto simp: titled_def)
qed (simp add: titled_def)

definition title_of :: "section_key \<Rightarrow> string" where
  "title_of k = (case k of
     S_alive2_source \<Rightarrow> ''Source C++ Program'' | S_alive2_target \<Rightarrow> ''Translated Rust Program''
   | S_ub_warning \<Rightarrow> ''Undefined Behavior Detected'' | S_error \<Rightarrow> ''Error Message''
   | S_example \<Rightarrow> ''Counterexample'' | S_source \<Rightarrow> ''Source Program State''
   | S_target \<Rightarrow> ''Target Program State'' | S_main \<Rightarrow> '''')"

lemma or_none_Nil [simp]: "or_none ls = [] \<longleftrightarrow> ls = []"
  by (simp add: or_none_def)

lemma ValidationOutput_titles:
  assumes "\<forall>k \<in> set (shown_sections sections). \<forall>l \<in> set (lines_of sections k). \<not> crash_line l"
  shows "\<exists>ps. ValidationOutput sections = Inr ps \<and>
     map panel_title ps = map title_of (filter (\<lambda>k. lines_of sections k \<noteq> []) (shown_sections sections))"
proof -
  let ?t = "\<lambda>k. if lines_of sections k = [] then [] else [title_of k]"
  have plain: "titled (section_panel (title_of k) b (lines_of sections k)) (?t k)"
    if "k \<in> set (shown_sections sections)" for k b
    using section_panel_titles assms that by (simp add: titled_def)
  have none: "titled (section_panel (title_of k) b (or_none (lines_of sections k))) (?t k)"
    if "k \<in> set (shown_sections sections)" for k b
    using section_panel_titles[of "or_none (lines_of sections k)"] or_none_crash[of "lines_of sections k"] assms that
    unfolding titled_def by fastforce
  note base = plain[of S_alive2_source] plain[of S_alive2_target] plain[of S_ub_warning]
  note failed = plain[of S_error] none[of S_example] none[of S_source] none[of S_target]
  have "titled (ValidationOutput sections) (concat (map ?t (shown_sections sections)))"
  proof (cases "success sections")
    case True
    then show ?thesis unfolding ValidationOutput_def using base
      by (intro panels_in_order_titles) (simp add: shown_sections_def title_of_def)
  next
    case False
    then show ?thesis unfolding ValidationOutput_def using base failed
      by (intro panels_in_order_titles) (simp add: shown_sections_def title_of_def)
  qed
  moreover have "concat (map ?t ks) = map title_of (filter (\<lambda>k. lines_of sections k \<noteq> []) ks)" for ks
    by (induction ks) auto
  ultimately show ?thesis by (simp add: titled_def)
qed

fun verdict_titles :: "verdict \<Rightarrow> string list" where
  "verdict_titles (Unsound c) = [''Error Message'', ''Counterexample'', ''Source Program State'', ''Target Program State'']"
| "verdict_titles TypeCheckFailed = [''Error Message'']"
| "verdict_titles (FailedToProve m) = (if m = ''Timeout'' then [''Error Message''] else [])"
| "verdict_titles _ = []"

lemma report_lines_plain:
  assumes "wf_report r" and "\<forall>l \<in> set (print_report r). \<not> crash_line l"
    and "l \<in> set (lines_of (formatVerifierOutput (join [newline] (print_report r))) k)"
  shows "\<not> crash_line l"
  using sections_from_output[OF assms(3)] assms(2) split_report[OF assms(1)] crash_plain by auto

lemma report_sections_titles:
  assumes "wf_report r" and "source_ir r \<noteq> []" and "target_ir r \<noteq> []"
    and "success sections = is_correct (verdict r)"
    and "\<And>k. lines_of sections k = program_parts r k @ verdict_parts (verdict r) k"
  shows "map title_of (filter (\<lambda>k. lines_of sections k \<noteq> []) (shown_sections sections)) =
     [''Source C++ Program'', ''Translated Rust Program'']
     @ (if warnings r = [] then [] else [''Undefined Behavior Detected'']) @ verdict_titles (verdict r)"
  using assms(2-4) unfolding shown_sections_def
  by (cases "verdict r") (simp_all add: assms(5) program_parts_def title_of_def)

text \<open>
  C19: what the modal shows of a report: the two programs, the undefined-behaviour warnings when there are
  some, and then, for a counterexample, the error, the example and both program states, for a failed
  type check or a timeout the error, and nothing more for a correct transformation. An error of any
  other kind gets no error panel.
\<close>

theorem report_panels:
  assumes "wf_report r" and "source_ir r \<noteq> []" and "target_ir r \<noteq> []"
    and "is_correct (verdict r) \<or> (\<forall>l \<in> set (print_report r). \<not> js_includes l CORRECT)"
    and "\<forall>l \<in> set (print_report r). \<not> crash_line l"
    and "get_field b ''verifier_output'' = Inr (Str (join [newline] (print_report r)))"
  shows "\<exists>v ps. result_view b = Inr (Verdict v (Str (join [newline] (print_report r))) ps) \<and>
     map panel_title ps = [''Source C++ Program'', ''Translated Rust Program'']
       @ (if warnings r = [] then [] else [''Undefined Behavior Detected'']) @ verdict_titles (verdict r)"
proof -
  let ?sections = "formatVerifierOutput (join [newline] (print_report r))"
  have "\<forall>k \<in> set (shown_sections ?sections). \<forall>l \<in> set (lines_of ?sections k). \<not> crash_line l"
    using report_lines_plain[OF assms(1,5)] by blast
  from ValidationOutput_titles[OF this] obtain ps where ps: "ValidationOutput ?sections = Inr ps"
    "map panel_title ps = map title_of (filter (\<lambda>k. lines_of ?sections k \<noteq> []) (shown_sections ?sections))" by blast
  from assms(6) obtain fs where b: "b = ObjectBody fs" by (cases b) auto
  from report_sections_titles[OF assms(1-3) success_of_report[OF assms(4)] sections_of_report[OF assms(1)]] ps
  show ?thesis using assms(6) by (simp add: b result_view_def del: field_of.simps)
qed

definition timeout_report :: report where
  "timeout_report = \<lparr>source_ir = [''ret''], target_ir = [''ret''], warnings = [], verdict = FailedToProve ''Timeout''\<rparr>"

theorem report_panels_witness:
  "\<exists>v ps. result_view (ObjectBody [(''verifier_output'', Str (join [newline] (print_report timeout_report)))]) =
       Inr (Verdict v (Str (join [newline] (print_report timeout_report))) ps) \<and>
     map panel_title ps = [''Source C++ Program'', ''Translated Rust Program'', ''Error Message'']"
proof -
  let ?b = "ObjectBody [(''verifier_output'', Str (join [newline] (print_report timeout_report)))]"
  note [simp] = print_report_def timeout_report_def starts_with_def alive2_rule_def ub_rule_def numeral_eq_Suc
  have "wf_report timeout_report" by (simp add: wf_report_def ir_line_def control_line_def)
  moreover have "\<forall>l \<in> set (print_report timeout_report). \<not> js_includes l CORRECT" by (simp add: CORRECT_def)
  moreover have "\<forall>l \<in> set (print_report timeout_report). \<not> crash_line l" by (simp add: crash_line_def)
  moreover have "get_field ?b ''verifier_output'' = Inr (Str (join [newline] (print_report timeout_report)))"
    by (simp del: print_report_def)
  ultimately have "\<exists>v ps. result_view ?b = Inr (Verdict v (Str (join [newline] (print_report timeout_report))) ps) \<and>
     map panel_title ps = [''Source C++ Program'', ''Translated Rust Program'']
       @ (if warnings timeout_report = [] then [] else [''Undefined Behavior Detected'']) @ verdict_titles (verdict timeout_report)"
    by (intro report_panels) (simp_all del: print_report_def)
  then show ?thesis by (simp del: print_report_def)
qed

section \<open>The scroll position\<close>

text \<open>
  The state behind the two scroll effects: the scroll offset of the container while there is one,
  whether the listener of the first effect is attached to it, the saved position and the result the
  second effect last saw (results are told apart by a number). The first effect runs once, when the
  component is mounted.
\<close>

record scroll_state =
  container :: "nat option"
  listening :: bool
  scrollPosition :: nat
  seen_result :: nat

definition restore_scroll :: "scroll_state \<Rightarrow> scroll_state" where
  "restore_scroll s = (case container s of None \<Rightarrow> s | Some y \<Rightarrow> s\<lparr>container := Some (scrollPosition s)\<rparr>)"

definition mount_modal :: "bool \<Rightarrow> nat \<Rightarrow> scroll_state" where
  "mount_modal isOpen res = restore_scroll
     \<lparr>container = (if isOpen then Some 0 else None), listening = isOpen, scrollPosition = 0, seen_result = res\<rparr>"

definition rerender_modal :: "bool \<Rightarrow> nat \<Rightarrow> scroll_state \<Rightarrow> scroll_state" where
  "rerender_modal isOpen res s =
     (let s1 = s\<lparr>container := (if \<not> isOpen then None else case container s of None \<Rightarrow> Some 0 | Some y \<Rightarrow> Some y),
                 listening := listening s \<and> isOpen\<rparr> in
      if res = seen_result s then s1 else (restore_scroll s1)\<lparr>seen_result := res\<rparr>)"

definition handleScroll :: "nat \<Rightarrow> scroll_state \<Rightarrow> scroll_state" where
  "handleScroll y s =
     (if listening s then
        (if y = scrollPosition s then s else restore_scroll (s\<lparr>scrollPosition := y\<rparr>)) else s)"

datatype scroll_event = ModalRender bool nat | UserScroll nat

inductive scroll_step :: "scroll_state \<Rightarrow> scroll_event \<Rightarrow> scroll_state \<Rightarrow> bool" where
  modal_render: "scroll_step s (ModalRender isOpen res) (rerender_modal isOpen res s)"
| user_scroll: "container s \<noteq> None \<Longrightarrow> scroll_step s (UserScroll y) (handleScroll y (s\<lparr>container := Some y\<rparr>))"

inductive_simps scroll_step_iff: "scroll_step s (ModalRender isOpen res) t" "scroll_step s (UserScroll y) t"

lemma scroll_never_saved_step: "scroll_step s e t \<Longrightarrow> \<not> listening s \<and> scrollPosition s = 0 \<Longrightarrow> \<not> listening t \<and> scrollPosition t = 0"
  by (induction rule: scroll_step.induct)
     (auto simp: rerender_modal_def handleScroll_def restore_scroll_def Let_def split: option.splits)

interpretation scroll_machine: invariant_machine scroll_step "mount_modal False res"
  "\<lambda>s. \<not> listening s \<and> scrollPosition s = 0" for res
  by unfold_locales (auto simp: mount_modal_def restore_scroll_def dest: scroll_never_saved_step)

text \<open>
  The scroll position is never saved: the form mounts the modal closed, where the first effect finds
  no container and attaches nothing, and it does not run again. So wherever the user has scrolled, the
  next result scrolls the open modal back to the top.
\<close>

lemma scroll_position_lost:
  assumes "steps scroll_step (mount_modal False res) es s"
  shows "\<not> listening s \<and> scrollPosition s = 0 \<and>
     (new \<noteq> seen_result s \<longrightarrow> container (rerender_modal True new s) = Some 0)"
  using scroll_machine.inv_reachable[OF assms]
  by (auto simp: rerender_modal_def restore_scroll_def Let_def split: option.splits)

lemma scroll_position_lost_example:
  "\<exists>s. steps scroll_step (mount_modal False 0) [ModalRender True 0, UserScroll 120] s \<and> container s = Some 120 \<and>
     container (rerender_modal True 1 s) = Some 0"
proof -
  obtain s where s: "steps scroll_step (mount_modal False 0) [ModalRender True 0, UserScroll 120] s" "container s = Some 120" "seen_result s = 0"
    by (simp add: steps_Cons_iff scroll_step_iff mount_modal_def rerender_modal_def restore_scroll_def handleScroll_def)
  from scroll_position_lost[OF s(1), of 1] s show ?thesis by auto
qed

section \<open>Two components that nothing uses\<close>

text \<open>
  \<^verbatim>\<open>TooltipWrapper\<close> is the tooltip with a mark on its children. \<^verbatim>\<open>TooltipPortal\<close> renders nothing until its effect has put an
  element at the end of the body; then its tooltip is in that element, until the cleanup takes the element away.
\<close>

definition TooltipWrapper :: "string \<Rightarrow> node list \<Rightarrow> node" where
  "TooltipWrapper tooltip children = Tip (TextContent tooltip) [Span ''cursor-help border-b border-dotted border-gray-400'' children]"

text \<open>The elements with the class \<^verbatim>\<open>tooltip-portal\<close> in the body, in order, and the \<^verbatim>\<open>portalElement\<close> of each instance.\<close>

record portals =
  portal_elements :: "nat list"
  created :: nat
  portalElement :: "nat \<rightharpoonup> nat"

definition no_portals :: portals where
  "no_portals = \<lparr>portal_elements = [], created = 0, portalElement = Map.empty\<rparr>"

definition portal_effect :: "nat \<Rightarrow> portals \<Rightarrow> portals" where
  "portal_effect k s = s\<lparr>portal_elements := portal_elements s @ [created s], created := Suc (created s),
     portalElement := (portalElement s)(k \<mapsto> created s)\<rparr>"

definition portal_cleanup :: "nat \<Rightarrow> portals \<Rightarrow> portals" where
  "portal_cleanup k s =
     (case portalElement s k of
        None \<Rightarrow> s
      | Some el \<Rightarrow> s\<lparr>portal_elements := remove1 el (portal_elements s), portalElement := (portalElement s)(k := None)\<rparr>)"

definition TooltipPortal :: "string \<Rightarrow> node list \<Rightarrow> nat option \<Rightarrow> (nat \<times> node) option" where
  "TooltipPortal content children el = map_option (\<lambda>d. (d, Tip (TextContent content) children)) el"

datatype portal_event = PortalMounts nat | PortalUnmounts nat

inductive portal_step :: "portals \<Rightarrow> portal_event \<Rightarrow> portals \<Rightarrow> bool" where
  portal_mounts: "portalElement s k = None \<Longrightarrow> portal_step s (PortalMounts k) (portal_effect k s)"
| portal_unmounts: "portalElement s k = Some el \<Longrightarrow> portal_step s (PortalUnmounts k) (portal_cleanup k s)"

text \<open>Every element belongs to one mounted instance: what is rendered is in the body, and nothing is left behind.\<close>

definition portals_inv :: "portals \<Rightarrow> bool" where
  "portals_inv s \<longleftrightarrow> distinct (portal_elements s) \<and>
     (\<forall>d. d \<in> set (portal_elements s) \<longleftrightarrow> (\<exists>k. portalElement s k = Some d)) \<and>
     (\<forall>j k d. portalElement s j = Some d \<longrightarrow> portalElement s k = Some d \<longrightarrow> j = k) \<and>
     (\<forall>k d. portalElement s k = Some d \<longrightarrow> d < created s)"

lemma portals_inv_step: "portal_step s e t \<Longrightarrow> portals_inv s \<Longrightarrow> portals_inv t"
proof (induction rule: portal_step.induct)
  case (portal_mounts s k)
  then have new: "created s \<notin> set (portal_elements s)" "portalElement s j \<noteq> Some (created s)" for j
    by (fastforce simp: portals_inv_def)+
  show ?case
    unfolding portals_inv_def
  proof (intro conjI allI impI)
    show "distinct (portal_elements (portal_effect k s))"
      using portal_mounts(2) new by (simp add: portals_inv_def portal_effect_def)
    fix d
    show "d \<in> set (portal_elements (portal_effect k s)) \<longleftrightarrow> (\<exists>j. portalElement (portal_effect k s) j = Some d)"
      using portal_mounts by (auto simp: portals_inv_def portal_effect_def) (metis option.distinct(1))
  next
    fix i j d assume "portalElement (portal_effect k s) i = Some d" "portalElement (portal_effect k s) j = Some d"
    with portal_mounts(2) new show "i = j" by (auto simp: portals_inv_def portal_effect_def split: if_splits)
  next
    fix j d assume "portalElement (portal_effect k s) j = Some d"
    with portal_mounts(2) show "d < created (portal_effect k s)"
      by (auto simp: portals_inv_def portal_effect_def less_Suc_eq split: if_splits)
  qed
next
  case (portal_unmounts s k el)
  then have only: "portalElement s j = Some el \<Longrightarrow> j = k" for j by (auto simp: portals_inv_def)
  have t: "portal_elements (portal_cleanup k s) = remove1 el (portal_elements s)"
    "portalElement (portal_cleanup k s) = (portalElement s)(k := None)" "created (portal_cleanup k s) = created s"
    using portal_unmounts(1) by (simp_all add: portal_cleanup_def)
  show ?case
    unfolding portals_inv_def t
  proof (intro conjI allI impI)
    show "distinct (remove1 el (portal_elements s))" using portal_unmounts(2) by (simp add: portals_inv_def)
    fix d
    show "d \<in> set (remove1 el (portal_elements s)) \<longleftrightarrow> (\<exists>j. ((portalElement s)(k := None)) j = Some d)"
      using portal_unmounts only by (auto simp: portals_inv_def) (metis option.inject)
  qed (use portal_unmounts(2) in \<open>auto simp: portals_inv_def split: if_splits\<close>)
qed

interpretation portal_machine: invariant_machine portal_step no_portals portals_inv
  by unfold_locales (simp add: portals_inv_def no_portals_def, rule portals_inv_step)

lemma portals_leave_nothing:
  assumes "steps portal_step no_portals es s" and "portalElement s = Map.empty"
  shows "portal_elements s = []"
  using portal_machine.inv_reachable[OF assms(1)] assms(2) by (cases "portal_elements s") (auto simp: portals_inv_def)

end
