(* ===== verification/CodeEditor.thy ===== *)
theory CodeEditor
  imports LineView
begin

text \<open>
  \<^verbatim>\<open>src/components/CodeEditor.tsx\<close>: the wrapper around the Monaco editor. Monaco is not part of the
  program; it appears as the registry the component writes to (languages, token rules, hover providers,
  themes). Modelled are the change handler, the set-up on mount, the token rules and the hover provider
  it installs, and what it renders.
\<close>

section \<open>Token rules and theme\<close>

definition is_alnum_under :: "char \<Rightarrow> bool" where
  "is_alnum_under c \<longleftrightarrow> is_word c"

definition is_variable_char :: "char \<Rightarrow> bool" where
  "is_variable_char c \<longleftrightarrow> is_word c \<or> c = CHR ''#''"

definition not_newline :: "char \<Rightarrow> bool" where
  "not_newline c \<longleftrightarrow> c \<noteq> newline \<and> c \<noteq> CHR 0x0D"

definition whole_word :: "string list \<Rightarrow> regex" where
  "whole_word ws = Seq WordBoundary (Seq (Group 1 (Words ws)) WordBoundary)"

definition llvm_keywords :: "string list" where
  "llvm_keywords =
     [''define'', ''declare'', ''align'', ''alloc'', ''type'', ''ret'', ''br'', ''switch'', ''invoke'', ''resume'',
      ''unreachable'', ''add'', ''sub'', ''mul'', ''div'', ''rem'', ''and'', ''or'', ''xor'', ''shl'', ''lshr'',
      ''ashr'', ''icmp'', ''fcmp'', ''phi'', ''select'', ''call'', ''load'', ''store'']"

definition llvm_types :: "string list" where
  "llvm_types = [''i1'', ''i8'', ''i16'', ''i32'', ''i64'', ''float'', ''double'', ''void'', ''ptr'']"

definition llvm_rules :: "(regex \<times> string) list" where
  "llvm_rules =
     [(Seq (Lit '';'') (Seq (Star (Class not_newline)) AtEnd), ''comment''),
      (whole_word llvm_keywords, ''keyword''),
      (whole_word llvm_types, ''type''),
      (Seq (Lit ''%'') (Plus (Class is_variable_char)), ''variable''),
      (Seq (Lit ''@'') (Plus (Class is_alnum_under)), ''function''),
      (Seq (Lit ''#x'') (Plus (Class is_hex)), ''number.hex''),
      (Seq WordBoundary (Seq (Plus (Class is_digit)) WordBoundary), ''number''),
      (whole_word [''noundef'', ''poison'', ''UB''], ''keyword.control'')]"

definition llvm_theme :: "(string \<times> string) list" where
  "llvm_theme =
     [(''keyword'', ''5B21B6''), (''type'', ''D97706''), (''variable'', ''7C3AED''), (''function'', ''059669''),
      (''number.hex'', ''EA580C''), (''number'', ''D97706''), (''keyword.control'', ''2563EB''), (''comment'', ''6B7280'')]"

text \<open>
  The token a list of rules gives at a position of a line (before it \<open>l\<close>, reversed; from it on \<open>s\<close>): the first rule that
  matches there decides.
\<close>

fun first_rule :: "(regex \<times> string) list \<Rightarrow> string \<Rightarrow> string \<Rightarrow> (string \<times> string) option" where
  "first_rule [] l s = None"
| "first_rule ((r, c) # rs) l s =
     (case match_here r l s of Some (m, g, s') \<Rightarrow> Some (m, c) | None \<Rightarrow> first_rule rs l s)"

section \<open>The hover provider\<close>

text \<open>The contents of the hover for the word at the position, if there is one.\<close>

definition provideHover :: "string option \<Rightarrow> content list option" where
  "provideHover word =
     (case word of
        None \<Rightarrow> None
      | Some term \<Rightarrow>
     (case term_lookup term of
        Some tooltip \<Rightarrow> Some [TextContent (''**'' @ term @ ''**''), tooltip]
      | None \<Rightarrow>
        if starts_with term ''_ZN'' then Some [TextContent ''Rust mangled function name'']
        else if starts_with term ''_Z'' then Some [TextContent ''C++ mangled function name'']
        else None))"

section \<open>Mounting\<close>

record monaco =
  languages :: "string list"
  token_providers :: "(string \<times> (regex \<times> string) list) list"
  hover_providers :: "string list"
  themes :: "(string \<times> (string \<times> string) list) list"
  theme :: string

datatype lang = Rust | Cpp | Llvm

definition handleEditorDidMount :: "lang \<Rightarrow> monaco \<Rightarrow> monaco" where
  "handleEditorDidMount language m =
     (if language = Llvm then
        (let m1 = (if \<not> list_ex (\<lambda>l. l = ''llvm'') (languages m)
                   then m\<lparr>languages := ''llvm'' # languages m,
                          token_providers := (''llvm'', llvm_rules) # token_providers m,
                          hover_providers := ''llvm'' # hover_providers m,
                          themes := (''llvm-theme'', llvm_theme) # themes m\<rparr>
                   else m)
         in m1\<lparr>theme := ''llvm-theme''\<rparr>)
      else m)"

text \<open>\<^verbatim>\<open>onChange(value || '')\<close>\<close>

definition handleChange :: "(string \<Rightarrow> 's) \<Rightarrow> string option \<Rightarrow> 's" where
  "handleChange f value = f (case value of None \<Rightarrow> '''' | Some v \<Rightarrow> v)"

section \<open>Rendering\<close>

datatype setting = Unset | Flag bool | Number nat | Name string

text \<open>The fixed part of the editor's \<^verbatim>\<open>options\<close>; nested options have their path as name.\<close>

definition editor_options :: "(string \<times> setting) list" where
  "editor_options =
     [(''minimap.enabled'', Flag False), (''fontSize'', Number 14), (''lineNumbers'', Name ''on''),
      (''scrollBeyondLastLine'', Flag False), (''renderWhitespace'', Name ''selection''), (''wordWrap'', Name ''on''),
      (''suggest.showWords'', Flag False), (''fontFamily'', Name ''Fira Code''), (''fontLigatures'', Flag True),
      (''padding.top'', Number 16), (''padding.bottom'', Number 16), (''smoothScrolling'', Flag True),
      (''cursorBlinking'', Name ''smooth''), (''cursorSmoothCaretAnimation'', Name ''on''),
      (''roundedSelection'', Flag True), (''contextmenu'', Flag False), (''overviewRulerBorder'', Flag False),
      (''scrollbar.vertical'', Name ''hidden''), (''scrollbar.horizontal'', Name ''hidden'')]"

record editor_view =
  copy_text :: "string option"
  defaultLanguage :: lang
  shown_value :: string
  shown_theme :: string
  options :: "(string \<times> setting) list"

definition CodeEditor :: "lang \<Rightarrow> string \<Rightarrow> bool option \<Rightarrow> bool \<Rightarrow> editor_view" where
  "CodeEditor language value ro showCopyButton =
     \<lparr>copy_text = (if showCopyButton then Some value else None), defaultLanguage = language,
      shown_value = value, shown_theme = ''light'', 
      options = (''readOnly'', case ro of None \<Rightarrow> Unset | Some b \<Rightarrow> Flag b) # editor_options\<rparr>"

section \<open>Properties\<close>

definition llvm_count :: "string list \<Rightarrow> nat" where
  "llvm_count xs = length (filter (\<lambda>l. l = ''llvm'') xs)"

definition monaco_inv :: "monaco \<Rightarrow> bool" where
  "monaco_inv m \<longleftrightarrow>
     llvm_count (languages m) = llvm_count (hover_providers m) \<and> llvm_count (hover_providers m) \<le> 1 \<and>
     (''llvm'' \<in> set (languages m) \<longrightarrow>
        map_of (themes m) ''llvm-theme'' = Some llvm_theme \<and> map_of (token_providers m) ''llvm'' = Some llvm_rules)"

lemma llvm_count_0: "llvm_count xs = 0 \<longleftrightarrow> ''llvm'' \<notin> set xs"
  by (auto simp: llvm_count_def filter_empty_conv)

lemma monaco_inv_mount: "monaco_inv m \<Longrightarrow> monaco_inv (handleEditorDidMount l m)"
  using llvm_count_0[of "languages m"] llvm_count_0[of "hover_providers m"]
  by (auto simp: monaco_inv_def handleEditorDidMount_def Let_def list_ex_iff) (auto simp: llvm_count_def)

lemma monaco_inv_mounts: "monaco_inv m \<Longrightarrow> monaco_inv (foldl (\<lambda>m l. handleEditorDidMount l m) m ls)"
  by (induction ls arbitrary: m) (auto intro: monaco_inv_mount)

lemma mounts_registered:
  "''llvm'' \<in> set (languages (foldl (\<lambda>m l. handleEditorDidMount l m) m ls)) \<longleftrightarrow>
     ''llvm'' \<in> set (languages m) \<or> Llvm \<in> set ls"
  by (induction ls arbitrary: m) (auto simp: handleEditorDidMount_def Let_def list_ex_iff)

lemma mounts_theme:
  "Llvm \<in> set ls \<Longrightarrow> theme (foldl (\<lambda>m l. handleEditorDidMount l m) m ls) = ''llvm-theme''"
proof (induction ls rule: rev_induct)
  case (snoc l ls)
  then show ?case by (cases l) (auto simp: handleEditorDidMount_def Let_def)
qed simp

text \<open>
  However many editors are mounted, in whatever order, the LLVM language, its token rules, its hover provider
  and its theme are registered at most once, and as soon as one LLVM editor has been mounted they are there and the
  theme that is set is the one defined.
\<close>

lemma mounts_register_once:
  assumes "''llvm'' \<notin> set (languages m)" and "''llvm'' \<notin> set (hover_providers m)"
  shows "let m' = foldl (\<lambda>m l. handleEditorDidMount l m) m ls in
     llvm_count (languages m') = (if Llvm \<in> set ls then 1 else 0) \<and>
     llvm_count (hover_providers m') = (if Llvm \<in> set ls then 1 else 0) \<and>
     (Llvm \<in> set ls \<longrightarrow> theme m' = ''llvm-theme'' \<and> map_of (themes m') ''llvm-theme'' = Some llvm_theme \<and>
        map_of (token_providers m') ''llvm'' = Some llvm_rules)"
proof -
  let ?m = "foldl (\<lambda>m l. handleEditorDidMount l m) m ls"
  from assms llvm_count_0[of "languages m"] llvm_count_0[of "hover_providers m"]
  have "monaco_inv m" by (simp add: monaco_inv_def)
  then have inv: "monaco_inv ?m" by (rule monaco_inv_mounts)
  from assms mounts_registered[of m ls] have reg: "''llvm'' \<in> set (languages ?m) \<longleftrightarrow> Llvm \<in> set ls" by simp
  then have "llvm_count (languages ?m) = 0 \<longleftrightarrow> Llvm \<notin> set ls" by (simp add: llvm_count_0)
  with inv have "llvm_count (languages ?m) = (if Llvm \<in> set ls then 1 else 0)" by (auto simp: monaco_inv_def)
  with inv reg mounts_theme[of ls m] show ?thesis by (simp add: monaco_inv_def Let_def)
qed

lemma mounts_register_once_example:
  "let m' = foldl (\<lambda>m l. handleEditorDidMount l m)
      \<lparr>languages = [''cpp'', ''rust''], token_providers = [], hover_providers = [], themes = [], theme = ''light''\<rparr>
      [Cpp, Rust, Llvm, Llvm] in
   llvm_count (hover_providers m') = 1 \<and> theme m' = ''llvm-theme''"
  using mounts_register_once[of "\<lparr>languages = [''cpp'', ''rust''], token_providers = [], hover_providers = [],
    themes = [], theme = ''light''\<rparr>" "[Cpp, Rust, Llvm, Llvm]"]
  by (simp add: Let_def)

text \<open>
  C20: how the editor's hover compares with the lines of the result. A word has the same explanation in both when it is a
  term. Of the other words the hover explains exactly the mangled function names, as Rust's or C++'s, with the text the
  line's explanation of the name begins with; the line adds to it, for a Rust name only, that it is a panic handler or a
  function of the core library. A name that begins with \<open>alloc\<close> is explained in the lines only.
\<close>

theorem hover_agrees_with_lines:
  "(\<forall>tip. (provideHover (Some w) = Some [TextContent (''**'' @ w @ ''**''), tip]) = (term_tooltip w = Some tip)) \<and>
   (term_tooltip w = None \<longrightarrow>
      (case provideHover (Some w) of
         None \<Rightarrow> \<not> starts_with w ''_Z'' \<and>
           function_tooltip w = (if starts_with w ''alloc'' then ''memory allocation function'' else '''')
       | Some cs \<Rightarrow> starts_with w ''_Z'' \<and>
           (\<exists>t. cs = [TextContent t] \<and>
              t = (if starts_with w ''_ZN'' then ''Rust mangled function name'' else ''C++ mangled function name'') \<and>
              function_tooltip w = t @ (if \<not> starts_with w ''_ZN'' then '''' else if js_includes w ''panic'' then '' (panic handler)''
                else if js_includes w ''core'' then '' (core library function)'' else ''''))))"
proof -
  have terms: "term_lookup ''i32'' = Some (TextContent ''32-bit integer type'')"
    "term_lookup ''ptr'' = Some (TextContent ''pointer type'')"
    by (simp_all add: term_lookup_def technicalTerms_def)
  then have same: "term_tooltip w = term_lookup w"
    by (cases "term_lookup w") (auto simp: term_tooltip_def)
  have names: "starts_with w ''_ZN'' \<Longrightarrow> starts_with w ''_Z''" by (auto simp: starts_with_def prefix_def)
  show ?thesis
  proof (cases "term_lookup w")
    case None
    with names show ?thesis unfolding same by (simp add: provideHover_def function_tooltip_def)
  next
    case (Some c)
    then show ?thesis unfolding same by (simp add: provideHover_def)
  qed
qed

theorem hover_agrees_with_lines_witness:
  "provideHover (Some ''noreturn'') = Some [TextContent ''**noreturn**'', TextContent ''function never returns to caller''] \<and>
   term_tooltip ''noreturn'' = Some (TextContent ''function never returns to caller'') \<and>
   provideHover (Some ''_ZN4core9panicking5panic17h0E'') = Some [TextContent ''Rust mangled function name''] \<and>
   function_tooltip ''_ZN4core9panicking5panic17h0E'' = ''Rust mangled function name (panic handler)'' \<and>
   provideHover (Some ''alloc'') = None \<and> function_tooltip ''alloc'' = ''memory allocation function''"
proof -
  have noreturn: "term_tooltip ''noreturn'' = Some (TextContent ''function never returns to caller'')" by code_simp
  have none: "term_tooltip ''_ZN4core9panicking5panic17h0E'' = None" "term_tooltip ''alloc'' = None" by code_simp+
  let ?p = "''_ZN4core9panicking5panic17h0E''"
  have hovers: "provideHover (Some ?p) \<noteq> None" "provideHover (Some ''alloc'') = None" by code_simp+
  have prefixes: "starts_with ?p ''_ZN''" "starts_with ''alloc'' ''alloc''" "js_includes ?p ''panic''" by code_simp+
  from hover_agrees_with_lines[of ?p] none(1) hovers(1) prefixes
  have "provideHover (Some ?p) = Some [TextContent ''Rust mangled function name'']"
    "function_tooltip ?p = ''Rust mangled function name (panic handler)''" by (auto split: option.splits)
  moreover from hover_agrees_with_lines[of "''alloc''"] none(2) hovers(2) prefixes
  have "function_tooltip ''alloc'' = ''memory allocation function''" by simp
  moreover from hover_agrees_with_lines[of "''noreturn''"] noreturn
  have "provideHover (Some ''noreturn'') = Some [TextContent ''**noreturn**'', TextContent ''function never returns to caller'']"
    by simp
  ultimately show ?thesis using noreturn hovers(2) by simp
qed

text \<open>
  Every class of the token rules has a colour in the theme, and the other way round.
\<close>

lemma theme_covers_rules:
  "list_all (\<lambda>(r, c). map_of llvm_theme c \<noteq> None) llvm_rules \<and>
   list_all (\<lambda>(c, colour). list_ex (\<lambda>(r, c'). c' = c) llvm_rules) llvm_theme \<and>
   distinct (map fst llvm_theme)"
  by (simp add: llvm_rules_def llvm_theme_def)

section \<open>The token of a word\<close>

lemma first_is_word_append: "w \<noteq> [] \<Longrightarrow> first_is_word (w @ s) \<longleftrightarrow> is_word (hd w)"
  by (cases w) (auto simp: first_is_word_def)

lemma first_is_word_rev_append: "w \<noteq> [] \<Longrightarrow> first_is_word (rev w @ s) \<longleftrightarrow> is_word (last w)"
  by (simp add: first_is_word_append hd_rev)

text \<open>A match that starts and ends at word boundaries and consists of word characters is the whole word.\<close>

lemma bounded_match:
  assumes "m @ s' = w @ r" and "\<forall>c \<in> set m. is_word c" and "\<forall>c \<in> set w. is_word c" and "m \<noteq> []"
    and "first_is_word (rev m @ l) \<noteq> first_is_word s'" and "\<not> first_is_word r"
  shows "m = w"
proof -
  have "first_is_word (rev m @ l)" using assms(2,4) by (simp add: first_is_word_rev_append)
  with assms(5) have "\<not> first_is_word s'" by simp
  then have "takeWhile is_word (m @ s') = m" using assms(2) by (cases s') (auto simp: first_is_word_def)
  moreover have "takeWhile is_word (w @ r) = w" using assms(3,6) by (cases r) (auto simp: first_is_word_def)
  ultimately show ?thesis using assms(1) by metis
qed

definition is_token_word :: "string \<Rightarrow> bool" where
  "is_token_word w \<longleftrightarrow> w \<noteq> [] \<and> list_all is_word w"

text \<open>How a rule that takes a set of whole words decides at the start of a word.\<close>

lemma match_bounded:
  assumes "\<And>u v. rmatch r l u v \<longleftrightarrow> first_is_word l \<noteq> first_is_word (u @ v) \<and> P u \<and> first_is_word (rev u @ l) \<noteq> first_is_word v"
    and "\<And>u. P u \<Longrightarrow> is_token_word u"
    and "is_token_word w" and "\<not> first_is_word l" and "\<not> first_is_word s"
  shows "if P w then \<exists>g. match_here r l (w @ s) = Some (w, g, s) else match_here r l (w @ s) = None"
proof -
  have only: "u = w" if "u @ v = w @ s" "rmatch r l u v" for u v
    using that assms(1) assms(2)[of u] assms(3,5) bounded_match[of u v w s l]
    by (simp add: is_token_word_def list_all_iff)
  show ?thesis
  proof (cases "match_here r l (w @ s)")
    case None
    have "\<not> P w"
    proof
      assume "P w"
      have "first_is_word (w @ s)" "first_is_word (rev w @ l)"
        using assms(3) by (simp_all add: is_token_word_def list_all_iff first_is_word_append hd_rev)
      with \<open>P w\<close> assms(1)[of w s] assms(4,5) have "rmatch r l w s" by simp
      with None show False using match_here_exists by fastforce
    qed
    with None show ?thesis by simp
  next
    case (Some x)
    obtain m g s' where x: "x = (m, g, s')" by (cases x)
    from Some[unfolded x, THEN match_here_Some] have m: "w @ s = m @ s'" "rmatch r l m s'" by auto
    from only[OF m(1)[symmetric] m(2)] m have "m = w" "s' = s" "P w" using assms(1) by auto
    with Some x show ?thesis by simp
  qed
qed

lemma rmatch_whole_word:
  "rmatch (whole_word ws) l u v \<longleftrightarrow>
     first_is_word l \<noteq> first_is_word (u @ v) \<and> u \<in> set ws \<and> first_is_word (rev u @ l) \<noteq> first_is_word v"
  by (auto simp: whole_word_def rmatch_Seq)

lemma rmatch_number:
  "rmatch (Seq WordBoundary (Seq (Plus (Class is_digit)) WordBoundary)) l u v \<longleftrightarrow>
     first_is_word l \<noteq> first_is_word (u @ v) \<and> (u \<noteq> [] \<and> list_all is_digit u) \<and>
     first_is_word (rev u @ l) \<noteq> first_is_word v"
  by (auto simp: rmatch_Seq list_all_iff)

lemma lit_rule_None:
  assumes "is_token_word w" and "\<not> is_word c"
  shows "match_here (Seq (Lit (c # cs)) r) l (w @ s) = None"
  using assms unfolding match_here_None
  by (auto simp: rmatch_Seq is_token_word_def Cons_eq_append_conv append_eq_Cons_conv)

text \<open>
  The colour of a word of LLVM IR: a word with no word character on either side is coloured as a keyword, a type, a
  number or a control keyword exactly when it is one of the listed words or all digits, as a whole; any
  other word has no token. So \<open>alloca\<close> and \<open>sext\<close> stay plain (the list has \<open>alloc\<close>).
\<close>

lemma word_token:
  assumes "is_token_word w" and "\<not> first_is_word l" and "\<not> first_is_word s"
  shows "first_rule llvm_rules l (w @ s) =
     (if w \<in> set llvm_keywords then Some (w, ''keyword'')
      else if w \<in> set llvm_types then Some (w, ''type'')
      else if list_all is_digit w then Some (w, ''number'')
      else if w \<in> set [''noundef'', ''poison'', ''UB''] then Some (w, ''keyword.control'')
      else None)"
proof -
  have words: "\<forall>x \<in> set ws. is_token_word x \<Longrightarrow>
      if w \<in> set ws then \<exists>g. match_here (whole_word ws) l (w @ s) = Some (w, g, s)
      else match_here (whole_word ws) l (w @ s) = None" for ws
    using match_bounded[of "whole_word ws" l "\<lambda>u. u \<in> set ws", OF rmatch_whole_word _ assms] by blast
  have "is_digit c \<Longrightarrow> is_word c" for c by (auto simp: js_defs)
  then have digits: "if w \<noteq> [] \<and> list_all is_digit w
      then \<exists>g. match_here (Seq WordBoundary (Seq (Plus (Class is_digit)) WordBoundary)) l (w @ s) = Some (w, g, s)
      else match_here (Seq WordBoundary (Seq (Plus (Class is_digit)) WordBoundary)) l (w @ s) = None"
    using match_bounded[OF rmatch_number _ assms] by (auto simp: is_token_word_def list_all_iff)
  have "\<forall>x \<in> set llvm_keywords. is_token_word x" "\<forall>x \<in> set llvm_types. is_token_word x"
    "\<forall>x \<in> set [''noundef'', ''poison'', ''UB'']. is_token_word x"
    by code_simp+
  from this[THEN words] digits show ?thesis
    using assms(1) lit_rule_None[OF assms(1), of "CHR '';''" "[]"] lit_rule_None[OF assms(1), of "CHR ''%''" "[]"]
      lit_rule_None[OF assms(1), of "CHR ''@''" "[]"] lit_rule_None[OF assms(1), of "CHR ''#''" "''x''"]
    unfolding llvm_rules_def
    by (auto simp: is_token_word_def js_defs split: if_splits simp del: list.set set_simps)
qed

lemma word_token_example: "first_rule llvm_rules '' '' (''alloca'' @ '' i32'') = None"
proof -
  have w: "is_token_word ''alloca''" "\<not> first_is_word '' ''" "\<not> first_is_word '' i32''" by code_simp+
  have n: "''alloca'' \<notin> set llvm_keywords" "''alloca'' \<notin> set llvm_types"
    "''alloca'' \<notin> set [''noundef'', ''poison'', ''UB'']" "\<not> list_all is_digit ''alloca''" by code_simp+
  show ?thesis unfolding word_token[OF w] using n by (simp only: if_False)
qed

end
