(* ===== verification/Timers.thy ===== *)
theory Timers
  imports Prelude
begin

text \<open>
  The browser's timers as the components use them: \<^verbatim>\<open>setTimeout\<close>, \<^verbatim>\<open>clearTimeout\<close>, the passing of time and
  the firing of a timer that is due. The locale states what the components rely on; its lemmas about
  replacing a timer are what their proofs use, through the interpretation on the queue.
\<close>

section \<open>The queue\<close>

text \<open>Handles are positive, so a set reference is truthy. A timer is its handle and the time it is due.\<close>

record timers =
  clock :: nat
  fresh :: nat
  queue :: "(nat \<times> nat) list"

definition no_timers :: timers where
  "no_timers = \<lparr>clock = 0, fresh = 1, queue = []\<rparr>"

definition setTimeout :: "nat \<Rightarrow> timers \<Rightarrow> nat \<times> timers" where
  "setTimeout delay ts =
     (fresh ts, ts\<lparr>fresh := Suc (fresh ts), queue := (fresh ts, clock ts + delay) # queue ts\<rparr>)"

definition clearTimeout :: "nat \<Rightarrow> timers \<Rightarrow> timers" where
  "clearTimeout i ts = ts\<lparr>queue := filter (\<lambda>(j, d). j \<noteq> i) (queue ts)\<rparr>"

definition elapse :: "nat \<Rightarrow> timers \<Rightarrow> timers" where
  "elapse n ts = ts\<lparr>clock := clock ts + n\<rparr>"

definition deadline :: "timers \<Rightarrow> nat \<Rightarrow> nat option" where
  "deadline ts = map_of (queue ts)"

definition due :: "nat \<Rightarrow> timers \<Rightarrow> bool" where
  "due i ts = (case deadline ts i of None \<Rightarrow> False | Some d \<Rightarrow> d \<le> clock ts)"

definition timers_ok :: "timers \<Rightarrow> bool" where
  "timers_ok ts \<longleftrightarrow> (\<forall>(j, d) \<in> set (queue ts). j < fresh ts) \<and> 0 < fresh ts"

section \<open>The contract\<close>

locale timer_service =
  fixes start :: "nat \<Rightarrow> 's \<Rightarrow> nat \<times> 's"
    and stop :: "nat \<Rightarrow> 's \<Rightarrow> 's"
    and pass :: "nat \<Rightarrow> 's \<Rightarrow> 's"
    and due_at :: "'s \<Rightarrow> nat \<Rightarrow> nat option"
    and time :: "'s \<Rightarrow> nat"
    and ok :: "'s \<Rightarrow> bool"
  assumes start_due: "ok s \<Longrightarrow> due_at (snd (start d s)) = (due_at s)(fst (start d s) \<mapsto> time s + d)"
    and start_new: "ok s \<Longrightarrow> due_at s (fst (start d s)) = None"
    and start_time: "time (snd (start d s)) = time s"
    and start_ok: "ok s \<Longrightarrow> ok (snd (start d s))"
    and stop_due: "due_at (stop i s) = (due_at s)(i := None)"
    and stop_time: "time (stop i s) = time s"
    and stop_ok: "ok s \<Longrightarrow> ok (stop i s)"
    and pass_due: "due_at (pass n s) = due_at s"
    and pass_time: "time (pass n s) = time s + n"
    and pass_ok: "ok s \<Longrightarrow> ok (pass n s)"
begin

lemma start_stop: "ok s \<Longrightarrow> due_at (stop (fst (start d s)) (snd (start d s))) = due_at s"
  using start_new[of s d] by (auto simp: stop_due start_due)

lemma start_only: "ok s \<Longrightarrow> due_at s = Map.empty \<Longrightarrow> due_at (snd (start d s)) = [fst (start d s) \<mapsto> time s + d]"
  by (simp add: start_due)

text \<open>A component that keeps at most the timer \<open>i\<close> and replaces it keeps at most the new one.\<close>

lemma stop_only: "dom (due_at s) \<subseteq> {i} \<Longrightarrow> due_at (stop i s) = Map.empty"
  by (auto simp: stop_due fun_eq_iff dom_def)

lemma restart:
  assumes "ok s" and "dom (due_at s) \<subseteq> {i}"
  shows "due_at (snd (start d (stop i s))) = [fst (start d (stop i s)) \<mapsto> time s + d]"
  using start_only[OF stop_ok[OF assms(1), of i] stop_only[OF assms(2)]] by (simp add: stop_time)

lemmas service_laws = start_due start_time start_ok stop_due stop_time stop_ok pass_due pass_time pass_ok

end

interpretation browser: timer_service setTimeout clearTimeout elapse deadline clock timers_ok
proof unfold_locales
  fix s d
  show "timers_ok s \<Longrightarrow> deadline s (fst (setTimeout d s)) = None"
    by (auto simp: timers_ok_def deadline_def setTimeout_def map_of_eq_None_iff)
next
  fix s i
  have "map_of (filter (\<lambda>(j, d). j \<noteq> i) xs) = (map_of xs)(i := None)" for xs :: "(nat \<times> nat) list"
    by (induction xs) auto
  then show "deadline (clearTimeout i s) = (deadline s)(i := None)"
    by (simp add: deadline_def clearTimeout_def)
qed (auto simp: timers_ok_def deadline_def setTimeout_def clearTimeout_def elapse_def)

lemma no_timers_facts [simp]: "timers_ok no_timers" "deadline no_timers = Map.empty" "clock no_timers = 0"
  by (simp_all add: no_timers_def timers_ok_def deadline_def)

lemma due_iff: "due i ts \<longleftrightarrow> (\<exists>d. deadline ts i = Some d \<and> d \<le> clock ts)"
  by (auto simp: due_def split: option.splits)

end
