(* ===== verification/Widgets.thy ===== *)
theory Widgets
  imports Timers JsValue
begin

text \<open>
  The small components with a state of their own: \<^verbatim>\<open>Tooltip.tsx\<close>, \<^verbatim>\<open>CopyButton.tsx\<close>, \<^verbatim>\<open>Toast.tsx\<close>,
  \<^verbatim>\<open>CollapsibleSection.tsx\<close> and \<^verbatim>\<open>ErrorBoundary.tsx\<close> of \<^verbatim>\<open>src/components\<close>. Each is its state, its handlers
  and effects, what it renders, and, where time matters, the steps of the user, the clock and the
  timers.
\<close>

section \<open>Tooltip\<close>

record tooltip =
  isVisible :: bool
  timeoutRef :: "nat option"
  inside :: bool
  mounted :: bool
  tip_timers :: timers

definition tooltip_mount :: tooltip where
  "tooltip_mount = \<lparr>isVisible = False, timeoutRef = None, inside = False, mounted = True, tip_timers = no_timers\<rparr>"

definition clear_ref :: "tooltip \<Rightarrow> tooltip" where
  "clear_ref s = (case timeoutRef s of None \<Rightarrow> s | Some i \<Rightarrow> s\<lparr>tip_timers := clearTimeout i (tip_timers s)\<rparr>)"

definition showTooltip :: "tooltip \<Rightarrow> tooltip" where
  "showTooltip s = (clear_ref s)\<lparr>isVisible := True\<rparr>"

definition hideTooltip :: "tooltip \<Rightarrow> tooltip" where
  "hideTooltip s = (let (i, ts) = setTimeout 100 (tip_timers s) in s\<lparr>timeoutRef := Some i, tip_timers := ts\<rparr>)"

text \<open>The children, and under them the content while it is visible.\<close>

definition Tooltip :: "tooltip \<Rightarrow> 'n \<Rightarrow> 'n \<Rightarrow> 'n list" where
  "Tooltip s content children = [children] @ (if isVisible s then [content] else [])"

text \<open>
  The pointer enters and leaves the container in turn; a timer fires once, when it is due; removing the
  component runs the effect's cleanup.
\<close>

datatype tooltip_event = MouseEnter | MouseLeave | TipElapse nat | TipFire nat | TipUnmount

inductive tooltip_step :: "tooltip \<Rightarrow> tooltip_event \<Rightarrow> tooltip \<Rightarrow> bool" where
  mouse_enter: "mounted s \<Longrightarrow> \<not> inside s \<Longrightarrow> tooltip_step s MouseEnter ((showTooltip s)\<lparr>inside := True\<rparr>)"
| mouse_leave: "mounted s \<Longrightarrow> inside s \<Longrightarrow> tooltip_step s MouseLeave ((hideTooltip s)\<lparr>inside := False\<rparr>)"
| tip_elapse: "tooltip_step s (TipElapse n) (s\<lparr>tip_timers := elapse n (tip_timers s)\<rparr>)"
| tip_fire: "due i (tip_timers s) \<Longrightarrow>
    tooltip_step s (TipFire i) (s\<lparr>tip_timers := clearTimeout i (tip_timers s), isVisible := False\<rparr>)"
| tip_unmount: "mounted s \<Longrightarrow> tooltip_step s TipUnmount ((clear_ref s)\<lparr>mounted := False, inside := False\<rparr>)"

inductive_cases tooltip_stepE: "tooltip_step s e t"
inductive_simps tooltip_step_iff:
  "tooltip_step s (TipElapse n) t" "tooltip_step s (TipFire i) t"

definition tooltip_inv :: "tooltip \<Rightarrow> bool" where
  "tooltip_inv s \<longleftrightarrow> timers_ok (tip_timers s) \<and>
     dom (deadline (tip_timers s)) \<subseteq> set_option (timeoutRef s) \<and>
     (inside s \<longrightarrow> isVisible s \<and> deadline (tip_timers s) = Map.empty) \<and>
     (\<not> mounted s \<longrightarrow> deadline (tip_timers s) = Map.empty) \<and>
     (mounted s \<and> \<not> inside s \<and> isVisible s \<longrightarrow>
        (\<exists>i d. deadline (tip_timers s) i = Some d \<and> d \<le> clock (tip_timers s) + 100))"

lemma clear_ref_timers:
  "tooltip_inv s \<Longrightarrow> timers_ok (tip_timers (clear_ref s)) \<and> deadline (tip_timers (clear_ref s)) = Map.empty \<and>
     isVisible (clear_ref s) = isVisible s \<and> mounted (clear_ref s) = mounted s"
  using browser.stop_only[of "tip_timers s"]
  by (auto simp: clear_ref_def tooltip_inv_def browser.stop_ok dom_def split: option.splits)

lemma tooltip_inv_step: "tooltip_step s e t \<Longrightarrow> tooltip_inv s \<Longrightarrow> tooltip_inv t"
proof (induction rule: tooltip_step.induct)
  case (mouse_enter s)
  then show ?case using clear_ref_timers[of s] by (simp add: tooltip_inv_def showTooltip_def)
next
  case (mouse_leave s)
  then have ok: "timers_ok (tip_timers s)" and "deadline (tip_timers s) = Map.empty" by (simp_all add: tooltip_inv_def)
  from browser.start_only[OF this, of 100] browser.start_ok[OF ok, of 100] mouse_leave show ?case
    by (simp add: tooltip_inv_def hideTooltip_def browser.start_time case_prod_beta)
next
  case (tip_elapse s n)
  then show ?case by (fastforce simp: tooltip_inv_def browser.service_laws)
next
  case (tip_fire i s)
  then show ?case by (auto simp: tooltip_inv_def browser.service_laws due_iff)
next
  case (tip_unmount s)
  then show ?case using clear_ref_timers[of s] by (simp add: tooltip_inv_def)
qed

interpretation tooltip_machine: invariant_machine tooltip_step tooltip_mount tooltip_inv
  by unfold_locales (simp_all add: tooltip_inv_step, simp add: tooltip_inv_def tooltip_mount_def)

text \<open>
  A tooltip does not flicker and does not stay: while the pointer is over the component the tooltip is
  shown and no timer is set that could hide it; once the pointer has left, the one pending timer hides
  it when 100 ms have passed; and a removed component leaves no timer behind.
\<close>

lemma tooltip_contract:
  assumes "steps tooltip_step tooltip_mount es s"
  shows "(inside s \<longrightarrow> isVisible s \<and> (\<forall>i. \<not> due i (tip_timers s))) \<and>
     (mounted s \<and> \<not> inside s \<and> isVisible s \<longrightarrow>
        (\<exists>i t. steps tooltip_step s [TipElapse 100, TipFire i] t \<and> \<not> isVisible t)) \<and>
     (\<not> mounted s \<longrightarrow> deadline (tip_timers s) = Map.empty)"
proof -
  from tooltip_machine.inv_reachable[OF assms] have inv: "tooltip_inv s" .
  moreover have "\<exists>i t. steps tooltip_step s [TipElapse 100, TipFire i] t \<and> \<not> isVisible t"
    if shown: "mounted s" "\<not> inside s" "isVisible s"
  proof -
    from inv shown obtain i d where "deadline (tip_timers s) i = Some d" "d \<le> clock (tip_timers s) + 100"
      by (auto simp: tooltip_inv_def)
    then have "due i (elapse 100 (tip_timers s))" by (simp add: due_iff browser.service_laws)
    then show ?thesis by (auto simp: steps_Cons_iff tooltip_step_iff)
  qed
  ultimately show ?thesis by (auto simp: tooltip_inv_def due_iff)
qed

lemma tooltip_contract_example:
  "\<exists>es s. steps tooltip_step tooltip_mount es s \<and> es \<noteq> [] \<and> inside s \<and> isVisible s"
proof -
  have "tooltip_step tooltip_mount MouseEnter ((showTooltip tooltip_mount)\<lparr>inside := True\<rparr>)"
    by (rule mouse_enter) (simp_all add: tooltip_mount_def)
  then have run: "steps tooltip_step tooltip_mount [MouseEnter] ((showTooltip tooltip_mount)\<lparr>inside := True\<rparr>)"
    by (auto intro: steps.intros)
  from tooltip_contract[OF this] run show ?thesis by fastforce
qed

section \<open>CopyButton\<close>

text \<open>
  \<open>writes\<close> counts the clipboard writes under way. A write that succeeds sets \<^verbatim>\<open>copied\<close> and starts a timer;
  the cleanup function the handler returns goes to the event system, which ignores it, so no timer is
  ever cleared.
\<close>

record copy_button =
  copied :: bool
  writes :: nat
  copy_timers :: timers

definition copy_mount :: copy_button where
  "copy_mount = \<lparr>copied = False, writes = 0, copy_timers = no_timers\<rparr>"

definition handleCopy :: "copy_button \<Rightarrow> copy_button" where
  "handleCopy s = s\<lparr>writes := writes s + 1\<rparr>"

definition copy_settled :: "bool \<Rightarrow> copy_button \<Rightarrow> copy_button" where
  "copy_settled ok s =
     (let s1 = s\<lparr>writes := writes s - 1\<rparr> in
      if ok then s1\<lparr>copied := True, copy_timers := snd (setTimeout 2000 (copy_timers s))\<rparr> else s1)"

definition CopyButton :: "copy_button \<Rightarrow> string \<Rightarrow> string" where
  "CopyButton s label = (if copied s then ''Copied!'' else label)"

datatype copy_event = Click | Settles bool | CopyElapse nat | CopyFire nat

inductive copy_step :: "copy_button \<Rightarrow> copy_event \<Rightarrow> copy_button \<Rightarrow> bool" where
  click: "copy_step s Click (handleCopy s)"
| settles: "0 < writes s \<Longrightarrow> copy_step s (Settles ok) (copy_settled ok s)"
| copy_elapse: "copy_step s (CopyElapse n) (s\<lparr>copy_timers := elapse n (copy_timers s)\<rparr>)"
| copy_fire: "due i (copy_timers s) \<Longrightarrow>
    copy_step s (CopyFire i) (s\<lparr>copy_timers := clearTimeout i (copy_timers s), copied := False\<rparr>)"

inductive_simps copy_step_iff:
  "copy_step s Click t" "copy_step s (Settles ok) t" "copy_step s (CopyElapse n) t" "copy_step s (CopyFire i) t"

definition copy_inv :: "copy_button \<Rightarrow> bool" where
  "copy_inv s \<longleftrightarrow> timers_ok (copy_timers s) \<and>
     (copied s \<longrightarrow> (\<exists>i d. deadline (copy_timers s) i = Some d \<and> d \<le> clock (copy_timers s) + 2000))"

lemma copy_inv_step: "copy_step s e t \<Longrightarrow> copy_inv s \<Longrightarrow> copy_inv t"
proof (induction rule: copy_step.induct)
  case (settles s ok)
  then show ?case
    by (auto simp: copy_inv_def copy_settled_def Let_def browser.service_laws)
next
  case (copy_elapse s n)
  then show ?case by (fastforce simp: copy_inv_def browser.service_laws)
qed (auto simp: copy_inv_def handleCopy_def browser.service_laws)

interpretation copy_machine: invariant_machine copy_step copy_mount copy_inv
  by unfold_locales (simp_all add: copy_inv_step, simp add: copy_inv_def copy_mount_def)

text \<open>
  The button never stays at \<open>Copied!\<close>: whenever it says so, a timer is pending that sets its label back
  within two seconds.
\<close>

lemma copied_is_reset:
  assumes "steps copy_step copy_mount es s" and "copied s"
  shows "\<exists>i t. steps copy_step s [CopyElapse 2000, CopyFire i] t \<and> CopyButton t label = label"
proof -
  from copy_machine.inv_reachable[OF assms(1)] assms(2) obtain i d where
    "deadline (copy_timers s) i = Some d" "d \<le> clock (copy_timers s) + 2000" by (auto simp: copy_inv_def)
  then have "due i (elapse 2000 (copy_timers s))" by (simp add: due_iff browser.service_laws)
  then show ?thesis by (auto simp: steps_Cons_iff copy_step_iff CopyButton_def)
qed

lemma copy_example:
  "steps copy_step copy_mount [Click, Settles True, CopyElapse 1500, Click] (handleCopy
     ((copy_settled True (handleCopy copy_mount))\<lparr>copy_timers := elapse 1500 (copy_timers (copy_settled True (handleCopy copy_mount)))\<rparr>))"
  by (simp add: steps_Cons_iff copy_step_iff) (simp add: handleCopy_def copy_mount_def)

lemma copied_is_reset_example:
  "\<exists>es s. steps copy_step copy_mount es s \<and> copied s \<and>
     (\<exists>i t. steps copy_step s [CopyElapse 2000, CopyFire i] t \<and> CopyButton t ''Copy'' = ''Copy'')"
proof -
  have "copied (handleCopy ((copy_settled True (handleCopy copy_mount))
      \<lparr>copy_timers := elapse 1500 (copy_timers (copy_settled True (handleCopy copy_mount)))\<rparr>))"
    by (simp add: handleCopy_def copy_settled_def Let_def)
  with copied_is_reset[OF copy_example] copy_example show ?thesis by blast
qed

text \<open>
  Timers of earlier copies are not cancelled: a copy that succeeds while the timer of an earlier one is
  pending is reset by that timer, when the earlier one is due, and not two seconds after its own time.
\<close>

lemma copied_cut_short:
  assumes "steps copy_step copy_mount es s" and "0 < writes s"
    and "deadline (copy_timers s) i = Some d" and "clock (copy_timers s) \<le> d"
  shows "\<exists>t. steps copy_step s [Settles True, CopyElapse (d - clock (copy_timers s)), CopyFire i] t \<and>
     \<not> copied t \<and> clock (copy_timers t) = d"
proof -
  from copy_machine.inv_reachable[OF assms(1)] have ok: "timers_ok (copy_timers s)" by (simp add: copy_inv_def)
  with assms(3) browser.start_new[of "copy_timers s" 2000] have "i \<noteq> fst (setTimeout 2000 (copy_timers s))" by auto
  with ok assms(3,4) have "due i (elapse (d - clock (copy_timers s)) (snd (setTimeout 2000 (copy_timers s))))"
    by (simp add: due_iff browser.service_laws)
  with assms(2,4) show ?thesis
    by (simp add: steps_Cons_iff copy_step_iff copy_settled_def Let_def browser.service_laws)
qed

lemma copied_cut_short_example:
  "\<exists>es s i t. steps copy_step copy_mount es s \<and> clock (copy_timers s) = 1500 \<and>
     steps copy_step s [Settles True, CopyElapse 500, CopyFire i] t \<and> \<not> copied t"
proof -
  let ?s = "handleCopy ((copy_settled True (handleCopy copy_mount))
      \<lparr>copy_timers := elapse 1500 (copy_timers (copy_settled True (handleCopy copy_mount)))\<rparr>)"
  have "0 < writes ?s" "deadline (copy_timers ?s) 1 = Some 2000" "clock (copy_timers ?s) = 1500"
    by (simp_all add: handleCopy_def copy_settled_def Let_def copy_mount_def browser.service_laws)
       (simp add: no_timers_def setTimeout_def deadline_def)
  with copied_cut_short[OF copy_example, of 1 2000] copy_example show ?thesis by fastforce
qed

section \<open>Toast\<close>

text \<open>
  The effect's dependencies are the duration and the identity of \<^verbatim>\<open>onClose\<close>: a render that changes either
  runs the cleanup and starts a new timer. \<open>closes\<close> counts the calls of \<^verbatim>\<open>onClose\<close>.
\<close>

record toast_state =
  duration :: nat
  onClose :: nat
  timer :: nat
  toast_timers :: timers
  closes :: nat

definition toast_effect :: "toast_state \<Rightarrow> toast_state" where
  "toast_effect s = (let (i, ts) = setTimeout (duration s) (toast_timers s) in s\<lparr>timer := i, toast_timers := ts\<rparr>)"

definition toast_cleanup :: "toast_state \<Rightarrow> toast_state" where
  "toast_cleanup s = s\<lparr>toast_timers := clearTimeout (timer s) (toast_timers s)\<rparr>"

definition toast_mount :: "nat \<Rightarrow> nat \<Rightarrow> toast_state" where
  "toast_mount d f =
     toast_effect \<lparr>duration = d, onClose = f, timer = 0, toast_timers = no_timers, closes = 0\<rparr>"

definition toast_rerender :: "nat \<Rightarrow> nat \<Rightarrow> toast_state \<Rightarrow> toast_state" where
  "toast_rerender d f s =
     (if d = duration s \<and> f = onClose s then s
      else toast_effect ((toast_cleanup s)\<lparr>duration := d, onClose := f\<rparr>))"

datatype toast_event = Rerender nat nat | ToastElapse nat | ToastFire nat | CloseClick | ToastUnmount

inductive toast_step :: "toast_state \<Rightarrow> toast_event \<Rightarrow> toast_state \<Rightarrow> bool" where
  rerender: "toast_step s (Rerender d f) (toast_rerender d f s)"
| toast_elapse: "toast_step s (ToastElapse n) (s\<lparr>toast_timers := elapse n (toast_timers s)\<rparr>)"
| toast_fire: "due i (toast_timers s) \<Longrightarrow>
    toast_step s (ToastFire i) (s\<lparr>toast_timers := clearTimeout i (toast_timers s), closes := Suc (closes s)\<rparr>)"
| close_click: "toast_step s CloseClick (s\<lparr>closes := Suc (closes s)\<rparr>)"
| toast_unmount: "toast_step s ToastUnmount (toast_cleanup s)"

inductive_simps toast_step_iff: "toast_step s (Rerender d f) t" "toast_step s (ToastElapse n) t" "toast_step s (ToastFire i) t"

definition toast_inv :: "toast_state \<Rightarrow> bool" where
  "toast_inv s \<longleftrightarrow> timers_ok (toast_timers s) \<and> dom (deadline (toast_timers s)) \<subseteq> {timer s}"

lemma toast_effect_timers:
  assumes "timers_ok (toast_timers s)" and "deadline (toast_timers s) = Map.empty"
  shows "toast_inv (toast_effect s) \<and>
     deadline (toast_timers (toast_effect s)) = [timer (toast_effect s) \<mapsto> clock (toast_timers s) + duration s] \<and>
     clock (toast_timers (toast_effect s)) = clock (toast_timers s)"
  using browser.start_only[OF assms] browser.start_ok[OF assms(1)]
  by (simp add: toast_inv_def toast_effect_def case_prod_beta browser.start_time)

lemma toast_cleanup_timers:
  assumes "toast_inv s"
  shows "timers_ok (toast_timers (toast_cleanup s)) \<and> deadline (toast_timers (toast_cleanup s)) = Map.empty \<and>
     clock (toast_timers (toast_cleanup s)) = clock (toast_timers s)"
  using assms browser.stop_only[of "toast_timers s" "timer s"]
  by (simp add: toast_inv_def toast_cleanup_def browser.stop_ok browser.stop_time)

lemma toast_rerender_timers:
  assumes "toast_inv s" and "f \<noteq> onClose s"
  shows "toast_inv (toast_rerender d f s) \<and>
     deadline (toast_timers (toast_rerender d f s)) = [timer (toast_rerender d f s) \<mapsto> clock (toast_timers s) + d] \<and>
     clock (toast_timers (toast_rerender d f s)) = clock (toast_timers s)"
  using toast_effect_timers[of "(toast_cleanup s)\<lparr>duration := d, onClose := f\<rparr>"] toast_cleanup_timers[OF assms(1)] assms(2)
  by (simp add: toast_rerender_def)

lemma toast_inv_step: "toast_step s e t \<Longrightarrow> toast_inv s \<Longrightarrow> toast_inv t"
proof (induction rule: toast_step.induct)
  case (rerender s d f)
  then show ?case
    using toast_effect_timers[of "(toast_cleanup s)\<lparr>duration := d, onClose := f\<rparr>"] toast_cleanup_timers[OF rerender]
    by (simp add: toast_rerender_def)
next
  case (toast_unmount s)
  then show ?case using toast_cleanup_timers[OF toast_unmount] by (simp add: toast_inv_def)
qed (auto simp: toast_inv_def browser.service_laws)

lemma toast_mount_timers:
  "toast_inv (toast_mount d f) \<and> deadline (toast_timers (toast_mount d f)) = [timer (toast_mount d f) \<mapsto> d] \<and>
     clock (toast_timers (toast_mount d f)) = 0"
  unfolding toast_mount_def by (rule toast_effect_timers[THEN conjE]) auto

interpretation toast_machine: invariant_machine toast_step "toast_mount d f" toast_inv for d f
  by unfold_locales (simp_all add: toast_inv_step toast_mount_timers)

text \<open>Renders by a parent that passes a new function each time, each within the duration of the last.\<close>

fun rerendered :: "nat \<Rightarrow> (nat \<times> nat) list \<Rightarrow> toast_event list" where
  "rerendered d [] = []"
| "rerendered d ((n, f) # gs) = ToastElapse n # Rerender d f # rerendered d gs"

fun new_each_time :: "nat \<Rightarrow> nat \<Rightarrow> (nat \<times> nat) list \<Rightarrow> bool" where
  "new_each_time d f [] = True"
| "new_each_time d f ((n, g) # gs) = (n < d \<and> g \<noteq> f \<and> new_each_time d g gs)"

lemma onClose_rerender: "onClose (toast_rerender d f s) = f"
  by (auto simp: toast_rerender_def toast_effect_def case_prod_beta)

lemma rerendered_timers:
  assumes "steps toast_step s (rerendered d gs) t" and "new_each_time d (onClose s) gs" and "toast_inv s"
    and "deadline (toast_timers s) = [timer s \<mapsto> clock (toast_timers s) + d]"
  shows "toast_inv t \<and> deadline (toast_timers t) = [timer t \<mapsto> clock (toast_timers t) + d]"
  using assms
proof (induction gs arbitrary: s)
  case (Cons p gs)
  obtain n g where p: "p = (n, g)" by (cases p)
  let ?u = "s\<lparr>toast_timers := elapse n (toast_timers s)\<rparr>"
  from Cons.prems p have run: "steps toast_step (toast_rerender d g ?u) (rerendered d gs) t"
    by (simp add: steps_Cons_iff toast_step_iff)
  from Cons.prems(3) have "toast_inv ?u" by (simp add: toast_inv_def browser.service_laws)
  moreover from Cons.prems(2) p have "g \<noteq> onClose ?u" by simp
  ultimately have "toast_inv (toast_rerender d g ?u) \<and>
     deadline (toast_timers (toast_rerender d g ?u)) = [timer (toast_rerender d g ?u) \<mapsto> clock (toast_timers ?u) + d] \<and>
     clock (toast_timers (toast_rerender d g ?u)) = clock (toast_timers ?u)"
    by (rule toast_rerender_timers)
  with Cons.IH[OF run] Cons.prems(2) p onClose_rerender show ?case by simp
qed simp

text \<open>
  A toast whose parent renders again before the duration is over, with a new \<^verbatim>\<open>onClose\<close> each time (as
  the form does on every change), does not close: however long the renders go on, at the end the one
  pending timer still needs the full duration, and none is due.
\<close>

lemma toast_postponed:
  assumes "steps toast_step (toast_mount d f) (rerendered d gs) t" and "new_each_time d f gs" and "0 < d"
  shows "deadline (toast_timers t) = [timer t \<mapsto> clock (toast_timers t) + d] \<and> (\<forall>i. \<not> due i (toast_timers t))"
proof -
  have "onClose (toast_mount d f) = f" by (simp add: toast_mount_def toast_effect_def case_prod_beta)
  with assms rerendered_timers[OF assms(1)] toast_mount_timers[of d f]
  have "deadline (toast_timers t) = [timer t \<mapsto> clock (toast_timers t) + d]" by simp
  with assms(3) show ?thesis by (simp add: due_iff)
qed

lemma toast_postponed_example:
  "\<exists>t. steps toast_step (toast_mount 5000 1) (rerendered 5000 [(4000, 2), (4000, 3)]) t \<and>
     (\<forall>i. \<not> due i (toast_timers t))"
proof -
  obtain t where run: "steps toast_step (toast_mount 5000 1) (rerendered 5000 [(4000, 2), (4000, 3)]) t"
    by (simp add: steps_Cons_iff toast_step_iff)
  with toast_postponed[OF run] show ?thesis by auto
qed

section \<open>CollapsibleSection\<close>

record section_state =
  isExpanded :: bool
  contentHeight :: "nat option"

definition section_mount :: "bool \<Rightarrow> section_state" where
  "section_mount defaultExpanded = \<lparr>isExpanded = defaultExpanded, contentHeight = None\<rparr>"

text \<open>The effect after a render with new children: their height, when the container is there.\<close>

definition measure_content :: "nat option \<Rightarrow> section_state \<Rightarrow> section_state" where
  "measure_content scrollHeight s =
     (case scrollHeight of None \<Rightarrow> s | Some h \<Rightarrow> s\<lparr>contentHeight := Some h\<rparr>)"

definition toggleExpanded :: "section_state \<Rightarrow> section_state" where
  "toggleExpanded s = s\<lparr>isExpanded := \<not> isExpanded s\<rparr>"

definition height_style :: "section_state \<Rightarrow> string" where
  "height_style s =
     (if isExpanded s
      then (case contentHeight s of None \<Rightarrow> ''auto''
        | Some h \<Rightarrow> if h = 0 then ''auto'' else nat_to_string h @ ''px'')
      else ''0px'')"

text \<open>The view: the arrow of the button is turned while the section is expanded.\<close>

record 'v section_view =
  heading_class :: string
  arrow_class :: string
  heading :: string
  content_height :: string
  content :: 'v

definition CollapsibleSection :: "string \<Rightarrow> string option \<Rightarrow> 'v \<Rightarrow> section_state \<Rightarrow> 'v section_view" where
  "CollapsibleSection title titleColor children s =
     \<lparr>heading_class = ''font-medium '' @ (case titleColor of None \<Rightarrow> ''text-blue-300'' | Some c \<Rightarrow> c) @ '' flex items-center'',
      arrow_class = ''w-4 h-4 mr-2 transform transition-transform duration-200 '' @ (if isExpanded s then ''rotate-90'' else ''''),
      heading = title, content_height = height_style s, content = children\<rparr>"

lemma nat_to_string_0: "nat_to_string h = ''0'' \<longleftrightarrow> h = 0"
proof
  assume h: "nat_to_string h = ''0''"
  then have "length (nat_to_string h) = 1" by simp
  then have "h < 10" by (subst (asm) nat_to_string.simps) (auto split: if_splits)
  with h have "digit_char h = CHR ''0''" by (subst (asm) nat_to_string.simps) simp
  then have "of_char (char_of (48 + h)) = (48 :: nat)" by (simp add: digit_char_def)
  with \<open>h < 10\<close> show "h = 0" by simp
next
  have "char_of (48 :: nat) = CHR ''0''" by (simp add: char_of_def bit_simps)
  then show "h = 0 \<Longrightarrow> nat_to_string h = ''0''" by (simp add: nat_to_string.simps digit_char_def)
qed

text \<open>
  The style hides the content exactly when the section is collapsed: whatever was measured, an expanded section
  never has the height \<open>0px\<close>, and toggling twice restores the section.
\<close>

lemma collapsed_iff_hidden:
  "(height_style s = ''0px'' \<longleftrightarrow> \<not> isExpanded s) \<and> toggleExpanded (toggleExpanded s) = s \<and>
   height_style (toggleExpanded s) \<noteq> height_style s"
proof -
  have px: "nat_to_string h @ ''px'' = ''0px'' \<longleftrightarrow> h = 0" for h
    using append_same_eq[of "nat_to_string h" "''px''" "''0''"] nat_to_string_0[of h] by simp
  then have "(height_style s = ''0px'') = (\<not> isExpanded s)" for s
    by (auto simp: height_style_def split: option.splits)
  from this[of s] this[of "toggleExpanded s"] show ?thesis
    by (cases "isExpanded s") (auto simp: toggleExpanded_def)
qed

text \<open>The arrow points down exactly when the content is shown.\<close>

lemma arrow_agrees_with_content:
  "arrow_class (CollapsibleSection t c v s) = ''w-4 h-4 mr-2 transform transition-transform duration-200 rotate-90'' \<longleftrightarrow>
     content_height (CollapsibleSection t c v s) \<noteq> ''0px''"
  using collapsed_iff_hidden[of s] by (auto simp: CollapsibleSection_def)

section \<open>ErrorBoundary\<close>

record boundary =
  hasError :: bool
  caught :: "thrown option"

definition boundary_mount :: boundary where
  "boundary_mount = \<lparr>hasError = False, caught = None\<rparr>"

definition getDerivedStateFromError :: "thrown \<Rightarrow> boundary" where
  "getDerivedStateFromError t = \<lparr>hasError = True, caught = Some t\<rparr>"

definition try_again :: "boundary \<Rightarrow> boundary" where
  "try_again s = s\<lparr>hasError := False\<rparr>"

text \<open>\<^verbatim>\<open>this.state.error?.message\<close>: undefined for a thrown value that is not an error.\<close>

fun thrown_message :: "thrown \<Rightarrow> string option" where
  "thrown_message (ErrorObject m) = Some m"
| "thrown_message OtherThrown = None"

datatype 'v boundary_view = Children 'v | Fallback "string option"

definition boundary_fallback :: "boundary \<Rightarrow> 'v boundary_view" where
  "boundary_fallback s = Fallback (case caught s of None \<Rightarrow> None | Some t \<Rightarrow> thrown_message t)"

text \<open>
  One render: the children are rendered unless an error is held, and an error they throw is caught,
  becomes the state, and the boundary renders again.
\<close>

definition ErrorBoundary :: "boundary \<Rightarrow> thrown + 'v \<Rightarrow> boundary \<times> 'v boundary_view" where
  "ErrorBoundary s children =
     (if hasError s then (s, boundary_fallback s)
      else case children of
        Inr v \<Rightarrow> (s, Children v)
      | Inl t \<Rightarrow> (getDerivedStateFromError t, boundary_fallback (getDerivedStateFromError t)))"

text \<open>Renders in sequence, with the children's results and the clicks on \<^verbatim>\<open>Try again\<close>.\<close>

datatype 'v boundary_event = Render "thrown + 'v" | TryAgain

fun boundary_step :: "boundary \<Rightarrow> 'v boundary_event \<Rightarrow> boundary" where
  "boundary_step s (Render c) = fst (ErrorBoundary s c)"
| "boundary_step s TryAgain = try_again s"

lemma boundary_sticky:
  "hasError s \<Longrightarrow> TryAgain \<notin> set es \<Longrightarrow> foldl boundary_step s es = s"
proof (induction es)
  case (Cons e es)
  then show ?case by (cases e) (auto simp: ErrorBoundary_def)
qed simp

text \<open>
  An error of the children never leaves the boundary: the page shows its message, and goes on
  showing it through all later renders, even of children that would no longer throw, until the user clicks
  \<open>Try again\<close>; then the children are rendered anew.
\<close>

lemma boundary_keeps_error:
  assumes "\<not> hasError s" and "TryAgain \<notin> set es"
  shows "let s' = foldl boundary_step s (Render (Inl t) # es) in
     snd (ErrorBoundary s' c) = Fallback (thrown_message t) \<and>
     snd (ErrorBoundary (boundary_step s' TryAgain) c) =
       (case c of Inr v \<Rightarrow> Children v | Inl u \<Rightarrow> Fallback (thrown_message u))"
proof -
  have "foldl boundary_step s (Render (Inl t) # es) = getDerivedStateFromError t"
    using boundary_sticky[of "getDerivedStateFromError t" es] assms
    by (simp add: ErrorBoundary_def getDerivedStateFromError_def)
  then show ?thesis
    by (auto simp: ErrorBoundary_def getDerivedStateFromError_def boundary_fallback_def try_again_def split: sum.splits)
qed

lemma boundary_keeps_error_example:
  "snd (ErrorBoundary (foldl boundary_step boundary_mount [Render (Inl (ErrorObject ''boom'')), Render (Inr (0 :: nat))]) (Inr (1 :: nat)))
     = Fallback (Some ''boom'')"
  using boundary_keeps_error[of boundary_mount "[Render (Inr (0 :: nat))]" "ErrorObject ''boom''" "Inr (1 :: nat)"]
  by (simp add: boundary_mount_def Let_def)

end
