(* ===== verification/Examples.thy ===== *)
theory Examples
  imports Prelude "HOL-Library.Multiset"
begin

text \<open>
  The built-in examples of \<^verbatim>\<open>src/data/examples.ts\<close> and the menu that selects them,
  \<^verbatim>\<open>src/components/ExampleSelector.tsx\<close>. A template literal is given by its lines.
\<close>

section \<open>The examples\<close>

record example =
  cpp :: string
  rust :: string

definition simple_struct :: example where
  "simple_struct = \<lparr>cpp = join [newline]
     [''struct Point {'',
      ''    int x;'',
      ''    int y;'',
      ''};'',
      '''',
      ''Point create_point(int x, int y) {'',
      ''    return Point { x, y };'',
      ''}''],
    rust = join [newline]
     [''#[repr(C)]'',
      ''#[derive(Clone, Copy)]'',
      ''pub struct Point {'',
      ''    pub x: i32,'',
      ''    pub y: i32,'',
      ''}'',
      '''',
      ''pub fn create_point(x: i32, y: i32) -> Point {'',
      ''    Point { x, y }'',
      ''}'']\<rparr>"

definition simple_enum :: example where
  "simple_enum = \<lparr>cpp = join [newline]
     [''enum Color {'',
      ''    Red,'',
      ''    Green,'',
      ''    Blue,'',
      ''};'',
      '''',
      ''Color create_color(int x) {'',
      ''    return static_cast<Color>(x);'',
      ''}''],
    rust = join [newline]
     [''#[repr(i32)]'',
      ''#[derive(Clone, Copy)]'',
      ''pub enum Color {'',
      ''    Red = 0,'',
      ''    Green = 1,'',
      ''    Blue = 2,'',
      ''}'',
      '''',
      ''pub fn create_color(x: i32) -> Color {'',
      ''    unsafe { std::mem::transmute(x) }'',
      ''}'']\<rparr>"

definition switch_case :: example where
  "switch_case = \<lparr>cpp = join [newline]
     [''int classify_char(char c) {'',
      ''    switch (c) {'',
      ''        case '' @ [CHR 0x27] @ '' '' @ [CHR 0x27] @ '':'',
      ''        case '' @ [CHR 0x27] @ [CHR 0x5C] @ ''t'' @ [CHR 0x27] @ '':'',
      ''        case '' @ [CHR 0x27] @ [CHR 0x5C] @ ''n'' @ [CHR 0x27] @ '': return 0;'',
      ''        case '' @ [CHR 0x27] @ ''0'' @ [CHR 0x27] @ '' ... '' @ [CHR 0x27] @ ''9'' @ [CHR 0x27] @ '': return 1;'',
      ''        case '' @ [CHR 0x27] @ ''a'' @ [CHR 0x27] @ '' ... '' @ [CHR 0x27] @ ''z'' @ [CHR 0x27] @ '':'',
      ''        case '' @ [CHR 0x27] @ ''A'' @ [CHR 0x27] @ '' ... '' @ [CHR 0x27] @ ''Z'' @ [CHR 0x27] @ '': return 2;'',
      ''        default: return 3;'',
      ''    }'',
      ''}''],
    rust = join [newline]
     [''pub extern \"C\" fn classify_char(c: i8) -> i32 {'',
      ''    match c as u8 as char {'',
      ''        '' @ [CHR 0x27] @ '' '' @ [CHR 0x27] @ '' | '' @ [CHR 0x27] @ [CHR 0x5C] @ ''t'' @ [CHR 0x27] @ '' | '' @ [CHR 0x27] @ [CHR 0x5C] @ ''n'' @ [CHR 0x27] @ '' => 0,'',
      ''        '' @ [CHR 0x27] @ ''0'' @ [CHR 0x27] @ ''..='' @ [CHR 0x27] @ ''9'' @ [CHR 0x27] @ '' => 1,'',
      ''        '' @ [CHR 0x27] @ ''a'' @ [CHR 0x27] @ ''..='' @ [CHR 0x27] @ ''z'' @ [CHR 0x27] @ '' | '' @ [CHR 0x27] @ ''A'' @ [CHR 0x27] @ ''..='' @ [CHR 0x27] @ ''Z'' @ [CHR 0x27] @ '' => 2,'',
      ''        _ => 3'',
      ''    }'',
      ''}'']\<rparr>"

definition add_u32 :: example where
  "add_u32 = \<lparr>cpp = join [newline]
     [''/// note that in cpp, the addition of two unsigned integers (or unsigned integer arithmetic)'',
      ''/// is always well-defined with potential wrapping behavior.'',
      ''unsigned int add(unsigned int a, unsigned int b) {'',
      ''    return a + b;'',
      ''}''],
    rust = join [newline]
     [''/// for the addition of two unsigned integers, Alive2 correctly identifies'',
      ''/// the different behaviors between source C++ (implicitly wrapping) and'',
      ''/// target Rust (panics when overflow happens).'',
      ''pub fn add(a: u32, b: u32) -> u32 {'',
      ''    a + b'',
      ''}'']\<rparr>"

definition binary_search :: example where
  "binary_search = \<lparr>cpp = join [newline]
     [''#include <cstdint>'',
      '''',
      ''int32_t binary_search(const int32_t *arr, int64_t size, const int32_t *target) {'',
      ''    int32_t left = 0;'',
      ''    int32_t right = size - 1;'',
      '''',
      ''    while (left <= right) {'',
      ''        int32_t mid = left + ((right - left) / 2);'',
      ''        '',
      ''        if (arr[mid] == *target) {'',
      ''            return mid;'',
      ''        }'',
      ''        '',
      ''        if (arr[mid] < *target) {'',
      ''            left = mid + 1;'',
      ''        } else {'',
      ''            if (mid == 0) {'',
      ''                break;'',
      ''            }'',
      ''            right = mid - 1;'',
      ''        }'',
      ''    }'',
      ''    '',
      ''    return -1;'',
      ''}''],
    rust = join [newline]
     [''pub fn binary_search(arr: &[i32], target: &i32) -> i32 {'',
      ''    let mut left: i32 = 0;'',
      ''    let mut right: i32 = arr.len().wrapping_sub(1) as i32;'',
      '''',
      ''    while left <= right {'',
      ''        let mid = left.wrapping_add((right.wrapping_sub(left)) / 2);'',
      ''        let mid_idx = mid as usize;'',
      '''',
      ''        if arr[mid_idx] == *target {'',
      ''            return mid;'',
      ''        }'',
      '''',
      ''        if arr[mid_idx] < *target {'',
      ''            left = mid.wrapping_add(1);'',
      ''        } else {'',
      ''            if mid == 0 {'',
      ''                break;'',
      ''            }'',
      ''            right = mid.wrapping_sub(1);'',
      ''        }'',
      ''    }'',
      '''',
      ''    -1'',
      ''}'']\<rparr>"

definition access_array :: example where
  "access_array = \<lparr>cpp = join [newline]
     [''int access_array(unsigned int index) {'',
      ''    int arr[10] {};'',
      '''',
      ''    // to preserve the memory layout as rust'' @ [CHR 0x27] @ ''s'',
      ''    arr[0] = 0;'',
      ''    arr[1] = 1;'',
      ''    arr[2] = 2;'',
      ''    arr[3] = 3;'',
      ''    arr[4] = 4;'',
      ''    arr[5] = 5;'',
      ''    arr[6] = 6;'',
      ''    arr[7] = 7;'',
      ''    arr[8] = 8;'',
      ''    arr[9] = 9;'',
      '''',
      ''    // a subtle unsigned integer overflow \"feature\" in cpp,'',
      ''    // i.e., implicitly wraps around.'',
      ''    // e.g., when considering the input `index` as 0xfffffffc (4294967292, -4),'',
      ''    // this function is more *defined* than the rust (panic) version.'',
      ''    return arr[10 + index];'',
      ''}''],
    rust = join [newline]
     [''pub fn access_array(index: u32) -> i32 {'',
      ''    let arr = [0, 1, 2, 3, 4, 5, 6, 7, 8, 9];'',
      '''',
      ''    arr[10 + index as usize]'',
      ''}'']\<rparr>"

definition deref :: example where
  "deref = \<lparr>cpp = join [newline]
     [''/// qq: is this a false positive (i.e., they are not semantically equivalent while alive2 claims they are)?'',
      ''///     1. from llvm ir'' @ [CHR 0x27] @ ''s perspective?'',
      ''///        - does alive2 have the visibility of (____) ?'',
      ''///     2. from cpp/rust'' @ [CHR 0x27] @ ''s perspective?'',
      ''///        - do we have the visibility of (____) ?'',
      ''int deref(const int *ptr) {'',
      ''    // ptr could be (____) here, which will trigger a segfault.'',
      ''    return *ptr;'',
      ''}''],
    rust = join [newline]
     [''/// a \"safer\" translation - is this semantically equivalent?'',
      ''/// plus, do we really want the \"semantic equivalence\" when migrating from cpp to rust?'',
      ''pub fn deref(ptr: &i32) -> i32 {'',
      ''    // `ptr` is guaranteed non-null by type system,'',
      ''    // so that this is always safe, reference is guaranteed valid.'',
      ''    *ptr'',
      ''}'']\<rparr>"

definition simple_generic :: example where
  "simple_generic = \<lparr>cpp = join [newline]
     [''template <typename T>'',
      ''T add_generic(T a, T b) {'',
      ''    return a + b;'',
      ''}'',
      '''',
      ''template int add_generic<int>(int a, int b);'',
      ''template float add_generic<float>(float a, float b);''],
    rust = join [newline]
     [''use std::ops::Add;'',
      '''',
      ''// generic add function'',
      ''pub fn add_generic<T: Add<Output = T>>(a: T, b: T) -> T {'',
      ''    a + b'',
      ''}'',
      '''',
      ''// explicit instantiation for int (equivalent to template int add_generic<int>)'',
      ''pub extern \"C\" fn add_generic_int(a: i32, b: i32) -> i32 {'',
      ''    add_generic(a, b)'',
      ''}'',
      '''',
      ''// explicit instantiation for float'',
      ''pub extern \"C\" fn add_generic_float(a: f32, b: f32) -> f32 {'',
      ''    add_generic(a, b)'',
      ''}'']\<rparr>"

definition initialize_array :: example where
  "initialize_array = \<lparr>cpp = join [newline]
     [''/// memory layout is considered when checking semantic equivalence,'',
      ''/// e.g., the array initialization in this cpp function uses both'',
      ''/// non-local and local (memory) blocks.'',
      ''void initialize_array() {'',
      ''    int arr[10] = { 0, 1, 2, 3, 4, 5, 6, 7, 8, 9 };'',
      ''}''],
    rust = join [newline]
     [''/// memory layout is different, i.e., only 40 bytes of'',
      ''/// local (memory) blocks are used.'',
      ''pub fn initialize_array() {'',
      ''    let _arr = [0, 1, 2, 3, 4, 5, 6, 7, 8, 9];'',
      ''}'']\<rparr>"

definition clone :: example where
  "clone = \<lparr>cpp = join [newline]
     [''struct Point {'',
      ''    int x;'',
      ''    int y;'',
      ''};'',
      '''',
      ''int clone_point_and_read_x(int x, int y) {'',
      ''    Point p = { x, y };'',
      ''    Point p_clone = p;'',
      ''    return p_clone.x;'',
      ''}''],
    rust = join [newline]
     [''#[repr(C)]'',
      ''#[derive(Clone)]'',
      ''pub struct Point {'',
      ''    pub x: i32,'',
      ''    pub y: i32,'',
      ''}'',
      '''',
      ''pub fn clone_point_and_read_x(x: i32, y: i32) -> i32 {'',
      ''    let p = Point { x, y };'',
      ''    let p_clone = p.clone();'',
      ''    p_clone.x'',
      ''}'']\<rparr>"

definition bitfield_ops :: example where
  "bitfield_ops = \<lparr>cpp = join [newline]
     [''unsigned int extract_bits(unsigned int value, unsigned int start, unsigned int length) {'',
      ''    return (value >> start) & ((1u << length) - 1);'',
      ''}''],
    rust = join [newline]
     [''pub fn extract_bits(value: u32, start: u32, length: u32) -> u32 {'',
      ''    (value >> start) & ((1u32 << length) - 1)'',
      ''}'']\<rparr>"

definition div_by_zero :: example where
  "div_by_zero = \<lparr>cpp = join [newline]
     [''/// ub will be detected by alive2, this is also considered semantically'',
      ''/// different from the rust version.'',
      ''int div_by_zero(int a, int b) {'',
      ''    return a / (b - b);'',
      ''}''],
    rust = join [newline]
     [''/// the source cpp module is ub, and the function attrs are different'',
      ''/// so the verifier fails to compare the two even after switching the order.'',
      ''pub fn div_by_zero(a: i32, b: i32) -> i32 {'',
      ''    a / (b - b)'',
      ''}'']\<rparr>"

definition callback :: example where
  "callback = \<lparr>cpp = join [newline]
     [''/// function pointer example, the verification will timeout.'',
      ''/// note: function pointer is one of the unsupported features of alive2.'',
      ''int process(int (*callback)(int), int x) {'',
      ''    return callback(x);'',
      ''}''],
    rust = join [newline]
     [''/// it is worth noting that this translation follows the simplest'',
      ''/// function pointer style in rust, in order to type check'',
      ''/// with the cpp llvm ir when verifying by alive2.'',
      ''pub fn process(callback: fn(i32) -> i32, x: i32) -> i32 {'',
      ''    callback(x)'',
      ''}'']\<rparr>"

definition simple_reference :: example where
  "simple_reference = \<lparr>cpp = join [newline]
     [''void swap(int &a, int &b) {'',
      ''    int temp = a;'',
      ''    a = b;'',
      ''    b = temp;'',
      ''}''],
    rust = join [newline]
     [''/// the reference needs to be explicit mutable,'',
      ''/// note that the parameters in the generated ir functions are just pointers (e.g., ptr align 4 %a)'',
      ''/// since other guarantees are enforced by rust'' @ [CHR 0x27] @ ''s type system at compile time -'',
      ''/// which is much simpler than those \"explicit attribute requirements\" in cpp'' @ [CHR 0x27] @ ''s ir.'',
      ''/// see `simple_reference_cpp/rs.ll` for more details.'',
      ''pub fn swap(a: &mut i32, b: &mut i32) {'',
      ''    let temp = *a;'',
      ''    *a = *b;'',
      ''    *b = temp;'',
      ''}'']\<rparr>"

definition union :: example where
  "union = \<lparr>cpp = join [newline]
     [''union IntFloat {'',
      ''    int i;'',
      ''    float f;'',
      ''};'',
      '''',
      ''float int_bits_to_float(int bits) {'',
      ''    IntFloat u;'',
      ''    u.i = bits;'',
      ''    return u.f;'',
      ''}''],
    rust = join [newline]
     [''union IntFloat {'',
      ''    i: i32,'',
      ''    f: f32,'',
      ''}'',
      '''',
      ''pub fn int_bits_to_float(bits: i32) -> f32 {'',
      ''    unsafe {'',
      ''        let u = IntFloat { i: bits };'',
      ''        u.f'',
      ''    }'',
      ''}'']\<rparr>"

definition factorial :: example where
  "factorial = \<lparr>cpp = join [newline]
     [''int factorial(int n) {'',
      ''    if (n <= 1) {'',
      ''        return 1;'',
      ''    }'',
      ''    return n * factorial(n - 1);'',
      ''}''],
    rust = join [newline]
     [''/// nested function call is not supported by alive2,'',
      ''/// so that the recursive call to `factorial` will be trivially'',
      ''/// marked as undefined behavior (UB) and rejected by alive2.'',
      ''pub fn factorial(n: i32) -> i32 {'',
      ''    if n <= 1 {'',
      ''        return 1;'',
      ''    }'',
      ''    n.wrapping_mul(factorial(n - 1))'',
      ''}'']\<rparr>"

definition nested_switch :: example where
  "nested_switch = \<lparr>cpp = join [newline]
     [''int process_tokens(char type, int value) {'',
      ''    switch (type) {'',
      ''        case '' @ [CHR 0x27] @ ''n'' @ [CHR 0x27] @ '':'',
      ''            switch (value) {'',
      ''                case 0: return -1;'',
      ''                case 1:'',
      ''                case 2: return value * 10;'',
      ''                default:'',
      ''                    if (value > 100) return 100;'',
      ''            }'',
      ''        case '' @ [CHR 0x27] @ ''c'' @ [CHR 0x27] @ '':'',
      ''            if (value < 32) return 0;'',
      ''        case '' @ [CHR 0x27] @ ''s'' @ [CHR 0x27] @ '':'',
      ''            return value + 50;'',
      ''        default:'',
      ''            return -99;'',
      ''    }'',
      ''}''],
    rust = join [newline]
     [''/// the extern \"C\" and `i8` are the same as in `switch_case.rs`.'',
      ''/// note that we need to use `wrapping_mul` and `wrapping_add`'',
      ''/// to make alive2 happy.'',
      ''pub extern \"C\" fn process_tokens(type_: i8, value: i32) -> i32 {'',
      ''    match type_ as u8 as char {'',
      ''        '' @ [CHR 0x27] @ ''n'' @ [CHR 0x27] @ '' => {'',
      ''            match value {'',
      ''                0 => -1,'',
      ''                1 | 2 => value.wrapping_mul(10),'',
      ''                v if v > 100 => 100,'',
      ''                v => {'',
      ''                    if v < 32 { 0 }'',
      ''                    else { v.wrapping_add(50) }'',
      ''                }'',
      ''            }'',
      ''        }'',
      ''        '' @ [CHR 0x27] @ ''c'' @ [CHR 0x27] @ '' => {'',
      ''            if value < 32 { 0 }'',
      ''            else { value.wrapping_add(50) }'',
      ''        }'',
      ''        '' @ [CHR 0x27] @ ''s'' @ [CHR 0x27] @ '' => value.wrapping_add(50),'',
      ''        _ => -99'',
      ''    }'',
      ''}'']\<rparr>"

definition examples :: "(string \<times> example) list" where
  "examples =
     [(''simple_struct'', simple_struct),
      (''simple_enum'', simple_enum),
      (''switch_case'', switch_case),
      (''add_u32'', add_u32),
      (''binary_search'', binary_search),
      (''access_array'', access_array),
      (''deref'', deref),
      (''simple_generic'', simple_generic),
      (''initialize_array'', initialize_array),
      (''clone'', clone),
      (''bitfield_ops'', bitfield_ops),
      (''div_by_zero'', div_by_zero),
      (''callback'', callback),
      (''simple_reference'', simple_reference),
      (''union'', union),
      (''factorial'', factorial),
      (''nested_switch'', nested_switch)]"

section \<open>The menu\<close>

definition example_options :: "(string \<times> string) list" where
  "example_options =
     [('''', ''Select an example...''),
      (''simple_struct'', ''Simple Struct''),
      (''simple_enum'', ''Simple Enum''),
      (''switch_case'', ''Switch Case''),
      (''add_u32'', ''Add Unsigned Integers''),
      (''simple_generic'', ''Simple Generic''),
      (''deref'', ''Dereference''),
      (''binary_search'', ''Binary Search''),
      (''access_array'', ''Access Array''),
      (''simple_reference'', ''Simple Reference''),
      (''union'', ''Union''),
      (''initialize_array'', ''Initialize Array''),
      (''div_by_zero'', ''Divide By Zero''),
      (''clone'', ''Clone''),
      (''callback'', ''Callback''),
      (''bitfield_ops'', ''Bitfield Operations''),
      (''factorial'', ''Factorial''),
      (''nested_switch'', ''Nested Switch'')]"

text \<open>
  The menu's handler: the empty value selects nothing; another one looks the example up, and reading the code
  of an example that is not there would be a type error (\<open>None\<close>).
\<close>

definition select_example :: "(string \<Rightarrow> string \<Rightarrow> 's \<Rightarrow> 's) \<Rightarrow> string \<Rightarrow> 's \<Rightarrow> 's option" where
  "select_example onSelect value s =
     (if value = [] then Some s
      else case map_of examples value of
        None \<Rightarrow> None
      | Some ex \<Rightarrow> Some (onSelect (cpp ex) (rust ex) s))"

section \<open>Properties\<close>

lemma example_lengths:
  "list_all (\<lambda>(k, ex). 0 < length (cpp ex) \<and> length (cpp ex) \<le> 2000 \<and> 0 < length (rust ex) \<and> length (rust ex) \<le> 2000) examples"
  by code_simp

lemma example_keys: "distinct (map fst examples)"
  by code_simp

lemma options_are_keys: "set (map fst example_options) = insert [] (set (map fst examples))"
  by code_simp

lemma map_of_option: "v \<in> set (map fst example_options) \<Longrightarrow> v \<noteq> [] \<Longrightarrow> \<exists>ex. map_of examples v = Some ex \<and> (v, ex) \<in> set examples"
proof -
  assume "v \<in> set (map fst example_options)" "v \<noteq> []"
  then have "v \<in> fst ` set examples" unfolding options_are_keys by simp
  then have "map_of examples v \<noteq> None" by (simp add: map_of_eq_None_iff)
  then show ?thesis using map_of_SomeD by force
qed

text \<open>
  The menu and the examples match: its values are the empty one and the names of the examples, each example once,
  so every choice is handled without an error, and a choice other than the empty one puts the code of
  that example into both editors.
\<close>

lemma menu_matches_examples:
  assumes "v \<in> set (map fst example_options)"
  shows "\<exists>t. select_example onSelect v s = Some t \<and>
     (v = [] \<and> t = s \<or> (\<exists>ex. (v, ex) \<in> set examples \<and> t = onSelect (cpp ex) (rust ex) s)) \<and>
     distinct (map fst examples) \<and> mset (map fst example_options) = mset ([] # map fst examples)"
proof -
  have "distinct (map fst example_options)" "distinct ([] # map fst examples)" by code_simp+
  with options_are_keys have "mset (map fst example_options) = mset ([] # map fst examples)"
    by (metis list.simps(15) set_eq_iff_mset_eq_distinct)
  moreover have "\<exists>t. select_example onSelect v s = Some t \<and>
     (v = [] \<and> t = s \<or> (\<exists>ex. (v, ex) \<in> set examples \<and> t = onSelect (cpp ex) (rust ex) s))"
    using map_of_option[OF assms] by (cases "v = []") (auto simp: select_example_def)
  ultimately show ?thesis using example_keys by blast
qed

end
