(* ===== verification/System.thy ===== *)
theory System
  imports Routes EditorForm IRModal CodeEditor Widgets Examples
begin

text \<open>
  The parts put together: the form with the two API routes and the relay behind them, and the page that
  holds the form in an error boundary (\<^verbatim>\<open>src/components/ValidationForm.tsx\<close>).
\<close>

section \<open>The form and the routes\<close>

text \<open>The server picks the route by its path; the client receives what the route answers.\<close>

definition route :: "relay \<Rightarrow> string option \<Rightarrow> request \<Rightarrow> outcome" where
  "route relay env q =
     (let req = Inr (ObjectBody (sent_fields q)) in
      if url q = ''/api/generate-ir'' then received (generate_ir_POST relay env req)
      else received (validate_POST relay env req))"

text \<open>The events by which the one run in flight sees an outcome, and the whole of a run.\<close>

fun deliver :: "outcome \<Rightarrow> form_event list" where
  "deliver (Rejected t) = [Responds 0 (Inl t)]"
| "deliver (Responded ok json) = [Responds 0 (Inr ok), Parses 0 json]"

definition serve :: "relay \<Rightarrow> string option \<Rightarrow> form \<Rightarrow> form" where
  "serve relay env s =
     (if flights s = [] then s
      else foldl (\<lambda>s e. handle e s) s (deliver (route relay env (last (sent s)))))"

definition complete_run :: "relay \<Rightarrow> string option \<Rightarrow> form \<Rightarrow> form" where
  "complete_run relay env s = serve relay env (serve relay env (handleSubmit s))"

definition ready :: "form \<Rightarrow> bool" where
  "ready s \<longleftrightarrow> flights s = [] \<and> cppCode s \<noteq> [] \<and> rustCode s \<noteq> [] \<and>
     length (cppCode s) \<le> CODE_LENGTH_LIMIT \<and> length (rustCode s) \<le> CODE_LENGTH_LIMIT"

text \<open>What the relay is asked for the code of a form, and for two IRs.\<close>

definition generate_query :: "string option \<Rightarrow> form \<Rightarrow> request" where
  "generate_query env s =
     relay_request env ''/api/generate-ir'' [''cppCode'', ''rustCode''] [Str (cppCode s), Str (rustCode s)]"

definition validate_query :: "string option \<Rightarrow> form \<Rightarrow> string \<Rightarrow> string \<Rightarrow> request" where
  "validate_query env s c q =
     relay_request env ''/api/validate'' [''cppIR'', ''rustIR'', ''cppFunctionName'', ''rustFunctionName'']
       [Str c, Str q, Str (name_or_empty (cppFunctionName s)), Str (name_or_empty (rustFunctionName s))]"

lemma get_field_serialize [simp]:
  "(\<And>fs. b = ObjectBody fs \<Longrightarrow> distinct (map fst fs)) \<Longrightarrow> get_field (serialize b) k = get_field b k"
  by (cases b) (simp_all del: field_of.simps)

text \<open>The form's state after the submit, and while the validation runs.\<close>

definition submitted :: "form \<Rightarrow> form" where
  "submitted s = s\<lparr>isGeneratingIR := True, result := None, toast := Some (InfoToast, ''Generating LLVM IR...''),
     sent := sent s @ [\<lparr>url = ''/api/generate-ir'',
       sent_fields = [(''cppCode'', Str (cppCode s)), (''rustCode'', Str (rustCode s))]\<rparr>],
     flights := [\<lparr>cpp_name = cppFunctionName s, rust_name = rustFunctionName s, waiting = IRResponse\<rparr>]\<rparr>"

definition validation_sent :: "form \<Rightarrow> string \<Rightarrow> string \<Rightarrow> form" where
  "validation_sent s c q =
     (let r = \<lparr>cpp_name = cppFunctionName s, rust_name = rustFunctionName s, waiting = ValResponse\<rparr> in
      (submitted s)\<lparr>cppIR := Str c, rustIR := Str q, showIRModal := True, isLoading := True,
        toast := Some (InfoToast, ''LLVM IR generated, starting validation...''),
        sent := sent (submitted s) @ [validate_request r (Str c) (Str q)], flights := [r]\<rparr>)"

lemma submit_ready: "ready s \<Longrightarrow> handleSubmit s = submitted s"
  by (simp add: ready_def handleSubmit_def Let_def check_limits_def showToast_def json_fields_def submitted_def)

text \<open>A relay answer the routes pass on: an object without an error.\<close>

definition good_answer :: "outcome \<Rightarrow> (string \<times> jprim) list \<Rightarrow> bool" where
  "good_answer r fs \<longleftrightarrow> r = Responded True (Inr (ObjectBody fs)) \<and> distinct (map fst fs) \<and> \<not> truthy (field_of fs ''error'')"

lemma route_generate:
  "route relay env \<lparr>url = ''/api/generate-ir'', sent_fields = [(''cppCode'', Str (cppCode s)), (''rustCode'', Str (rustCode s))]\<rparr> =
     received (case relay (generate_query env s) of
       Rejected t \<Rightarrow> \<lparr>status = 500, payload = ObjectBody [(''error'', Str (error_message t))]\<rparr>
     | Responded ok json \<Rightarrow> (case and_then json (answer ok) of
         Inr r \<Rightarrow> r
       | Inl t \<Rightarrow> \<lparr>status = 500, payload = ObjectBody [(''error'', Str (error_message t))]\<rparr>))"
  by (simp add: route_def generate_ir_POST_def forward_def generate_query_def split: outcome.splits)

lemma route_validate:
  "route relay env (validate_request \<lparr>cpp_name = cppFunctionName s, rust_name = rustFunctionName s, waiting = w\<rparr> (Str c) (Str q)) =
     received (case relay (validate_query env s c q) of
       Rejected t \<Rightarrow> \<lparr>status = 500, payload = failure_result (error_message t)\<rparr>
     | Responded ok json \<Rightarrow> (case and_then json (answer ok) of
         Inr r \<Rightarrow> r
       | Inl t \<Rightarrow> \<lparr>status = 500, payload = failure_result (error_message t)\<rparr>))"
  by (simp add: route_def validate_request_def json_fields_def validate_POST_def forward_def validate_query_def
      failure_result_def split: outcome.splits sum.splits)

lemma answer_good: "good_answer r fs \<Longrightarrow> answer True (ObjectBody fs) = Inr \<lparr>status = 200, payload = ObjectBody fs\<rparr>"
  by (simp add: good_answer_def answer_def)

lemma received_good:
  "received \<lparr>status = 200, payload = ObjectBody fs\<rparr> = Responded True (Inr (serialize (ObjectBody fs)))"
  by (simp add: received_def)

lemma generation_served:
  assumes "ready s" and "good_answer (relay (generate_query env s)) fs"
    and "field_of fs ''cppIR'' = Str c" and "field_of fs ''rustIR'' = Str q"
    and "length c \<le> LLVM_IR_LENGTH_LIMIT" and "length q \<le> LLVM_IR_LENGTH_LIMIT"
  shows "serve relay env (handleSubmit s) = validation_sent s c q"
proof -
  from assms(2) have d: "distinct (map fst fs)" and e: "\<not> truthy (field_of fs ''error'')"
    and r: "relay (generate_query env s) = Responded True (Inr (ObjectBody fs))" by (simp_all add: good_answer_def)
  have "route relay env (last (sent (submitted s))) = Responded True (Inr (serialize (ObjectBody fs)))"
    using answer_good[OF assms(2)] received_good by (simp add: submitted_def route_generate r)
  then have "serve relay env (submitted s) =
      foldl (\<lambda>s e. handle e s) (submitted s) [Responds 0 (Inr True), Parses 0 (Inr (serialize (ObjectBody fs)))]"
    by (simp add: serve_def submitted_def)
  also have "\<dots> = validation_sent s c q"
    using assms(3-6) d e
    by (simp add: submitted_def validation_sent_def ir_received_def check_response_def start_validation_def
        check_limits_def showToast_def validate_request_def Let_def del: field_of.simps)
  finally show ?thesis by (simp add: submit_ready[OF assms(1)])
qed

section \<open>The page\<close>

text \<open>
  \<^verbatim>\<open>ValidationForm\<close>: the form inside an error boundary. When a render of the form throws, the boundary
  takes it off the page, with its state; \<open>Try again\<close> mounts a new one.
\<close>

record page =
  guard :: boundary
  mounted_form :: "form option"

definition render_form :: "form \<Rightarrow> thrown + element list" where
  "render_form s =
     and_then (render_modal (showIRModal s) (cppIR s) (rustIR s) (result s) (isLoading s))
       (\<lambda>_. Inr (CodeEditorForm s))"

definition ValidationForm :: "boundary \<Rightarrow> form \<Rightarrow> page" where
  "ValidationForm g s =
     (case ErrorBoundary g (render_form s) of
        (g', Children v) \<Rightarrow> \<lparr>guard = g', mounted_form = Some s\<rparr>
      | (g', Fallback m) \<Rightarrow> \<lparr>guard = g', mounted_form = None\<rparr>)"

text \<open>
  The tooltips the page has under the pointer are those of the panels in the modal. Hovering one shows its content;
  when that throws, the boundary takes the form off the page as well. A tooltip that is still visible while the form is
  rendered again counts as hovered again; when one is hidden is left to \<open>Widgets\<close>.
\<close>

definition form_tips :: "form \<Rightarrow> content list" where
  "form_tips s =
     (case render_modal (showIRModal s) (cppIR s) (rustIR s) (result s) (isLoading s) of
        Inr (Some (irs, st)) \<Rightarrow> status_tips st
      | _ \<Rightarrow> [])"

definition hovered :: "page \<Rightarrow> content \<Rightarrow> page" where
  "hovered p tip =
     (case ErrorBoundary (guard p) (render_content tip) of
        (g, Children v) \<Rightarrow> p\<lparr>guard := g\<rparr>
      | (g, Fallback m) \<Rightarrow> \<lparr>guard = g, mounted_form = None\<rparr>)"

datatype page_event = FormEvent form_event | RetryClick | Hover content

inductive page_step :: "page \<Rightarrow> page_event \<Rightarrow> page \<Rightarrow> bool" where
  form_event: "mounted_form p = Some s \<Longrightarrow> form_step s e t \<Longrightarrow>
    page_step p (FormEvent e) (ValidationForm (guard p) t)"
| retry_click: "hasError (guard p) \<Longrightarrow> page_step p RetryClick (ValidationForm (try_again (guard p)) initial)"
| hover: "mounted_form p = Some s \<Longrightarrow> tip \<in> set (form_tips s) \<Longrightarrow> page_step p (Hover tip) (hovered p tip)"

definition page_mount :: page where
  "page_mount = ValidationForm boundary_mount initial"

lemma render_form_initial: "render_form initial = Inr (CodeEditorForm initial)"
  by (simp add: render_form_def render_modal_def initial_def)

lemma ValidationForm_cases:
  assumes "\<not> hasError g"
  shows "ValidationForm g s =
     (case render_form s of
        Inr v \<Rightarrow> \<lparr>guard = g, mounted_form = Some s\<rparr>
      | Inl t \<Rightarrow> \<lparr>guard = getDerivedStateFromError t, mounted_form = None\<rparr>)"
  using assms by (simp add: ValidationForm_def ErrorBoundary_def boundary_fallback_def split: sum.splits)

section \<open>The home page\<close>

text \<open>
  \<^verbatim>\<open>Home\<close> of \<^verbatim>\<open>src/app/page.tsx\<close>: a heading, links, and the page of the form inside a second boundary. The page is
  rendered without an error of its own: what the form throws, its own boundary has caught.
\<close>

datatype home_element =
    Title string
  | Link string string
  | Tagline "string list"
  | FormCard page
  | ErrorCard "string option"
  | Footer string

definition Home :: "boundary \<Rightarrow> page \<Rightarrow> boundary \<times> home_element list" where
  "Home outer p =
     (case ErrorBoundary outer (Inr p) of
        (outer', view) \<Rightarrow>
          (outer',
           [Title ''Translation Validator'',
            Link ''GitHub'' ''https://github.com/xzhseh/translation_validator'',
            Link ''Slides'' ''https://translation-validator.com/slides'',
            Tagline [''Validate semantic equivalence between '', ''C++'', '' and '', ''Rust'', '' LLVM IR using '',
              ''State-Of-The-Art'', '' Verification''],
            case view of Children q \<Rightarrow> FormCard q | Fallback m \<Rightarrow> ErrorCard m,
            Footer ''Powered by '', Link ''Alive2'' ''https://github.com/AliveToolkit/alive2'']))"

text \<open>The outer boundary never catches anything: after any renders of pages it is as it was mounted, and the form's card is shown.\<close>

lemma outer_boundary_idle:
  "fst (foldl (\<lambda>(g, v) p. Home g p) (boundary_mount, v) ps) = boundary_mount \<and> FormCard p \<in> set (snd (Home boundary_mount p))"
proof -
  have home: "Home boundary_mount q = (boundary_mount, snd (Home boundary_mount q))" for q
    by (simp add: Home_def ErrorBoundary_def boundary_mount_def)
  have "fst (foldl (\<lambda>(g, v) p. Home g p) (boundary_mount, v) ps) = boundary_mount" for v
    by (induction ps arbitrary: v) (simp, subst foldl_Cons, subst prod.case, subst home, simp)
  then show ?thesis by (simp add: Home_def ErrorBoundary_def boundary_mount_def)
qed

section \<open>Runs served by the routes\<close>

lemma validation_sent_facts:
  "flights (validation_sent s c q) = [\<lparr>cpp_name = cppFunctionName s, rust_name = rustFunctionName s, waiting = ValResponse\<rparr>]"
  "last (sent (validation_sent s c q)) =
     validate_request \<lparr>cpp_name = cppFunctionName s, rust_name = rustFunctionName s, waiting = ValResponse\<rparr> (Str c) (Str q)"
  by (simp_all add: validation_sent_def Let_def)

lemma validation_served:
  assumes "route relay env (last (sent (validation_sent s c q))) = Responded ok (Inr b)"
  shows "serve relay env (validation_sent s c q) = resume 0 (validation_received
     \<lparr>cpp_name = cppFunctionName s, rust_name = rustFunctionName s, waiting = ValJson ok\<rparr> ok b
     ((validation_sent s c q)\<lparr>flights := [\<lparr>cpp_name = cppFunctionName s, rust_name = rustFunctionName s, waiting = ValJson ok\<rparr>]\<rparr>))"
  using assms by (simp add: serve_def validation_sent_facts(1))

lemma validation_good:
  assumes "good_answer (relay (validate_query env s c q)) fs"
  shows "route relay env (last (sent (validation_sent s c q))) = Responded True (Inr (serialize (ObjectBody fs)))"
  using answer_good[OF assms] received_good assms
  by (simp add: validation_sent_facts(2) route_validate good_answer_def)

lemma validation_thrown:
  assumes "relay (validate_query env s c q) = Rejected t"
  shows "route relay env (last (sent (validation_sent s c q))) = Responded False (Inr (failure_result (error_message t)))"
  by (simp add: validation_sent_facts(2) route_validate assms received_def failure_result_def json_fields_def)

lemma complete_run_good:
  assumes "serve relay env (handleSubmit s) = validation_sent s c q"
    and "good_answer (relay (validate_query env s c q)) fs"
  shows "let t = complete_run relay env s in
     result t = Some (serialize (ObjectBody fs)) \<and> cppIR t = Str c \<and> rustIR t = Str q \<and> showIRModal t \<and>
     flights t = [] \<and> \<not> isGeneratingIR t \<and> \<not> isLoading t \<and>
     toast t = Some (if truthy (field_of fs ''success'') then (SuccessToast, ''Validation completed successfully!'')
                     else (ErrorToast, ''Validation failed. Check the results for details.''))"
  using assms(2) validation_served[OF validation_good[where relay = relay, OF assms(2)]]
  by (simp add: complete_run_def assms(1) validation_received_def check_response_def good_answer_def Let_def
      piece_defs validation_sent_def submitted_def del: field_of.simps)

lemma complete_run_thrown:
  assumes "serve relay env (handleSubmit s) = validation_sent s c q"
    and "relay (validate_query env s c q) = Rejected t"
  shows "toast (complete_run relay env s) = Some (ErrorToast, '''') \<and>
     result (complete_run relay env s) = Some (failure_result '''')"
  using validation_served[OF validation_thrown[where relay = relay, OF assms(2)]]
  by (simp add: complete_run_def assms(1) validation_received_def check_response_def piece_defs failure_result_def)

lemma generation_thrown:
  assumes "ready s" and "relay (generate_query env s) = Rejected t"
  shows "toast (complete_run relay env s) = Some (ErrorToast, error_message t) \<and>
     result (complete_run relay env s) = Some (failure_result (error_message t))"
proof -
  have "route relay env (last (sent (submitted s))) =
      Responded False (Inr (ObjectBody [(''error'', Str (error_message t))]))"
    by (simp add: submitted_def route_generate assms(2) received_def json_fields_def)
  then have "serve relay env (submitted s) =
      foldl (\<lambda>s e. handle e s) (submitted s)
        [Responds 0 (Inr False), Parses 0 (Inr (ObjectBody [(''error'', Str (error_message t))]))]"
    by (simp add: serve_def submitted_def)
  also have "toast \<dots> = Some (ErrorToast, error_message t) \<and>
      result \<dots> = Some (failure_result (error_message t)) \<and> flights \<dots> = []"
    by (simp add: submitted_def ir_received_def check_response_def piece_defs)
  finally show ?thesis by (simp add: complete_run_def submit_ready[OF assms(1)]) (simp add: serve_def)
qed

section \<open>Results that can be shown\<close>

text \<open>
  A text is good when none of its lines makes the renderer throw or can have an object in a tooltip; a result can be shown
  when it renders and none of its tooltips has an object.
\<close>

definition good_text :: "string \<Rightarrow> bool" where
  "good_text m \<longleftrightarrow> list_all (\<lambda>l. \<not> crash_line l \<and> \<not> js_includes l ''__proto__'') (split m [newline])"

definition shows_fine :: "body \<Rightarrow> bool" where
  "shows_fine b \<longleftrightarrow> (case result_view b of Inl t \<Rightarrow> False | Inr v \<Rightarrow> ObjectContent \<notin> set (status_tips v))"

definition thrown_fine :: "thrown \<Rightarrow> bool" where
  "thrown_fine t \<longleftrightarrow> good_text (error_message t)"

text \<open>
  What an answer of the network must satisfy in a state: its error messages, and the result of a validation, can be
  shown.
\<close>

definition body_fine :: "await \<Rightarrow> body \<Rightarrow> bool" where
  "body_fine w b \<longleftrightarrow>
     (case get_field b ''error'' of Inl t \<Rightarrow> True | Inr v \<Rightarrow> thrown_fine (new_error v)) \<and>
     (validating w \<longrightarrow> shows_fine b)"

fun answer_fine :: "form \<Rightarrow> form_event \<Rightarrow> bool" where
  "answer_fine s (Responds i (Inl t)) = thrown_fine t"
| "answer_fine s (Parses i (Inl t)) = thrown_fine t"
| "answer_fine s (Parses i (Inr b)) = body_fine (waiting (flights s ! i)) b"
| "answer_fine s e = True"

lemma shows_fine_iff:
  "shows_fine b \<longleftrightarrow> \<not> (\<exists>t. result_view b = Inl t) \<and> (\<forall>v. result_view b = Inr v \<longrightarrow> ObjectContent \<notin> set (status_tips v))"
  by (auto simp: shows_fine_def split: sum.splits)

lemma good_text_shown:
  assumes "good_text m" and "get_field b ''verifier_output'' = Inr (Str m)"
  shows "shows_fine b"
proof -
  have "\<not> js_includes [newline] ''__proto__''" by simp
  then have lines: "\<not> crash_line l \<and> \<not> js_includes l ''__proto__''" if "l \<in> set (lines_of (formatVerifierOutput m) k)" for l k
    using assms(1) sections_from_output[OF that] crash_plain(3) by (auto simp: good_text_def list_all_iff)
  then have "ObjectContent \<notin> set (status_tips v)" if "result_view b = Inr v" for v
    using result_tips[OF that] assms(2) by auto
  then show ?thesis using lines assms(2) unfolding shows_fine_iff result_view_Inl by auto
qed

lemma failure_fine: "thrown_fine t \<Longrightarrow> shows_fine (failure_result (error_message t))"
  by (rule good_text_shown) (simp_all add: thrown_fine_def failure_result_def)

text \<open>A message without a colon and an underscore is always fine; so are the messages of the form itself.\<close>

lemma plain_message_fine: "CHR '':'' \<notin> set m \<Longrightarrow> CHR ''_'' \<notin> set m \<Longrightarrow> thrown_fine (ErrorObject m)"
proof -
  assume m: "CHR '':'' \<notin> set m" "CHR ''_'' \<notin> set m"
  have "\<not> crash_line l \<and> \<not> js_includes l ''__proto__''" if "l \<in> set (split m [newline])" for l
  proof -
    have "set l \<subseteq> set m" using that by (rule split_part_subset)
    then show ?thesis
      using m js_includes_subset[of l "''ERROR:''"] js_includes_subset[of l "''__proto__''"] by (auto simp: crash_line_def)
  qed
  then show ?thesis by (simp add: thrown_fine_def good_text_def list_all_iff)
qed

lemma fixed_errors_fine:
  "thrown_fine (read_error ''null'' ''error'')" "thrown_fine (read_error ''null'' ''cppIR'')"
  "thrown_fine (read_error ''null'' ''rustIR'')" "thrown_fine (read_error ''null'' ''success'')"
  "thrown_fine (read_error ''undefined'' ''length'')" "thrown_fine (read_error ''null'' ''length'')"
  "thrown_fine (ErrorObject (limit_message ''C++ code'' ''C++ code'' CODE_LENGTH_LIMIT))"
  "thrown_fine (ErrorObject (limit_message ''Rust code'' ''Rust code'' CODE_LENGTH_LIMIT))"
  "thrown_fine (ErrorObject (limit_message ''C++ IR'' ''generated C++ IR'' LLVM_IR_LENGTH_LIMIT))"
  "thrown_fine (ErrorObject (limit_message ''Rust IR'' ''generated Rust IR'' LLVM_IR_LENGTH_LIMIT))"
  using nat_to_string_digits[of "CHR '':''"] nat_to_string_digits[of "CHR ''_''"]
  by (auto simp: read_error_def limit_message_def js_defs intro!: plain_message_fine)

lemma checkLimit_Inl:
  "checkLimit n c t limit = Inl e \<Longrightarrow>
     e \<in> {read_error ''undefined'' ''length'', read_error ''null'' ''length'', ErrorObject (limit_message n t limit)}"
  by (cases c) (auto split: if_splits)

lemma check_limits_fine:
  assumes "check_limits (n, c, t) (n', c', t') limit = Inl e"
    and "thrown_fine (ErrorObject (limit_message n t limit))" and "thrown_fine (ErrorObject (limit_message n' t' limit))"
  shows "thrown_fine e"
  using assms fixed_errors_fine(5,6) checkLimit_Inl[of n c t limit] checkLimit_Inl[of n' c' t' limit]
  by (auto simp: check_limits_def and_then_Inl)

lemma check_response_fine:
  assumes "check_response ok b = Inl e" and "body_fine w b"
  shows "thrown_fine e"
proof (cases "get_field b ''error''")
  case (Inl t)
  with assms(1) show ?thesis
    using fixed_errors_fine(1) by (auto simp: check_response_def and_then_Inl get_field_Inl split: if_splits)
next
  case (Inr v)
  with assms show ?thesis by (auto simp: check_response_def body_fine_def and_then_Inl split: if_splits)
qed

definition form_shows :: "form \<Rightarrow> bool" where
  "form_shows s \<longleftrightarrow> (case result s of None \<Rightarrow> True | Some b \<Rightarrow> shows_fine b)"

lemma resume_shows:
  assumes "form_shows (fst p)" and "\<And>t. snd p = Inl t \<Longrightarrow> thrown_fine t"
  shows "form_shows (resume i p)"
proof -
  obtain s y where p: "p = (s, y)" by (cases p)
  consider t where "y = Inl t" | "y = Inr None" | r where "y = Inr (Some r)"
    by (metis not_None_eq sum.exhaust)
  then show ?thesis
    using assms p failure_fine by cases (auto simp: form_shows_def piece_defs)
qed

lemma start_validation_shows:
  "result (fst (start_validation r c q s)) = result s \<and>
     (\<forall>t. snd (start_validation r c q s) = Inl t \<longrightarrow> thrown_fine t)"
  using check_limits_fine fixed_errors_fine(9,10)
  by (auto simp: start_validation_def Let_def showToast_def split: sum.splits)

lemma ir_received_shows:
  assumes "body_fine w b"
  shows "result (fst (ir_received r ok b s)) = result s \<and>
     (\<forall>t. snd (ir_received r ok b s) = Inl t \<longrightarrow> thrown_fine t)"
  using check_response_fine[OF _ assms] start_validation_shows[of r _ _ s] fixed_errors_fine(2,3)
  by (auto simp: ir_received_def get_field_Inl split: sum.splits)

lemma validation_received_shows:
  assumes "body_fine (ValJson ok) b" and "form_shows s"
  shows "form_shows (fst (validation_received r ok b s)) \<and>
     (\<forall>t. snd (validation_received r ok b s) = Inl t \<longrightarrow> thrown_fine t)"
  using check_response_fine[OF _ assms(1)] assms fixed_errors_fine(4)
  by (auto simp: validation_received_def Let_def form_shows_def showToast_def body_fine_def get_field_Inl split: sum.splits)

lemma form_shows_step:
  assumes "form_shows s" and "form_step s e t" and "answer_fine s e"
  shows "form_shows t"
proof (cases e)
  case Submit
  show ?thesis
  proof (cases "check_limits (''C++ code'', Str (cppCode s), ''C++ code'') (''Rust code'', Str (rustCode s), ''Rust code'') CODE_LENGTH_LIMIT")
    case (Inl x)
    with Submit assms(1,2) failure_fine[OF check_limits_fine[OF Inl fixed_errors_fine(7,8)]] show ?thesis
      by (auto simp: form_step_iff handleSubmit_def form_shows_def piece_defs)
  next
    case (Inr u)
    with Submit assms(1,2) show ?thesis by (auto simp: form_step_iff handleSubmit_def form_shows_def Let_def showToast_def)
  qed
next
  case (Responds i x)
  with assms show ?thesis
    by (cases x) (auto simp: form_step_iff simp del: resume.simps intro!: resume_shows)
next
  case (Parses i y)
  with assms(2) have t: "t = resume i (json_piece (flights s ! i) y s)"
    and w: "\<not> awaits_response (waiting (flights s ! i))" by (simp_all add: form_step_iff)
  show ?thesis
  proof (cases y)
    case (Inl x)
    with Parses assms t show ?thesis by (auto simp del: resume.simps intro!: resume_shows)
  next
    case (Inr b)
    with Parses assms(3) have b: "body_fine (waiting (flights s ! i)) b" by simp
    show ?thesis
    proof (cases "waiting (flights s ! i)")
      case (IRJson ok)
      with ir_received_shows[OF b, of "flights s ! i" ok s] assms(1) Inr show ?thesis
        unfolding t by (intro resume_shows) (simp_all add: form_shows_def)
    next
      case (ValJson ok)
      with validation_received_shows[OF b[unfolded ValJson] assms(1), of "flights s ! i"] Inr show ?thesis
        unfolding t by (intro resume_shows) simp_all
    qed (use w in auto)
  qed
qed (use assms in \<open>auto simp: form_step_iff form_shows_def\<close>)

lemma form_shows_renders: "form_shows s \<Longrightarrow> \<exists>v. render_form s = Inr v"
  by (cases "result s"; cases "render_modal (showIRModal s) (cppIR s) (rustIR s) (result s) (isLoading s)")
     (auto simp: render_form_def render_modal_def and_then_Inl form_shows_def shows_fine_iff split: if_splits)

lemma form_tips_iff:
  "tip \<in> set (form_tips s) \<longleftrightarrow> showIRModal s \<and> \<not> isLoading s \<and>
     (\<exists>b v. result s = Some b \<and> result_view b = Inr v \<and> tip \<in> set (status_tips v))"
proof (cases "result s")
  case (Some b)
  then show ?thesis by (cases "result_view b") (simp_all add: form_tips_def render_modal_def)
qed (simp add: form_tips_def render_modal_def)

lemma form_shows_tips: "form_shows s \<Longrightarrow> tip \<in> set (form_tips s) \<Longrightarrow> tip \<noteq> ObjectContent"
  by (auto simp: form_tips_iff form_shows_def shows_fine_iff)

lemma hovered_fine: "tip \<noteq> ObjectContent \<Longrightarrow> \<not> hasError (guard p) \<Longrightarrow> hovered p tip = p"
  by (cases tip) (simp_all add: hovered_def ErrorBoundary_def render_content_def)

lemma page_form_step:
  assumes "mounted_form p = Some s" and "\<not> hasError (guard p)" and "form_shows t"
  shows "mounted_form (ValidationForm (guard p) t) = Some t \<and> \<not> hasError (guard (ValidationForm (guard p) t))"
  using form_shows_renders[OF assms(3)] assms(2) by (auto simp: ValidationForm_cases)

definition page_answer_fine :: "page \<Rightarrow> page_event \<Rightarrow> bool" where
  "page_answer_fine p e =
     (case (e, mounted_form p) of (FormEvent e', Some s) \<Rightarrow> answer_fine s e' | _ \<Rightarrow> True)"

definition served_step :: "page \<Rightarrow> page_event \<Rightarrow> page \<Rightarrow> bool" where
  "served_step p e q \<longleftrightarrow> page_step p e q \<and> page_answer_fine p e"

definition page_inv :: "page \<Rightarrow> bool" where
  "page_inv p \<longleftrightarrow> \<not> hasError (guard p) \<and>
     (case mounted_form p of None \<Rightarrow> False | Some s \<Rightarrow> form_shows s)"

lemma page_inv_mount: "page_inv page_mount"
  using render_form_initial
  by (simp add: page_inv_def page_mount_def ValidationForm_cases boundary_mount_def form_shows_def initial_def)

lemma page_inv_step: "page_inv p \<Longrightarrow> served_step p e q \<Longrightarrow> page_inv q"
  unfolding served_step_def
proof (elim conjE)
  assume inv: "page_inv p" and step: "page_step p e q" and fine: "page_answer_fine p e"
  from step show "page_inv q"
  proof cases
    case (form_event s e' t)
    with inv have "form_shows s" "\<not> hasError (guard p)" by (simp_all add: page_inv_def)
    moreover from fine form_event have "answer_fine s e'" by (simp add: page_answer_fine_def)
    ultimately have "form_shows t" using form_shows_step form_event by blast
    with page_form_step[OF form_event(3) \<open>\<not> hasError (guard p)\<close> this] form_event(2) show ?thesis
      by (simp add: page_inv_def)
  next
    case retry_click
    with inv show ?thesis by (simp add: page_inv_def)
  next
    case (hover s tip)
    with inv have "hovered p tip = p" using form_shows_tips[of s tip] hovered_fine[of tip p] by (simp add: page_inv_def)
    with hover inv show ?thesis by simp
  qed
qed

interpretation page_machine: invariant_machine served_step page_mount page_inv
  by unfold_locales (rule page_inv_mount, rule page_inv_step)


text \<open>What the page's events are for its form, and the form's own run in a run of the page.\<close>

fun events_of_form :: "page_event list \<Rightarrow> form_event list" where
  "events_of_form [] = []"
| "events_of_form (FormEvent e # es) = e # events_of_form es"
| "events_of_form (e # es) = events_of_form es"

lemma page_run:
  "steps served_step p es q \<Longrightarrow> page_inv p \<Longrightarrow> mounted_form p = Some s \<Longrightarrow>
     RetryClick \<notin> set es \<and> (\<exists>t. mounted_form q = Some t \<and> steps form_step s (events_of_form es) t)"
proof (induction arbitrary: s rule: steps.induct)
  case (steps_Cons p e p' es q)
  from steps_Cons(1) have step: "page_step p e p'" by (simp add: served_step_def)
  have inv: "page_inv p'" using page_inv_step steps_Cons by blast
  from step show ?case
  proof cases
    case (form_event s' e' t)
    with steps_Cons(5) have s': "s' = s" by simp
    from inv form_event(2) have "mounted_form p' = Some t"
      by (auto simp: page_inv_def ValidationForm_def split: option.splits prod.splits boundary_view.splits)
    from steps_Cons.IH[OF inv this] form_event s' show ?thesis by (auto intro: steps.intros)
  next
    case retry_click
    with steps_Cons(4) show ?thesis by (simp add: page_inv_def)
  next
    case (hover s' tip)
    with steps_Cons(4) have "p' = p" using form_shows_tips[of s' tip] hovered_fine[of tip p] by (simp add: page_inv_def)
    with steps_Cons.IH[OF inv] steps_Cons(5) hover(1) show ?thesis by simp
  qed
qed (simp add: steps.intros)

text \<open>A run of the form whose answers are fine, as the page makes it.\<close>

fun fine_run :: "form \<Rightarrow> form_event list \<Rightarrow> bool" where
  "fine_run s [] \<longleftrightarrow> True"
| "fine_run s (e # es) \<longleftrightarrow> enabled s e \<and> answer_fine s e \<and> fine_run (handle e s) es"

lemma page_makes_run:
  "fine_run s es \<Longrightarrow> page_inv p \<Longrightarrow> mounted_form p = Some s \<Longrightarrow>
     \<exists>q. steps served_step p (map FormEvent es) q \<and> mounted_form q = Some (foldl (\<lambda>s e. handle e s) s es)"
proof (induction es arbitrary: s p)
  case (Cons e es)
  let ?q = "ValidationForm (guard p) (handle e s)"
  have "form_step s e (handle e s)" using Cons.prems(1) by (simp add: form_step_iff del: handle.simps)
  then have step: "served_step p (FormEvent e) ?q"
    using Cons.prems by (auto simp: served_step_def page_answer_fine_def intro: page_step.form_event)
  with Cons.prems have "page_inv ?q" by (blast intro: page_inv_step)
  then have "mounted_form ?q = Some (handle e s)"
    by (auto simp: page_inv_def ValidationForm_def split: option.splits prod.splits boundary_view.splits)
  with Cons.IH[OF _ \<open>page_inv ?q\<close> this] Cons.prems(1) step show ?case by (auto intro: steps.intros simp del: handle.simps)
qed (auto intro: steps.intros)

definition report_answer :: body where
  "report_answer = ObjectBody [(''success'', Bool False),
     (''verifier_output'', Str (join [newline] (print_report timeout_report)))]"

definition report_run :: "form_event list" where
  "report_run = [EditCpp ''c'', EditRust ''r'', Submit, Responds 0 (Inr True),
     Parses 0 (Inr (ObjectBody [(''cppIR'', Str ''x''), (''rustIR'', Str ''y'')])),
     Responds 0 (Inr True), Parses 0 (Inr report_answer)]"

lemma report_good:
  assumes "wf_report r" and "\<forall>l \<in> set (print_report r). \<not> crash_line l \<and> \<not> js_includes l ''__proto__''"
  shows "good_text (join [newline] (print_report r))"
  using assms by (simp add: good_text_def split_report list_all_iff)

lemma report_answer_fine: "shows_fine report_answer"
proof (rule good_text_shown[OF report_good])
  note [simp] = print_report_def timeout_report_def starts_with_def alive2_rule_def ub_rule_def numeral_eq_Suc
  show "wf_report timeout_report" by (simp add: wf_report_def ir_line_def control_line_def)
  show "\<forall>l \<in> set (print_report timeout_report). \<not> crash_line l \<and> \<not> js_includes l ''__proto__''" by (simp add: crash_line_def)
qed (simp add: report_answer_def)

lemma report_run_fine:
  "fine_run initial report_run \<and>
   (let s = foldl (\<lambda>s e. handle e s) initial report_run in
      result s = Some report_answer \<and> showIRModal s \<and> \<not> isLoading s)"
proof -
  have "thrown_fine (new_error Undefined)" using plain_message_fine[of "[]"] by simp
  moreover have "get_field report_answer ''error'' = Inr Undefined" by (simp add: report_answer_def)
  moreover have "get_field report_answer ''success'' = Inr (Bool False)" by (simp add: report_answer_def)
  ultimately show ?thesis using report_answer_fine
    by (simp add: report_run_def initial_def submit_disabled_def handleSubmit_def
        showToast_def check_limits_def CODE_LENGTH_LIMIT_def LLVM_IR_LENGTH_LIMIT_def json_fields_def body_fine_def
        ir_received_def check_response_def start_validation_def validate_request_def Let_def piece_defs validation_received_def)
qed

lemma shown_report_tips:
  assumes "shows_fine b \<or> (\<exists>v. result_view b = Inr v)"
    and "get_field b ''verifier_output'' = Inr (Str (join [newline] (print_report r)))" and "truthy_body b"
    and "wf_report r" and "l \<in> set (source_ir r)" and "result s = Some b" and "showIRModal s" and "\<not> isLoading s"
  shows "TextContent ''The original C++ program converted to Alive2 IR form'' \<in> set (form_tips s) \<and>
     (\<forall>n tip. Line l = Inr n \<and> tip \<in> set (tips_of n) \<longrightarrow> tip \<in> set (form_tips s))"
proof -
  obtain v where v: "result_view b = Inr v" using assms(1) by (auto simp: shows_fine_def split: sum.splits)
  have "l \<in> set (lines_of (formatVerifierOutput (join [newline] (print_report r))) S_alive2_source)"
    using sections_of_report[OF assms(4)] assms(5) by (simp add: program_parts_def)
  from source_panel_tips[OF v assms(2,3) this] show ?thesis using v assms(6-8) by (auto simp: form_tips_iff)
qed

text \<open>
  Hovering a tooltip whose content is an object loses the form. A report with the line \<open>__proto__\<close> has such a tooltip: the
  table of terms answers it with what every object inherits.
\<close>

lemma hover_loses_form:
  assumes "mounted_form p = Some s" and "\<not> hasError (guard p)" and "ObjectContent \<in> set (form_tips s)"
  shows "\<exists>q. page_step p (Hover ObjectContent) q \<and> mounted_form q = None \<and> caught (guard q) = Some object_child_error"
  using page_step.hover[OF assms(1,3)] assms(2)
  by (intro exI[of _ "hovered p ObjectContent"])
     (simp add: hovered_def ErrorBoundary_def boundary_fallback_def render_content_def getDerivedStateFromError_def)

definition proto_report :: report where
  "proto_report = timeout_report\<lparr>source_ir := [''__proto__'']\<rparr>"

definition proto_form :: form where
  "proto_form = initial\<lparr>showIRModal := True, result := Some (ObjectBody [(''success'', Bool False),
     (''verifier_output'', Str (join [newline] (print_report proto_report)))])\<rparr>"

lemma proto_line: "Line ''__proto__'' = Inr (Block [Tip ObjectContent [Span '''' [Text ''__proto__'']]])"
proof -
  have "line_parts ''__proto__'' = [''__proto__'']" "term_lookup ''__proto__'' = Some ObjectContent"
    "\<not> regex_test heading_regex ''__proto__''" "\<not> regex_test at_function_regex ''__proto__''" by code_simp+
  then show ?thesis by (simp add: Line_def part_node_def term_tooltip_def starts_with_def)
qed

lemma proto_form_hovered:
  "\<exists>q. page_step \<lparr>guard = boundary_mount, mounted_form = Some proto_form\<rparr> (Hover ObjectContent) q \<and> mounted_form q = None"
proof -
  let ?m = "join [newline] (print_report proto_report)"
  let ?b = "ObjectBody [(''success'', Bool False), (''verifier_output'', Str ?m)]"
  note [simp] = print_report_def timeout_report_def proto_report_def starts_with_def alive2_rule_def ub_rule_def numeral_eq_Suc
  have wf: "wf_report proto_report" by (simp add: wf_report_def ir_line_def control_line_def)
  have "\<forall>l \<in> set (print_report proto_report). \<not> crash_line l" by (simp add: crash_line_def)
  have "\<not> crash_line l" if "l \<in> set (lines_of (formatVerifierOutput ?m) k)" for l k
    using report_lines_plain[OF wf \<open>\<forall>l \<in> set (print_report proto_report). \<not> crash_line l\<close>] that by blast
  then have "\<not> (\<exists>t. result_view ?b = Inl t)" unfolding result_view_Inl by (auto simp del: print_report_def)
  then have "\<exists>v. result_view ?b = Inr v" by (cases "result_view ?b") auto
  then have "ObjectContent \<in> set (form_tips proto_form)"
    using shown_report_tips[of ?b proto_report "''__proto__''" proto_form] wf proto_line
    by (simp add: proto_form_def initial_def del: print_report_def)
  then show ?thesis
    using hover_loses_form[of "\<lparr>guard = boundary_mount, mounted_form = Some proto_form\<rparr>" proto_form] by (auto simp: boundary_mount_def)
qed

end
