(* ===== verification/FormSpec.thy ===== *)
theory FormSpec
  imports EditorForm
begin

text \<open>
  What the form of \<^verbatim>\<open>src/components/CodeEditorForm.tsx\<close> promises, stated without its flags, its list
  of runs and its exceptions: a session with one phase, its code and names, the requests it has sent and its result.
  The form refines it. Then the types its props and states are declared with.
\<close>

section \<open>The session\<close>

text \<open>A run's phase holds the names it was submitted with, and the response's \<^verbatim>\<open>ok\<close> once it is known.\<close>

datatype phase =
    Idle
  | GeneratingIR string string "bool option"
  | Validation string string "bool option"

record session =
  codes :: "string \<times> string"
  names :: "string \<times> string"
  phase :: phase
  requests :: "request list"
  verdict_body :: "body option"

definition new_session :: session where
  "new_session = \<lparr>codes = ('''', ''''), names = ('''', ''''), phase = Idle, requests = [], verdict_body = None\<rparr>"

text \<open>Why a value cannot be sent, and the first such reason.\<close>

definition objection :: "nat \<Rightarrow> string \<times> string \<times> jprim \<Rightarrow> string option" where
  "objection limit x =
     (case x of (what, kind, v) \<Rightarrow>
       if within v limit then None
       else Some (case v of Undefined \<Rightarrow> error_message (read_error ''undefined'' ''length'')
                          | Null \<Rightarrow> error_message (read_error ''null'' ''length'')
                          | _ \<Rightarrow> limit_message what kind limit))"

definition first_objection :: "nat \<Rightarrow> (string \<times> string \<times> jprim) list \<Rightarrow> string option" where
  "first_objection limit xs =
     (case List.map_filter (objection limit) xs of [] \<Rightarrow> None | m # ms \<Rightarrow> Some m)"

text \<open>Why an answer of a route is refused.\<close>

fun refusal :: "bool \<Rightarrow> body \<Rightarrow> string option" where
  "refusal ok NullBody = Some (error_message (read_error ''null'' ''error''))"
| "refusal ok (ScalarBody b) = (if ok then None else Some '''')"
| "refusal ok (ObjectBody fs) =
     (let e = field_of fs ''error'' in
      if ok \<and> \<not> truthy e then None else Some (if e = Undefined then '''' else to_string e))"

fun value_at :: "body \<Rightarrow> string \<Rightarrow> jprim" where
  "value_at (ObjectBody fs) k = field_of fs k"
| "value_at _ k = Undefined"

definition failed_with :: "string \<Rightarrow> session \<Rightarrow> session" where
  "failed_with m x = x\<lparr>phase := Idle, verdict_body := Some (failure_result m)\<rparr>"

definition generate_request_of :: "string \<times> string \<Rightarrow> request" where
  "generate_request_of c =
     \<lparr>url = ''/api/generate-ir'', sent_fields = [(''cppCode'', Str (fst c)), (''rustCode'', Str (snd c))]\<rparr>"

text \<open>The fields of a value within its limit are never undefined, so all four are sent.\<close>

definition validate_request_of :: "string \<Rightarrow> string \<Rightarrow> jprim \<Rightarrow> jprim \<Rightarrow> request" where
  "validate_request_of f g c q =
     \<lparr>url = ''/api/validate'', sent_fields =
       [(''cppIR'', c), (''rustIR'', q), (''cppFunctionName'', Str (if f = [] then ''EMPTY'' else f)),
        (''rustFunctionName'', Str (if g = [] then ''EMPTY'' else g))]\<rparr>"

text \<open>The answers of the two routes.\<close>

definition irs_arrive :: "string \<Rightarrow> string \<Rightarrow> bool \<Rightarrow> body \<Rightarrow> session \<Rightarrow> session" where
  "irs_arrive f g ok b x =
     (let c = value_at b ''cppIR''; q = value_at b ''rustIR'' in
      case refusal ok b of
        Some m \<Rightarrow> failed_with m x
      | None \<Rightarrow>
          (case first_objection LLVM_IR_LENGTH_LIMIT
                  [(''C++ IR'', ''generated C++ IR'', c), (''Rust IR'', ''generated Rust IR'', q)] of
             Some m \<Rightarrow> failed_with m x
           | None \<Rightarrow> x\<lparr>phase := Validation f g None, requests := requests x @ [validate_request_of f g c q]\<rparr>))"

definition verdict_arrives :: "bool \<Rightarrow> body \<Rightarrow> session \<Rightarrow> session" where
  "verdict_arrives ok b x =
     (case refusal ok b of
        Some m \<Rightarrow> failed_with m x
      | None \<Rightarrow> x\<lparr>phase := Idle, verdict_body := Some b\<rparr>)"

definition submit_session :: "session \<Rightarrow> session" where
  "submit_session x =
     (case first_objection CODE_LENGTH_LIMIT
             [(''C++ code'', ''C++ code'', Str (fst (codes x))), (''Rust code'', ''Rust code'', Str (snd (codes x)))] of
        Some m \<Rightarrow> failed_with m x
      | None \<Rightarrow> x\<lparr>phase := GeneratingIR (fst (names x)) (snd (names x)) None, verdict_body := None,
                 requests := requests x @ [generate_request_of (codes x)]\<rparr>)"

fun session_step :: "form_event \<Rightarrow> session \<Rightarrow> session" where
  "session_step (EditCpp v) x = x\<lparr>codes := (v, snd (codes x))\<rparr>"
| "session_step (EditRust v) x = x\<lparr>codes := (fst (codes x), v)\<rparr>"
| "session_step (EditCppName v) x = x\<lparr>names := (v, snd (names x))\<rparr>"
| "session_step (EditRustName v) x = x\<lparr>names := (fst (names x), v)\<rparr>"
| "session_step (SelectExample cpp rust) x = x\<lparr>codes := (cpp, rust)\<rparr>"
| "session_step ClearAll x = x\<lparr>codes := ('''', ''''), verdict_body := None\<rparr>"
| "session_step Submit x = submit_session x"
| "session_step CloseModal x = x"
| "session_step CloseToast x = x"
| "session_step (Responds i (Inl t)) x = failed_with (error_message t) x"
| "session_step (Responds i (Inr ok)) x =
     (case phase x of
        GeneratingIR f g None \<Rightarrow> x\<lparr>phase := GeneratingIR f g (Some ok)\<rparr>
      | Validation f g None \<Rightarrow> x\<lparr>phase := Validation f g (Some ok)\<rparr>
      | _ \<Rightarrow> x)"
| "session_step (Parses i (Inl t)) x = failed_with (error_message t) x"
| "session_step (Parses i (Inr b)) x =
     (case phase x of
        GeneratingIR f g (Some ok) \<Rightarrow> irs_arrive f g ok b x
      | Validation f g (Some ok) \<Rightarrow> verdict_arrives ok b x
      | _ \<Rightarrow> x)"

fun awaited :: "phase \<Rightarrow> bool option option" where
  "awaited Idle = None"
| "awaited (GeneratingIR f g ok) = Some ok"
| "awaited (Validation f g ok) = Some ok"

fun session_allows :: "session \<Rightarrow> form_event \<Rightarrow> bool" where
  "session_allows x Submit = (phase x = Idle \<and> fst (codes x) \<noteq> [] \<and> snd (codes x) \<noteq> [])"
| "session_allows x (Responds i a) = (i = 0 \<and> awaited (phase x) = Some None)"
| "session_allows x (Parses i a) = (i = 0 \<and> (case awaited (phase x) of Some (Some ok) \<Rightarrow> True | _ \<Rightarrow> False))"
| "session_allows x e = True"

text \<open>The events of a run, for which the session says exactly when they can happen.\<close>

definition run_event :: "form_event \<Rightarrow> bool" where
  "run_event e \<longleftrightarrow> e = Submit \<or> settling e"

section \<open>The form as a session\<close>

fun phase_of_run :: "run \<Rightarrow> phase" where
  "phase_of_run r =
     (case waiting r of
        IRResponse \<Rightarrow> GeneratingIR (cpp_name r) (rust_name r) None
      | IRJson ok \<Rightarrow> GeneratingIR (cpp_name r) (rust_name r) (Some ok)
      | ValResponse \<Rightarrow> Validation (cpp_name r) (rust_name r) None
      | ValJson ok \<Rightarrow> Validation (cpp_name r) (rust_name r) (Some ok))"

definition session_of :: "form \<Rightarrow> session" where
  "session_of s =
     \<lparr>codes = (cppCode s, rustCode s), names = (cppFunctionName s, rustFunctionName s),
      phase = (case flights s of [] \<Rightarrow> Idle | r # rs \<Rightarrow> phase_of_run r),
      requests = sent s, verdict_body = result s\<rparr>"

section \<open>The refinement\<close>

lemma session_of_simps:
  "codes (session_of s) = (cppCode s, rustCode s)" "names (session_of s) = (cppFunctionName s, rustFunctionName s)"
  "phase (session_of s) = (case flights s of [] \<Rightarrow> Idle | r # rs \<Rightarrow> phase_of_run r)"
  "requests (session_of s) = sent s" "verdict_body (session_of s) = result s"
  by (simp_all add: session_of_def)

lemma objection_None: "objection limit (n, k, v) = None \<longleftrightarrow> within v limit"
  by (simp add: objection_def)

lemma checkLimit_objection:
  "checkLimit n v k limit = Inl t \<Longrightarrow> objection limit (n, k, v) = Some (error_message t)"
  "checkLimit n v k limit = Inr u \<Longrightarrow> objection limit (n, k, v) = None"
  by (cases v; auto simp: objection_def split: if_splits)+

text \<open>The two thrown checks are the first objection.\<close>

lemma check_limits_objection:
  "first_objection limit [(n, k, v), (n', k', v')] =
     (case check_limits (n, v, k) (n', v', k') limit of Inl t \<Rightarrow> Some (error_message t) | Inr u \<Rightarrow> None)"
proof (cases "checkLimit n v k limit")
  case (Inl t)
  with checkLimit_objection(1)[OF this] show ?thesis
    by (simp add: first_objection_def check_limits_def List.map_filter_simps)
next
  case (Inr u)
  with checkLimit_objection(2)[OF this] show ?thesis
    using checkLimit_objection[of n' v' k' limit]
    by (cases "checkLimit n' v' k' limit") (simp_all add: first_objection_def check_limits_def List.map_filter_simps)
qed

lemma check_response_refusal:
  "refusal ok b = (case check_response ok b of Inl t \<Rightarrow> Some (error_message t) | Inr u \<Rightarrow> None)"
  by (cases b) (simp_all add: check_response_def Let_def new_error_message)

lemma get_field_value: "refusal ok b = None \<Longrightarrow> get_field b k = Inr (value_at b k)"
  by (cases b) auto

lemma validate_request_fields:
  "within c limit \<Longrightarrow> within q limit \<Longrightarrow>
     validate_request r c q = validate_request_of (cpp_name r) (rust_name r) c q"
  by (cases c; cases q) (simp_all add: validate_request_def validate_request_of_def json_fields_def name_or_empty_def)

text \<open>A piece that throws ends the session's run as a failure, a piece that finishes ends it with its result.\<close>

lemma session_of_thrown:
  assumes "flights s' = [r]" and "codes (session_of s') = codes x" and "names (session_of s') = names x"
    and "sent s' = requests x"
  shows "session_of (resume 0 (s', Inl t)) = failed_with (error_message t) x"
  using assms by (cases x) (simp add: session_of_def piece_defs failed_with_def)

lemma submit_simulates:
  assumes "flights s = []" and "cppCode s \<noteq> []" and "rustCode s \<noteq> []"
  shows "session_of (handleSubmit s) = submit_session (session_of s)"
proof (cases "check_limits (''C++ code'', Str (cppCode s), ''C++ code'') (''Rust code'', Str (rustCode s), ''Rust code'') CODE_LENGTH_LIMIT")
  case (Inl t)
  with assms show ?thesis
    by (simp add: submit_session_def handleSubmit_def session_of_def check_limits_objection failed_with_def piece_defs)
next
  case (Inr u)
  with assms show ?thesis
    by (simp add: submit_session_def handleSubmit_def session_of_def check_limits_objection piece_defs
        generate_request_of_def json_fields_def)
qed

lemma irs_simulate:
  assumes "flights s = [r]" and "waiting r = IRJson ok"
  shows "session_of (resume 0 (ir_received r ok b s)) = irs_arrive (cpp_name r) (rust_name r) ok b (session_of s)"
proof (cases "check_response ok b")
  case (Inl t)
  with assms session_of_thrown[of s r "session_of s" t] show ?thesis
    by (simp add: ir_received_def irs_arrive_def check_response_refusal session_of_simps Let_def del: resume.simps)
next
  case (Inr u)
  define c where "c = value_at b ''cppIR''"
  define q where "q = value_at b ''rustIR''"
  have none: "refusal ok b = None" using Inr by (simp add: check_response_refusal)
  have ir: "ir_received r ok b s = start_validation r c q s"
    using Inr get_field_value[OF none] by (simp add: ir_received_def c_def q_def)
  show ?thesis
  proof (cases "check_limits (''C++ IR'', c, ''generated C++ IR'') (''Rust IR'', q, ''generated Rust IR'') LLVM_IR_LENGTH_LIMIT")
    case (Inl t)
    then show ?thesis
      using assms none ir session_of_thrown[of "fst (start_validation r c q s)" r "session_of s" t]
      by (simp add: irs_arrive_def check_limits_objection start_validation_def showToast_def Let_def
          session_of_simps c_def[symmetric] q_def[symmetric] del: resume.simps)
  next
    case (Inr u)
    then have "within c LLVM_IR_LENGTH_LIMIT \<and> within q LLVM_IR_LENGTH_LIMIT" by (simp only: check_limits_Inr)
    then show ?thesis
      using Inr assms none ir validate_request_fields[of c LLVM_IR_LENGTH_LIMIT q r]
      by (simp add: irs_arrive_def check_limits_objection start_validation_def showToast_def Let_def
          session_of_def c_def[symmetric] q_def[symmetric])
  qed
qed

lemma verdict_simulates:
  assumes "flights s = [r]" and "waiting r = ValJson ok"
  shows "session_of (resume 0 (validation_received r ok b s)) = verdict_arrives ok b (session_of s)"
proof (cases "check_response ok b")
  case (Inl t)
  with assms session_of_thrown[of s r "session_of s" t] show ?thesis
    by (simp add: validation_received_def verdict_arrives_def check_response_refusal session_of_simps del: resume.simps)
next
  case (Inr u)
  then have none: "refusal ok b = None" by (simp add: check_response_refusal)
  with Inr assms get_field_value[OF none] show ?thesis
    by (simp add: validation_received_def verdict_arrives_def session_of_def Let_def piece_defs)
qed

lemma form_simulates:
  assumes "form_inv s" and "form_step s e t"
  shows "session_allows (session_of s) e \<and> session_of t = session_step e (session_of s)"
proof -
  from assms(1) consider "flights s = []" | r where "flights s = [r]"
    by (cases "flights s") (auto simp: form_inv_def flags_ok_def)
  then show ?thesis
  proof cases
    case 1
    with assms(2) submit_simulates[OF 1] show ?thesis
      by (cases e) (auto simp: form_step_iff session_of_def submit_disabled_def)
  next
    case 2
    then have "isGeneratingIR s" using assms(1) by (simp add: form_inv_def flags_ok_def)
    show ?thesis
    proof (cases e)
      case (Responds i a)
      with assms(2) 2 session_of_thrown[of s r "session_of s"] show ?thesis
        by (cases a; cases "waiting r") (auto simp: form_step_iff session_of_simps simp del: resume.simps, auto simp: session_of_def)
    next
      case (Parses i a)
      then have i: "i = 0" and w: "\<not> awaits_response (waiting r)" and t: "t = resume 0 (json_piece r a s)"
        using assms(2) 2 by (auto simp: form_step_iff)
      have "session_allows (session_of s) e"
        using Parses i w 2 by (cases "waiting r") (simp_all add: session_of_simps)
      moreover have "session_of t = session_step e (session_of s)"
      proof (cases a)
        case (Inl x)
        with Parses t 2 session_of_thrown[of s r "session_of s" x] show ?thesis
          by (simp add: session_of_simps del: resume.simps)
      next
        case (Inr b)
        with Parses t w 2 irs_simulate[OF 2] verdict_simulates[OF 2] show ?thesis
          by (cases "waiting r") (simp_all add: session_of_simps del: resume.simps)
      qed
      ultimately show ?thesis ..
    qed (use assms(2) 2 \<open>isGeneratingIR s\<close> in \<open>auto simp: form_step_iff session_of_def submit_disabled_def\<close>)
  qed
qed

lemma form_progress:
  assumes "form_inv s" and "run_event e" and "session_allows (session_of s) e"
  shows "\<exists>t. form_step s e t"
proof -
  from assms(1) consider "flights s = []" | r where "flights s = [r]"
    by (cases "flights s") (auto simp: form_inv_def flags_ok_def)
  then show ?thesis
  proof cases
    case 1
    with assms show ?thesis
      by (cases e) (auto simp: form_step_iff session_of_simps run_event_def submit_disabled_def form_inv_def flags_ok_def)
  next
    case 2
    with assms show ?thesis
      by (cases e; cases "waiting r") (auto simp: form_step_iff session_of_simps run_event_def)
  qed
qed

lemma session_of_initial: "session_of initial = new_session"
  by (simp add: session_of_def initial_def new_session_def)

interpretation form_session: simulation form_step initial form_inv session_of session_step session_allows run_event
  by unfold_locales (rule form_simulates, assumption+, rule form_progress)

text \<open>
  C8: the form implements the session: whatever happens to it, its code, names, requests, result and phase
  are what the specification computes from the events alone, and a submit or an answer of the network can
  happen exactly when the specification allows it.
\<close>

theorem form_implements_session:
  assumes "steps form_step initial es s"
  shows "session_of s = fold session_step es new_session \<and>
     (run_event e \<longrightarrow> ((\<exists>t. form_step s e t) \<longleftrightarrow> session_allows (session_of s) e))"
  using form_session.simulates_reachable[OF assms] form_session.observed_exact[OF assms] session_of_initial by simp

theorem form_implements_session_witness:
  "phase (fold session_step [EditCpp ''c'', EditRust ''r'', EditCppName ''f'', Submit, Responds 0 (Inr True)] new_session) =
     GeneratingIR ''f'' '''' (Some True) \<and>
   (\<exists>t. form_step generating_example (Parses 0 (Inl OtherThrown)) t)"
proof -
  let ?e = "Parses 0 (Inl OtherThrown)"
  note spec = form_implements_session[OF generating_example_run, of ?e]
  have session: "session_of generating_example = fold session_step
      [EditCpp ''c'', EditRust ''r'', EditCppName ''f'', Submit, Responds 0 (Inr True)] new_session"
    using spec by (rule conjunct1)
  have "phase (session_of generating_example) = GeneratingIR ''f'' '''' (Some True)"
    by (simp add: session_of_simps generating_example_def)
  moreover from this have "\<exists>t. form_step generating_example ?e t"
    using conjunct2[OF spec] by (simp add: run_event_def)
  ultimately show ?thesis unfolding session by blast
qed

section \<open>Declared types\<close>

text \<open>
  The states are declared as strings and as a \<^verbatim>\<open>ValidationResult\<close> (\<^verbatim>\<open>src/types/validator.ts\<close>), but the bodies
  they are set from are not checked. These predicates are the declarations.
\<close>

fun is_text :: "jprim \<Rightarrow> bool" where
  "is_text (Str v) = True"
| "is_text _ = False"

fun is_flag :: "jprim \<Rightarrow> bool" where
  "is_flag (Bool v) = True"
| "is_flag _ = False"

fun is_number :: "jprim \<Rightarrow> bool" where
  "is_number (Num v) = True"
| "is_number _ = False"

definition ValidationResult :: "body \<Rightarrow> bool" where
  "ValidationResult b \<longleftrightarrow>
     is_flag (value_at b ''success'') \<and>
     (is_text (value_at b ''error_message'') \<or> value_at b ''error_message'' = Undefined) \<and>
     is_text (value_at b ''verifier_output'') \<and> is_number (value_at b ''num_errors'')"

definition generated_irs :: "body \<Rightarrow> bool" where
  "generated_irs b \<longleftrightarrow> is_text (value_at b ''cppIR'') \<and> is_text (value_at b ''rustIR'')"

text \<open>An answer that is accepted has the fields the declarations require; one that is refused may be anything.\<close>

fun declared_answer :: "form \<Rightarrow> form_event \<Rightarrow> bool" where
  "declared_answer s (Parses i (Inr b)) =
     (case waiting (flights s ! i) of
        IRJson ok \<Rightarrow> refusal ok b = None \<longrightarrow> generated_irs b
      | ValJson ok \<Rightarrow> refusal ok b = None \<longrightarrow> ValidationResult b
      | _ \<Rightarrow> True)"
| "declared_answer s e = True"

definition declared_step :: "form \<Rightarrow> form_event \<Rightarrow> form \<Rightarrow> bool" where
  "declared_step s e t \<longleftrightarrow> form_step s e t \<and> declared_answer s e"

definition well_typed :: "form \<Rightarrow> bool" where
  "well_typed s \<longleftrightarrow>
     is_text (cppIR s) \<and> is_text (rustIR s) \<and>
     (case result s of None \<Rightarrow> True | Some b \<Rightarrow> ValidationResult b) \<and>
     (\<forall>q \<in> set (sent s). \<forall>kv \<in> set (sent_fields q). is_text (snd kv))"

lemma failure_result_typed: "ValidationResult (failure_result m)"
  by (simp add: ValidationResult_def failure_result_def)

lemma well_typed_initial: "well_typed initial"
  by (simp add: well_typed_def initial_def)

lemma catch_typed: "well_typed s \<Longrightarrow> well_typed (drop_run i (finish (catch_error t s)))"
  using failure_result_typed by (simp add: well_typed_def piece_defs)

lemma submit_typed: "well_typed s \<Longrightarrow> well_typed (handleSubmit s)"
  using failure_result_typed
  by (auto simp: handleSubmit_def Let_def well_typed_def piece_defs json_fields_def split: sum.splits)

lemma irs_typed:
  assumes "well_typed s" and "refusal ok b = None \<longrightarrow> generated_irs b"
  shows "well_typed (resume i (ir_received r ok b s))"
proof (cases "check_response ok b")
  case (Inl t)
  with assms(1) show ?thesis by (simp add: ir_received_def catch_typed)
next
  case (Inr u)
  then have none: "refusal ok b = None" by (simp add: check_response_refusal)
  with assms(2) obtain c q where cq: "value_at b ''cppIR'' = Str c" "value_at b ''rustIR'' = Str q"
    by (auto simp: generated_irs_def elim!: is_text.elims)
  with Inr get_field_value[OF none] have "ir_received r ok b s = start_validation r (Str c) (Str q) s"
    by (simp add: ir_received_def)
  with assms(1) show ?thesis using failure_result_typed
    by (auto simp: start_validation_def well_typed_def piece_defs Let_def validate_request_def json_fields_def split: sum.splits)
qed

lemma verdict_typed:
  assumes "well_typed s" and "refusal ok b = None \<longrightarrow> ValidationResult b"
  shows "well_typed (resume i (validation_received r ok b s))"
proof (cases "check_response ok b")
  case (Inl t)
  with assms(1) show ?thesis by (simp add: validation_received_def catch_typed)
next
  case (Inr u)
  then have none: "refusal ok b = None" by (simp add: check_response_refusal)
  with Inr assms get_field_value[OF none] show ?thesis
    by (simp add: validation_received_def well_typed_def Let_def piece_defs)
qed

lemma well_typed_step:
  assumes "well_typed s" and "declared_step s e t"
  shows "well_typed t"
proof -
  from assms(2) have en: "enabled s e" and t: "t = handle e s" and d: "declared_answer s e"
    by (simp_all add: declared_step_def form_step_iff)
  show ?thesis
  proof (cases e)
    case Submit
    with assms(1) t submit_typed show ?thesis by simp
  next
    case (Responds i a)
    with assms(1) t show ?thesis by (cases a) (simp_all add: catch_typed, simp add: well_typed_def)
  next
    case (Parses i a)
    show ?thesis
    proof (cases a)
      case (Inl x)
      with Parses assms(1) t show ?thesis by (simp add: catch_typed)
    next
      case (Inr b)
      with Parses assms(1) t d en irs_typed[OF assms(1)] verdict_typed[OF assms(1)] show ?thesis
        by (cases "waiting (flights s ! i)") (simp_all del: resume.simps)
    qed
  qed (use assms(1) t in \<open>simp_all add: well_typed_def\<close>)
qed

interpretation form_types: invariant_machine declared_step initial well_typed
  by unfold_locales (rule well_typed_initial, rule well_typed_step)

text \<open>
  The declared types hold at run time as long as the answers the form accepts have the declared
  fields: both IRs are strings, the result is a validation result and every field sent is a string,
  whatever else fails on the way, the results the form makes up for errors included.
\<close>

lemma declared_types_hold:
  assumes "steps declared_step initial es s"
  shows "well_typed s"
  using form_types.inv_reachable[OF assms] .

definition failed_example :: form where
  "failed_example = handle (Parses 0 (Inl (ErrorObject ''bad JSON''))) (handle (Responds 0 (Inr True)) (handle Submit
     (handle (EditRust ''r'') (handle (EditCpp ''c'') initial))))"

lemma declared_types_hold_example:
  "result failed_example = Some (failure_result ''bad JSON'') \<and> well_typed failed_example"
proof -
  have "steps declared_step initial
      [EditCpp ''c'', EditRust ''r'', Submit, Responds 0 (Inr True), Parses 0 (Inl (ErrorObject ''bad JSON''))] failed_example"
    by (simp add: steps_Cons_iff declared_step_def form_step_iff failed_example_def initial_def submit_disabled_def
        handleSubmit_def showToast_def check_limits_def CODE_LENGTH_LIMIT_def)
  from declared_types_hold[OF this] show ?thesis
    by (simp add: failed_example_def initial_def handleSubmit_def piece_defs check_limits_def CODE_LENGTH_LIMIT_def)
qed

end
