(* ===== verification/Wire.thy ===== *)
theory Wire
  imports JsValue
begin

text \<open>
  What the relay server (\<^verbatim>\<open>src/relay_server/RelayServer.cpp\<close>) and the validator server
  (\<^verbatim>\<open>src/src/ValidatorServer.cpp\<close>) send each other: a message is its length in decimal, a blank and its bytes; the
  message to the validator is a command with its fields between separators. A locale states what a way of sending messages
  must satisfy, and is interpreted for both directions, whose limits differ by a digit.
\<close>

section \<open>Messages\<close>

definition frame :: "string \<Rightarrow> string" where
  "frame message = nat_to_string (length message) @ '' '' @ message"

text \<open>
  What reading a message comes to: it waits for more, the connection ended inside it, it is malformed, or it is there. When the
  connection ends before the blank, the message is empty.
\<close>

datatype reading = Waits | Broken | Malformed | Whole string

text \<open>
  \<open>read_message m closed bytes\<close> reads the bytes that came, after which the connection is \<open>closed\<close> or may go on; \<open>m\<close> digits
  are too many. The second argument of \<open>read_length\<close> is the digits read.
\<close>

fun read_length :: "nat \<Rightarrow> string \<Rightarrow> bool \<Rightarrow> string \<Rightarrow> reading" where
  "read_length m ds closed [] = (if closed then Whole [] else Waits)"
| "read_length m ds closed (c # cs) =
     (if c = CHR '' '' then
        (if digits_value ds \<le> length cs then Whole (take (digits_value ds) cs) else if closed then Broken else Waits)
      else if \<not> is_digit c then Malformed
      else if m \<le> length ds + 1 then Malformed
      else read_length m (ds @ [c]) closed cs)"

definition read_message :: "nat \<Rightarrow> bool \<Rightarrow> string \<Rightarrow> reading" where
  "read_message m closed bytes = read_length m [] closed bytes"

text \<open>The relay gives up at the ninth digit, the validator at the eighth.\<close>

definition read_validator_message :: "bool \<Rightarrow> string \<Rightarrow> reading" where
  "read_validator_message = read_message 9"

definition read_relay_message :: "bool \<Rightarrow> string \<Rightarrow> reading" where
  "read_relay_message = read_message 8"

lemma read_digits:
  "list_all is_digit ds \<Longrightarrow> length es + length ds < m \<Longrightarrow>
     read_length m es closed (ds @ '' '' @ cs) =
       (if digits_value (es @ ds) \<le> length cs then Whole (take (digits_value (es @ ds)) cs) else if closed then Broken else Waits)"
proof (induction ds arbitrary: es)
  case (Cons d ds)
  then have "d \<noteq> CHR '' ''" "\<not> m \<le> length es + 1" by (auto simp: js_defs)
  with Cons.IH[of "es @ [d]"] Cons.prems show ?case by simp
qed simp

lemma digits_count: "0 < k \<Longrightarrow> length (nat_to_string n) \<le> k \<longleftrightarrow> n < 10 ^ k"
proof (induction n arbitrary: k rule: nat_to_string.induct)
  case (1 n)
  show ?case
  proof (cases "n < 10")
    case True
    have "(10 :: nat) ^ 1 \<le> 10 ^ k" using "1.prems" by (intro power_increasing) auto
    with True "1.prems" show ?thesis by (subst nat_to_string.simps) simp
  next
    case False
    show ?thesis
    proof (cases "k = 1")
      case True
      with False show ?thesis by (subst nat_to_string.simps) simp
    next
      case k: False
      then obtain j where j: "k = Suc j" "0 < j" using "1.prems" by (cases k) auto
      have "n div 10 < 10 ^ j \<longleftrightarrow> n < 10 ^ k" by (simp add: j(1) div_less_iff_less_mult mult.commute)
      with "1.IH"[OF False j(2)] False show ?thesis by (subst nat_to_string.simps) (simp add: j(1))
    qed
  qed
qed

locale message_channel =
  fixes encode :: "string \<Rightarrow> string"
    and decode :: "bool \<Rightarrow> string \<Rightarrow> reading"
    and fits :: "string \<Rightarrow> bool"
  assumes decode_encode: "fits s \<Longrightarrow> decode closed (encode s @ rest) = Whole s"
    and decode_part: "fits s \<Longrightarrow> strict_prefix p (encode s) \<Longrightarrow> decode False p = Waits"
begin

text \<open>No message is a part of another, so the reader needs no end of the connection.\<close>

lemma encode_prefix: "fits s \<Longrightarrow> fits t \<Longrightarrow> prefix (encode s) (encode t) \<Longrightarrow> s = t"
  using decode_encode[of s False "[]"] decode_encode[of t False "[]"] decode_part[of t "encode s"]
  by (cases "encode s = encode t") (auto simp: strict_prefix_def)

lemma encode_inj: "fits s \<Longrightarrow> fits t \<Longrightarrow> encode s = encode t \<Longrightarrow> s = t"
  by (rule encode_prefix) simp_all

end

definition fits_digits :: "nat \<Rightarrow> string \<Rightarrow> bool" where
  "fits_digits m s \<longleftrightarrow> length s < 10 ^ m"

lemma read_frame:
  assumes "fits_digits (Suc k) s"
  shows "read_message (Suc (Suc k)) closed (frame s @ rest) = Whole s"
proof -
  have "length (nat_to_string (length s)) < Suc (Suc k)"
    using assms digits_count[of "Suc k" "length s"] by (simp add: fits_digits_def)
  moreover have "list_all is_digit (nat_to_string (length s))" by (simp add: list_all_iff nat_to_string_digits)
  ultimately show ?thesis
    using read_digits[of "nat_to_string (length s)" "[]" "Suc (Suc k)" closed "s @ rest"] by (simp add: read_message_def frame_def)
qed

lemma read_digits_only:
  "list_all is_digit ds \<Longrightarrow> length es + length ds < m \<Longrightarrow> read_length m es False ds = Waits"
proof (induction ds arbitrary: es)
  case (Cons d ds)
  then have "d \<noteq> CHR '' ''" "\<not> m \<le> length es + 1" by (auto simp: js_defs)
  with Cons.IH[of "es @ [d]"] Cons.prems show ?case by simp
qed simp

lemma read_part:
  assumes "fits_digits (Suc k) s" and "strict_prefix p (frame s)"
  shows "read_message (Suc (Suc k)) False p = Waits"
proof -
  let ?ds = "nat_to_string (length s)"
  have len: "length ?ds < Suc (Suc k)"
    using assms(1) digits_count[of "Suc k" "length s"] by (simp add: fits_digits_def)
  have digits: "list_all is_digit ?ds" by (simp add: list_all_iff nat_to_string_digits)
  from assms(2) consider (digits) "prefix p ?ds" | (part) q where "p = ?ds @ '' '' @ q" "strict_prefix q s"
    by (auto simp: frame_def prefix_append prefix_Cons strict_prefix_def)
  then show ?thesis
  proof cases
    case digits
    then obtain r where r: "?ds = p @ r" by (auto elim: prefixE)
    have "list_all is_digit p" using \<open>list_all is_digit ?ds\<close> by (simp add: r)
    moreover have "length p < Suc (Suc k)" using len by (simp add: r)
    ultimately show ?thesis by (simp add: read_message_def read_digits_only)
  next
    case part
    then have "length q < length s" by (simp add: prefix_length_less)
    with read_digits[OF digits, of "[]" "Suc (Suc k)" False q] len show ?thesis
      by (simp add: read_message_def part(1))
  qed
qed

interpretation to_validator: message_channel frame read_relay_message "fits_digits 7"
  using read_frame[of 6] read_part[of 6] by unfold_locales (simp_all add: read_relay_message_def numeral_eq_Suc)

interpretation to_relay: message_channel frame read_validator_message "fits_digits 8"
  using read_frame[of 7] read_part[of 7] by unfold_locales (simp_all add: read_validator_message_def numeral_eq_Suc)

section \<open>Fields between separators\<close>

text \<open>
  \<^verbatim>\<open>s.find(sep)\<close> with the \<^verbatim>\<open>substr\<close> before and after what was found: \<^verbatim>\<open>npos\<close> is \<open>None\<close>.
\<close>

fun cut :: "string \<Rightarrow> string \<Rightarrow> (string \<times> string) option" where
  "cut sep [] = (if sep = [] then Some ([], []) else None)"
| "cut sep (c # s) =
     (if prefix sep (c # s) then Some ([], drop (length sep) (c # s)) else map_option (\<lambda>(u, v). (c # u, v)) (cut sep s))"

text \<open>No occurrence of the separator begins in the text when the separator follows it.\<close>

definition clear_of :: "string \<Rightarrow> string \<Rightarrow> bool" where
  "clear_of sep u \<longleftrightarrow> \<not> js_includes (u @ butlast sep) sep"

lemma clear_of_Nil: "sep \<noteq> [] \<Longrightarrow> clear_of sep []"
proof -
  assume "sep \<noteq> []"
  then have "length (butlast sep) < length sep" by simp
  then have "\<not> sublist sep (butlast sep)" using sublist_length_le[of sep "butlast sep"] by linarith
  then show ?thesis by (simp add: clear_of_def js_includes_sublist)
qed

lemma clear_of_Cons:
  "sep \<noteq> [] \<Longrightarrow> clear_of sep (c # u) \<longleftrightarrow> \<not> prefix sep (c # u @ sep @ v) \<and> clear_of sep u"
proof -
  assume ne: "sep \<noteq> []"
  have "prefix sep (c # u @ sep @ v) \<longleftrightarrow> prefix sep (c # u @ butlast sep)"
  proof
    assume "prefix sep (c # u @ sep @ v)"
    then obtain r where "c # u @ sep @ v = sep @ r" by (elim prefixE)
    moreover have "sep = butlast sep @ [last sep]" using ne by simp
    ultimately have "(c # u @ butlast sep) @ (last sep # v) = sep @ r" by (metis append.assoc append_Cons append_Nil)
    moreover have "length sep \<le> length (c # u @ butlast sep)" using ne by simp
    ultimately show "prefix sep (c # u @ butlast sep)"
      by (metis append_eq_append_conv_if prefix_def take_is_prefix)
  next
    assume "prefix sep (c # u @ butlast sep)"
    moreover have "c # u @ sep @ v = (c # u @ butlast sep) @ (last sep # v)" using ne by simp
    ultimately show "prefix sep (c # u @ sep @ v)" by (metis prefix_prefix)
  qed
  then show ?thesis by (auto simp: clear_of_def)
qed

lemma cut_clear: "sep \<noteq> [] \<Longrightarrow> clear_of sep u \<Longrightarrow> cut sep (u @ sep @ v) = Some (u, v)"
proof (induction u)
  case Nil
  then show ?case by (cases sep) auto
next
  case (Cons c u)
  with clear_of_Cons[of sep c u v] show ?case by simp
qed

lemma cut_Some: "cut sep s = Some (u, v) \<Longrightarrow> sep \<noteq> [] \<Longrightarrow> s = u @ sep @ v \<and> clear_of sep u"
proof (induction s arbitrary: u)
  case (Cons c s)
  show ?case
  proof (cases "prefix sep (c # s)")
    case True
    with Cons.prems show ?thesis by (auto simp: clear_of_Nil elim: prefixE)
  next
    case False
    with Cons.prems obtain u' where u: "cut sep s = Some (u', v)" "u = c # u'" by auto
    from Cons.IH[OF u(1) Cons.prems(2)] u(2) False clear_of_Cons[OF Cons.prems(2), of c u' v] show ?thesis by simp
  qed
qed (auto split: if_splits)

lemma cut_None: "cut sep s = None \<longleftrightarrow> \<not> js_includes s sep"
  by (induction s) auto

lemma cut_iff: "sep \<noteq> [] \<Longrightarrow> cut sep (u @ sep @ v) = Some (u, v) \<longleftrightarrow> clear_of sep u"
  using cut_clear cut_Some by blast

text \<open>The separators of the commands, and of the two files of an answer.\<close>

definition CPPCODE :: string where "CPPCODE = ''__CPPCODE__''"
definition RUSTCODE :: string where "RUSTCODE = ''__RUSTCODE__''"
definition CPPIR :: string where "CPPIR = ''__CPPIR__''"
definition RUSTIR :: string where "RUSTIR = ''__RUSTIR__''"
definition CPP_FUNCTION :: string where "CPP_FUNCTION = ''__CPP_FUNCTION__''"
definition RUST_FUNCTION :: string where "RUST_FUNCTION = ''__RUST_FUNCTION__''"
definition GENERATED_IR_SEPARATOR :: string where "GENERATED_IR_SEPARATOR = ''__GENERATED_IR_SEPARATOR__''"

lemmas separator_defs = CPPCODE_def RUSTCODE_def CPPIR_def RUSTIR_def CPP_FUNCTION_def RUST_FUNCTION_def GENERATED_IR_SEPARATOR_def

lemma separators_not_Nil [simp]:
  "CPPCODE \<noteq> []" "RUSTCODE \<noteq> []" "CPPIR \<noteq> []" "RUSTIR \<noteq> []" "CPP_FUNCTION \<noteq> []" "RUST_FUNCTION \<noteq> []" "GENERATED_IR_SEPARATOR \<noteq> []"
  by (simp_all add: separator_defs)

text \<open>The commands as the relay writes them and the validator reads them.\<close>

definition generate_command :: "string \<Rightarrow> string \<Rightarrow> string" where
  "generate_command cpp_code rust_code = ''GENERATE'' @ CPPCODE @ cpp_code @ RUSTCODE @ rust_code"

definition validate_command :: "string \<Rightarrow> string \<Rightarrow> string \<Rightarrow> string \<Rightarrow> string" where
  "validate_command cpp_ir rust_ir cpp_function_name rust_function_name =
     ''VALIDATE'' @ CPPIR @ cpp_ir @ RUSTIR @ rust_ir @ CPP_FUNCTION @ cpp_function_name @ RUST_FUNCTION @ rust_function_name"

definition parse_generate :: "string \<Rightarrow> (string \<times> string) option" where
  "parse_generate command =
     Option.bind (cut CPPCODE command) (\<lambda>(_, s). Option.bind (cut RUSTCODE s) (\<lambda>(cpp_code, rust_code). Some (cpp_code, rust_code)))"

definition parse_validate :: "string \<Rightarrow> (string \<times> string \<times> string \<times> string) option" where
  "parse_validate command =
     Option.bind (cut CPPIR command) (\<lambda>(_, s1). Option.bind (cut RUSTIR s1) (\<lambda>(cpp_ir, s2).
       Option.bind (cut CPP_FUNCTION s2) (\<lambda>(rust_ir, s3). Option.bind (cut RUST_FUNCTION s3) (\<lambda>(f, g).
         Some (cpp_ir, rust_ir, f, g)))))"

lemma cut_head:
  "cut CPPCODE (''GENERATE'' @ CPPCODE @ s) = Some (''GENERATE'', s)"
  "cut CPPIR (''VALIDATE'' @ CPPIR @ s) = Some (''VALIDATE'', s)"
proof -
  have "clear_of CPPCODE ''GENERATE''" "clear_of CPPIR ''VALIDATE''" by code_simp+
  from cut_clear[OF _ this(1)] cut_clear[OF _ this(2)]
  show "cut CPPCODE (''GENERATE'' @ CPPCODE @ s) = Some (''GENERATE'', s)"
    "cut CPPIR (''VALIDATE'' @ CPPIR @ s) = Some (''VALIDATE'', s)" by (simp_all only: separators_not_Nil not_False_eq_True)
qed

lemma parse_generate_iff: "parse_generate (generate_command c r) = Some (c, r) \<longleftrightarrow> clear_of RUSTCODE c"
  unfolding generate_command_def parse_generate_def cut_head using cut_iff[of RUSTCODE c r]
  by (cases "cut RUSTCODE (c @ RUSTCODE @ r)") auto

lemma parse_validate_clear:
  assumes "clear_of RUSTIR c" and "clear_of CPP_FUNCTION r" and "clear_of RUST_FUNCTION f"
  shows "parse_validate (validate_command c r f g) = Some (c, r, f, g)"
  unfolding validate_command_def parse_validate_def cut_head
  using cut_clear[OF _ assms(1), of "r @ CPP_FUNCTION @ f @ RUST_FUNCTION @ g"] cut_clear[OF _ assms(2), of "f @ RUST_FUNCTION @ g"]
    cut_clear[OF _ assms(3), of g] by simp

lemma parse_validate_iff:
  "parse_validate (validate_command c r f g) = Some (c, r, f, g) \<longleftrightarrow>
     clear_of RUSTIR c \<and> clear_of CPP_FUNCTION r \<and> clear_of RUST_FUNCTION f"
proof
  assume "parse_validate (validate_command c r f g) = Some (c, r, f, g)"
  then obtain s2 s3 where cuts: "cut RUSTIR (c @ RUSTIR @ r @ CPP_FUNCTION @ f @ RUST_FUNCTION @ g) = Some (c, s2)"
    "cut CPP_FUNCTION s2 = Some (r, s3)" "cut RUST_FUNCTION s3 = Some (f, g)"
    unfolding validate_command_def parse_validate_def cut_head by (auto simp: bind_eq_Some_conv)
  from cut_Some[OF cuts(1)] cut_Some[OF cuts(2)] cut_Some[OF cuts(3)]
  show "clear_of RUSTIR c \<and> clear_of CPP_FUNCTION r \<and> clear_of RUST_FUNCTION f" by simp
qed (simp add: parse_validate_clear)

section \<open>A command on its way\<close>

text \<open>
  C3: the relay's commands arrive. A command whose length has at most seven digits is read by the validator as it was written,
  whatever follows it, and while only a part of it has come the validator waits; and the fields read from it are the fields
  written into it exactly when no field contains, or runs into, the separator after it.
\<close>

theorem commands_arrive:
  assumes "command \<in> {generate_command x y, validate_command c r f g}" and "length command < 10 ^ 7"
  shows "read_relay_message closed (frame command @ rest) = Whole command \<and>
    (\<forall>p. strict_prefix p (frame command) \<longrightarrow> read_relay_message False p = Waits) \<and>
    (parse_generate (generate_command x y) = Some (x, y) \<longleftrightarrow> clear_of RUSTCODE x) \<and>
    (parse_validate (validate_command c r f g) = Some (c, r, f, g) \<longleftrightarrow>
       clear_of RUSTIR c \<and> clear_of CPP_FUNCTION r \<and> clear_of RUST_FUNCTION f)"
proof -
  from assms(2) have "fits_digits 7 command" by (simp add: fits_digits_def)
  then show ?thesis
    using to_validator.decode_encode to_validator.decode_part by (simp add: parse_generate_iff parse_validate_iff)
qed

theorem commands_arrive_witness:
  "read_relay_message False (frame (generate_command ''int f();'' ''fn g() {}'') @ ''rest'') = Whole (generate_command ''int f();'' ''fn g() {}'') \<and>
   parse_generate (generate_command ''int f();'' ''fn g() {}'') = Some (''int f();'', ''fn g() {}'')"
proof -
  have "length (generate_command ''int f();'' ''fn g() {}'') < 10 ^ 7" by (simp add: generate_command_def separator_defs)
  moreover have "clear_of RUSTCODE ''int f();''" by code_simp
  ultimately show ?thesis
    using commands_arrive[of "generate_command ''int f();'' ''fn g() {}''" "''int f();''" "''fn g() {}''" "[]" "[]" "[]" "[]" False "''rest''"] by simp
qed

text \<open>A separator in the code shifts the text between the fields: a part of the C++ code is compiled as Rust.\<close>

lemma separator_in_code:
  "parse_generate (generate_command ''a__RUSTCODE__b'' ''r'') = Some (''a'', ''b__RUSTCODE__r'')"
  by code_simp

end
