(* ===== verification/RelayServer.thy ===== *)
theory RelayServer
  imports Wire Routes
begin

text \<open>
  The relay server (\<^verbatim>\<open>src/relay_server/RelayServer.cpp\<close>): its two handlers, which write a command for the validator,
  read its answer and make the response of it. The validator is a parameter: given the bytes of the command, the bytes it
  answers and whether it then closes the connection, or \<open>None\<close> when it cannot be reached. An answer that is \<open>None\<close> never comes.
\<close>

section \<open>Talking to the validator\<close>

type_synonym validator = "string \<Rightarrow> (string \<times> bool) option"

text \<open>\<^verbatim>\<open>send_to_validator\<close> with \<^verbatim>\<open>make_connection_with_validator\<close> and \<^verbatim>\<open>read_until_length\<close>.\<close>

definition send_to_validator :: "validator \<Rightarrow> string \<Rightarrow> (thrown + string) option" where
  "send_to_validator validator command =
     (case validator (frame command) of
        None \<Rightarrow> Some (Inr ''error'')
      | Some (bytes, closed) \<Rightarrow>
          (case read_validator_message closed bytes of
             Waits \<Rightarrow> None
           | Broken \<Rightarrow> Some (Inl (ErrorObject ''connection closed by client''))
           | Malformed \<Rightarrow> Some (Inr ''error'')
           | Whole buffer \<Rightarrow> Some (Inr buffer)))"

section \<open>The handlers\<close>

text \<open>A body that is no object has no fields; \<^verbatim>\<open>as_string\<close> throws for a value that is no string.\<close>

fun check_request_body :: "body \<Rightarrow> string list \<Rightarrow> thrown option" where
  "check_request_body b [] = None"
| "check_request_body b (k # ks) =
     (case b of
        ObjectBody fs \<Rightarrow> if map_of fs k = None then Some (ErrorObject (k @ '' is required'')) else check_request_body b ks
      | _ \<Rightarrow> Some (ErrorObject (k @ '' is required'')))"

fun as_string :: "jprim \<Rightarrow> thrown + string" where
  "as_string (Str s) = Inr s"
| "as_string v = Inl (ErrorObject ''not a string'')"

fun strings_of :: "body \<Rightarrow> string list \<Rightarrow> thrown + string list" where
  "strings_of b [] = Inr []"
| "strings_of b (k # ks) =
     and_then (get_field b k) (\<lambda>v. and_then (as_string v) (\<lambda>s. and_then (strings_of b ks) (\<lambda>ss. Inr (s # ss))))"

definition request_strings :: "body \<Rightarrow> string list \<Rightarrow> thrown + string list" where
  "request_strings b ks = (case check_request_body b ks of Some t \<Rightarrow> Inl t | None \<Rightarrow> strings_of b ks)"

text \<open>
  What \<^verbatim>\<open>handle_generate_ir\<close> makes of the answer. Without a separator, the sum of \<^verbatim>\<open>npos\<close> and its length wraps around, so the second
  \<^verbatim>\<open>substr\<close> begins one before that length, or throws when the answer is shorter.
\<close>

definition generate_failures :: "string list" where
  "generate_failures = [''failed to generate'', ''compilation timed out (10s) or failed'',
     ''generated IR file exceeds the size limit'', ''generated IR file exceeds the length limit'']"

definition out_of_range :: "nat \<Rightarrow> nat \<Rightarrow> thrown" where
  "out_of_range pos len = ErrorObject (''basic_string::substr: __pos (which is '' @ nat_to_string pos @
     '') > this->size() (which is '' @ nat_to_string len @ '')'')"

definition generate_answer :: "string \<Rightarrow> thrown + body" where
  "generate_answer result =
     (if result = ''error'' then Inl (ErrorObject ''failed to send command for generating IR'')
      else if list_ex (js_includes result) generate_failures then Inl (ErrorObject result)
      else case cut GENERATED_IR_SEPARATOR result of
        Some (cpp_ir, rust_ir) \<Rightarrow> Inr (ObjectBody [(''cppIR'', Str cpp_ir), (''rustIR'', Str rust_ir)])
      | None \<Rightarrow>
          (let pos = length GENERATED_IR_SEPARATOR - 1 in
           if length result < pos then Inl (out_of_range pos (length result))
           else Inr (ObjectBody [(''cppIR'', Str result), (''rustIR'', Str (drop pos result))])))"

text \<open>The library writes the fields of an object in the order of their names.\<close>

definition validate_failures :: "string list" where
  "validate_failures = [''multiple functions found'', ''function not found'', ''no functions found'']"

definition correct_text :: string where
  "correct_text = ''Transformation seems to be correct!''"

definition validate_answer :: "string \<Rightarrow> thrown + body" where
  "validate_answer result =
     (if result = ''error'' then Inl (ErrorObject ''failed to send command for validating IR'')
      else if list_ex (js_includes result) validate_failures then Inl (ErrorObject result)
      else
        (let success = js_includes result correct_text in
         Inr (ObjectBody [(''num_errors'', Num (if success then 0 else 1)), (''success'', Bool success), (''verifier_output'', Str result)])))"

definition reply_with_error :: "thrown \<Rightarrow> response" where
  "reply_with_error t = \<lparr>status = 500, payload = ObjectBody [(''error'', Str (error_message t))]\<rparr>"

definition reply :: "thrown + body \<Rightarrow> response" where
  "reply r = (case r of Inl t \<Rightarrow> reply_with_error t | Inr b \<Rightarrow> \<lparr>status = 200, payload = b\<rparr>)"

text \<open>The common shape of the two: the fields, the command, the answer.\<close>

definition relay_command :: "validator \<Rightarrow> (thrown + string) \<Rightarrow> (string \<Rightarrow> thrown + body) \<Rightarrow> response option" where
  "relay_command validator command answer_of =
     (case command of
        Inl t \<Rightarrow> Some (reply_with_error t)
      | Inr c \<Rightarrow> map_option (\<lambda>r. reply (and_then r answer_of)) (send_to_validator validator c))"

definition handle_generate_ir :: "validator \<Rightarrow> body \<Rightarrow> response option" where
  "handle_generate_ir validator b =
     relay_command validator
       (and_then (request_strings b [''cppCode'', ''rustCode'']) (\<lambda>ss. Inr (generate_command (ss ! 0) (ss ! 1))))
       generate_answer"

definition handle_validate :: "validator \<Rightarrow> body \<Rightarrow> response option" where
  "handle_validate validator b =
     relay_command validator
       (and_then (request_strings b [''cppIR'', ''rustIR'', ''cppFunctionName'', ''rustFunctionName''])
         (\<lambda>ss. Inr (validate_command (ss ! 0) (ss ! 1) (ss ! 2) (ss ! 3))))
       validate_answer"

text \<open>\<^verbatim>\<open>handle_post\<close>; the reply for another path has no body, so a client that parses it fails.\<close>

definition no_json :: thrown where
  "no_json = ErrorObject ''Unexpected end of JSON input''"

definition handle_post :: "validator \<Rightarrow> string \<Rightarrow> body \<Rightarrow> outcome option" where
  "handle_post validator path b =
     (if path = ''/api/generate-ir'' then map_option received (handle_generate_ir validator b)
      else if path = ''/api/validate'' then map_option received (handle_validate validator b)
      else Some (Responded False (Inl no_json)))"

text \<open>
  The relay of the routes, when the server runs at \<open>base\<close>: an answer that never comes makes the route's \<^verbatim>\<open>fetch\<close> give up at
  some time with \<open>timeout\<close>.
\<close>

definition relay_at :: "string \<Rightarrow> thrown \<Rightarrow> validator \<Rightarrow> relay" where
  "relay_at base timeout validator q =
     (if prefix base (url q) then
        (case handle_post validator (drop (length base) (url q)) (ObjectBody (sent_fields q)) of
           None \<Rightarrow> Rejected timeout
         | Some r \<Rightarrow> r)
      else Rejected timeout)"

section \<open>What the relay answers\<close>

lemma request_strings_object:
  "request_strings (ObjectBody [(k1, Str a), (k2, Str b)]) [k1, k2] = Inr [a, b]" if "k1 \<noteq> k2"
  using that by (simp add: request_strings_def)

text \<open>Whatever the validator does, a response of the relay is an object: with an error, or with all the fields of its answer.\<close>

definition relay_response_ok :: "string list \<Rightarrow> response \<Rightarrow> bool" where
  "relay_response_ok names r \<longleftrightarrow>
     (\<exists>fs. payload r = ObjectBody fs \<and>
        (status r = 200 \<and> map fst fs = names \<or> status r = 500 \<and> map fst fs = [''error'']))"

lemma reply_error_ok: "relay_response_ok names (reply_with_error t)"
  by (simp add: relay_response_ok_def reply_with_error_def)

lemma reply_ok:
  assumes "\<And>b. r = Inr b \<Longrightarrow> \<exists>fs. b = ObjectBody fs \<and> map fst fs = names"
  shows "relay_response_ok names (reply r)"
proof (cases r)
  case (Inr b)
  with assms[of b] show ?thesis by (auto simp: relay_response_ok_def reply_def)
qed (simp add: reply_def reply_error_ok)

lemma relay_command_ok:
  assumes "\<And>s b. answer_of s = Inr b \<Longrightarrow> \<exists>fs. b = ObjectBody fs \<and> map fst fs = names"
    and "relay_command validator command answer_of = Some r"
  shows "relay_response_ok names r"
proof (cases command)
  case (Inl t)
  with assms(2) show ?thesis by (auto simp: relay_command_def reply_error_ok)
next
  case (Inr c)
  with assms(2) obtain x where x: "send_to_validator validator c = Some x" "r = reply (and_then x answer_of)"
    by (auto simp: relay_command_def)
  have "\<exists>fs. b = ObjectBody fs \<and> map fst fs = names" if "and_then x answer_of = Inr b" for b
    using that assms(1) by (cases x) auto
  then show ?thesis unfolding x(2) by (rule reply_ok)
qed

lemma handlers_ok:
  "handle_generate_ir validator b = Some r \<Longrightarrow> relay_response_ok [''cppIR'', ''rustIR''] r"
  "handle_validate validator b = Some r \<Longrightarrow> relay_response_ok [''num_errors'', ''success'', ''verifier_output''] r"
proof -
  have g: "generate_answer s = Inr b \<Longrightarrow> \<exists>fs. b = ObjectBody fs \<and> map fst fs = [''cppIR'', ''rustIR'']" for s b
    by (auto simp: generate_answer_def Let_def split: if_splits option.splits)
  have v: "validate_answer s = Inr b \<Longrightarrow> \<exists>fs. b = ObjectBody fs \<and> map fst fs = [''num_errors'', ''success'', ''verifier_output'']" for s b
    by (auto simp: validate_answer_def Let_def split: if_splits)
  show "handle_generate_ir validator b = Some r \<Longrightarrow> relay_response_ok [''cppIR'', ''rustIR''] r"
    unfolding handle_generate_ir_def by (rule relay_command_ok[OF g])
  show "handle_validate validator b = Some r \<Longrightarrow> relay_response_ok [''num_errors'', ''success'', ''verifier_output''] r"
    unfolding handle_validate_def by (rule relay_command_ok[OF v])
qed

text \<open>The answer to a message of the validator: what it says when it fits.\<close>

lemma send_whole:
  "validator (frame command) = Some (frame result, closed) \<Longrightarrow> fits_digits 8 result \<Longrightarrow>
     send_to_validator validator command = Some (Inr result)"
  using to_relay.decode_encode[of result closed "[]"] by (simp add: send_to_validator_def)

text \<open>A validator that ends without an answer and leaves the connection open makes the relay wait for ever.\<close>

lemma send_waits: "validator (frame command) = Some ([], False) \<Longrightarrow> send_to_validator validator command = None"
  by (simp add: send_to_validator_def read_validator_message_def read_message_def)

text \<open>
  An answer that is lost when the connection ends is an empty answer: the generation then reports an exception of the
  library, and the validation a failure without any output.
\<close>

lemma lost_answer:
  "validator (frame command) = Some ([], True) \<Longrightarrow> send_to_validator validator command = Some (Inr [])"
  "generate_answer [] = Inl (out_of_range 25 0)"
  "validate_answer [] = Inr (ObjectBody [(''num_errors'', Num 1), (''success'', Bool False), (''verifier_output'', Str [])])"
proof -
  show "validator (frame command) = Some ([], True) \<Longrightarrow> send_to_validator validator command = Some (Inr [])"
    by (simp add: send_to_validator_def read_validator_message_def read_message_def)
qed code_simp+

text \<open>A text of the IR that reads like the report of a failure makes the relay report one.\<close>

lemma failure_in_ir:
  "generate_answer (''@0 = constant failed to generate'' @ GENERATED_IR_SEPARATOR @ ''y'') =
     Inl (ErrorObject (''@0 = constant failed to generate'' @ GENERATED_IR_SEPARATOR @ ''y''))"
  by code_simp

end
