(* ===== verification/ValidatorServer.thy ===== *)
theory ValidatorServer
  imports Wire
begin

text \<open>
  The validator server (\<^verbatim>\<open>src/src/ValidatorServer.cpp\<close>) and the choice of the functions it compares
  (\<^verbatim>\<open>src/src/Comparer.h\<close>). The compilers, LLVM's parser and Alive2 are parameters; a child process may be killed when it
  exceeds its limits. The result of a handler comes with the temporary files it leaves behind.
\<close>

section \<open>The comparison\<close>

record ir_function =
  fun_name :: string
  is_declaration :: bool

text \<open>
  What \<^verbatim>\<open>compareFunctions\<close> does: it returns whether the refinement holds, with what it wrote to the buffer; it throws; or the
  process is killed.
\<close>

datatype verified = Verified bool string | VerifierThrows string string | VerifierKilled

record ComparisonResult =
  success :: bool
  error_text :: string

type_synonym alive2 = "ir_function \<Rightarrow> ir_function \<Rightarrow> verified"

definition CPP_MANGLING_PREFIX :: string where "CPP_MANGLING_PREFIX = ''_Z''"
definition RUST_MANGLING_PREFIX :: string where "RUST_MANGLING_PREFIX = ''_ZN''"

definition should_skip_function :: "ir_function \<Rightarrow> string \<Rightarrow> bool" where
  "should_skip_function f pattern \<longleftrightarrow> is_declaration f \<or> \<not> prefix pattern (fun_name f)"

definition functions_of :: "string \<Rightarrow> ir_function list \<Rightarrow> ir_function list" where
  "functions_of pattern fs = filter (\<lambda>f. \<not> should_skip_function f pattern) fs"

definition find_function_by_name :: "ir_function list \<Rightarrow> string \<Rightarrow> ir_function option" where
  "find_function_by_name fs name = find (\<lambda>f. js_includes (fun_name f) name) fs"

text \<open>The pair to compare, or the message of the failure, in the order of the checks.\<close>

definition check_empty :: "ir_function list \<Rightarrow> string option" where
  "check_empty fs = (if fs = [] then Some ''no functions found'' else None)"

definition check_multiple :: "bool \<Rightarrow> ir_function list \<Rightarrow> string option" where
  "check_multiple named fs = (if length fs > 1 \<and> \<not> named then Some ''multiple functions found'' else None)"

fun first_error :: "string option list \<Rightarrow> string option" where
  "first_error [] = None"
| "first_error (None # es) = first_error es"
| "first_error (Some e # es) = Some e"

definition select_pair :: "bool \<Rightarrow> string \<Rightarrow> string \<Rightarrow> ir_function list \<Rightarrow> ir_function list \<Rightarrow> string + (ir_function \<times> ir_function)" where
  "select_pair named cpp_name rust_name cpp_module rust_module =
     (let cs = functions_of CPP_MANGLING_PREFIX cpp_module; rs = functions_of RUST_MANGLING_PREFIX rust_module in
      case first_error [check_empty cs, check_empty rs, check_multiple named cs, check_multiple named rs] of
        Some e \<Rightarrow> Inl e
      | None \<Rightarrow>
          if named then
            (case find_function_by_name cs cpp_name of
               None \<Rightarrow> Inl (''cpp function not found: '' @ cpp_name)
             | Some f \<Rightarrow>
                 (case find_function_by_name rs rust_name of
                    None \<Rightarrow> Inl (''rust function not found: '' @ rust_name)
                  | Some g \<Rightarrow> Inr (f, g)))
          else Inr (cs ! 0, rs ! 0))"

text \<open>\<^verbatim>\<open>compare\<close>: the result and what is in the buffer then; \<open>None\<close> when the process was killed.\<close>

definition compare_modules ::
    "alive2 \<Rightarrow> bool \<Rightarrow> string \<Rightarrow> string \<Rightarrow> ir_function list \<Rightarrow> ir_function list \<Rightarrow> (ComparisonResult \<times> string) option" where
  "compare_modules verifier named cpp_name rust_name cpp_module rust_module =
     (case select_pair named cpp_name rust_name cpp_module rust_module of
        Inl e \<Rightarrow> Some (\<lparr>success = False, error_text = e\<rparr>, [])
      | Inr (f, g) \<Rightarrow>
          (case verifier f g of
             Verified ok out \<Rightarrow> Some (\<lparr>success = ok, error_text = (if ok then [] else ''functions are not semantically equivalent'')\<rparr>, out)
           | VerifierThrows e out \<Rightarrow> Some (\<lparr>success = False, error_text = e\<rparr>, out)
           | VerifierKilled \<Rightarrow> None))"

section \<open>The two requests\<close>

record toolchain =
  clang :: "string \<Rightarrow> string option"
  rustc :: "string \<Rightarrow> string option"
  parseIRFile :: "string \<Rightarrow> ir_function list option"
  alive2 :: "string \<Rightarrow> string \<Rightarrow> alive2"

definition TMP_STORAGE_PREFIX :: string where
  "TMP_STORAGE_PREFIX = ''/tmp/__validator_server__/''"

definition IR_FILE_SIZE_LIMIT :: nat where
  "IR_FILE_SIZE_LIMIT = 50000"

definition multiple_functions_text :: string where
  "multiple_functions_text = ''multiple functions found with the provided IRs, have you specified the function names for validation?''"

definition no_functions_text :: string where
  "no_functions_text = ''no functions found in the provided IRs, '' @
     ''please double check your IRs for syntax errors and potential missing keywords. (e.g., `pub` keyword for rust function)''"

text \<open>What replaces the verifier's output when the comparison failed.\<close>

definition result_text :: "ComparisonResult \<Rightarrow> string \<Rightarrow> string" where
  "result_text r buffer =
     (if \<not> success r \<and> error_text r = ''multiple functions found'' then multiple_functions_text
      else if \<not> success r \<and> js_includes (error_text r) ''function not found'' then error_text r
      else if \<not> success r \<and> js_includes (error_text r) ''no functions found'' then no_functions_text
      else buffer)"

text \<open>
  The results with the files left; \<open>hash\<close> is the random part of their names. The text is \<open>None\<close> when the process is killed.
\<close>

type_synonym handled_request = "string option \<times> string list"

definition handle_validate_request :: "toolchain \<Rightarrow> string \<Rightarrow> string \<Rightarrow> string \<Rightarrow> string \<Rightarrow> string \<Rightarrow> handled_request" where
  "handle_validate_request tools hash cpp_ir rust_ir cpp_function_name rust_function_name =
     (let named = (cpp_function_name \<noteq> ''EMPTY'' \<and> rust_function_name \<noteq> ''EMPTY'');
          files = [TMP_STORAGE_PREFIX @ hash @ ''_cpp.ll'', TMP_STORAGE_PREFIX @ hash @ ''_rs.ll'']
      in case (parseIRFile tools cpp_ir, parseIRFile tools rust_ir) of
           (Some cpp_module, Some rust_module) \<Rightarrow>
             (case compare_modules (alive2 tools cpp_ir rust_ir) named cpp_function_name rust_function_name cpp_module rust_module of
                None \<Rightarrow> (None, files)
              | Some (r, buffer) \<Rightarrow> (Some (result_text r buffer), []))
         | _ \<Rightarrow> (Some ''failed to parse IR files'', files))"

definition compile_error :: "string \<Rightarrow> string \<Rightarrow> string" where
  "compile_error language hints = language @ '' compilation timed out (10s) or failed. Please check for: 1) syntax errors '' @ hints"

definition exceeds_error :: "string \<Rightarrow> string \<Rightarrow> string" where
  "exceeds_error name what = name @ '' generated IR file exceeds the '' @ what @ '' limit ('' @ nat_to_string IR_FILE_SIZE_LIMIT @
     '' bytes), please check your code for complex types or macros.''"

text \<open>
  A compiler gives the contents of its output, or fails or runs out of time. \<^verbatim>\<open>file_size\<close> is the number of bytes. Files are
  removed only where the code calls \<^verbatim>\<open>cleanup_intermediate_files\<close>.
\<close>

definition handle_generate_request :: "toolchain \<Rightarrow> string \<Rightarrow> string \<Rightarrow> string \<Rightarrow> handled_request" where
  "handle_generate_request tools hash cpp_code rust_code =
     (let cpp_src = TMP_STORAGE_PREFIX @ hash @ ''.cpp''; rust_src = TMP_STORAGE_PREFIX @ hash @ ''.rs'';
          cpp_file = TMP_STORAGE_PREFIX @ hash @ ''_cpp.ll''; rust_file = TMP_STORAGE_PREFIX @ hash @ ''_rs.ll''
      in case clang tools cpp_code of
           None \<Rightarrow> (Some (compile_error ''C++'' ''2) complex template metaprogramming 3) recursive types.''), [cpp_src, rust_src])
         | Some cpp_ir \<Rightarrow>
             (case rustc tools rust_code of
                None \<Rightarrow> (Some (compile_error ''Rust'' ''2) complex macros 3) type recursion.''), [cpp_src, rust_src, cpp_file])
              | Some rust_ir \<Rightarrow>
                  if length cpp_ir > IR_FILE_SIZE_LIMIT then
                    (Some (exceeds_error ''C++'' ''size''), [cpp_src, rust_src, cpp_file, rust_file])
                  else if length rust_ir > IR_FILE_SIZE_LIMIT then
                    (Some (exceeds_error ''Rust'' ''size''), [cpp_src, rust_src, cpp_file, rust_file])
                  else if length cpp_ir > IR_FILE_SIZE_LIMIT then (Some (exceeds_error ''C++'' ''length''), [])
                  else if length rust_ir > IR_FILE_SIZE_LIMIT then (Some (exceeds_error ''Rust'' ''length''), [])
                  else (Some (cpp_ir @ GENERATED_IR_SEPARATOR @ rust_ir), [])))"

section \<open>The child process\<close>

text \<open>
  \<^verbatim>\<open>handle_validate_command\<close>, \<^verbatim>\<open>handle_generate_command\<close> and the choice between them: a command without its separators, or of no
  known kind, ends the process.
\<close>

definition handle_validate_command :: "toolchain \<Rightarrow> string \<Rightarrow> string \<Rightarrow> handled_request" where
  "handle_validate_command tools hash command =
     (case parse_validate command of
        None \<Rightarrow> (None, [])
      | Some (cpp_ir, rust_ir, f, g) \<Rightarrow> handle_validate_request tools hash cpp_ir rust_ir f g)"

definition handle_generate_command :: "toolchain \<Rightarrow> string \<Rightarrow> string \<Rightarrow> handled_request" where
  "handle_generate_command tools hash command =
     (case parse_generate command of
        None \<Rightarrow> (None, [])
      | Some (cpp_code, rust_code) \<Rightarrow> handle_generate_request tools hash cpp_code rust_code)"

definition process_command :: "toolchain \<Rightarrow> string \<Rightarrow> string \<Rightarrow> handled_request" where
  "process_command tools hash command =
     (if starts_with command ''VALIDATE'' then handle_validate_command tools hash command
      else if starts_with command ''GENERATE'' then handle_generate_command tools hash command
      else (None, []))"

text \<open>What the child does with the bytes that came: what it sends, and the files it leaves.\<close>

definition process_request :: "toolchain \<Rightarrow> string \<Rightarrow> bool \<Rightarrow> string \<Rightarrow> string \<times> string list" where
  "process_request tools hash closed bytes =
     (case read_relay_message closed bytes of
        Whole command \<Rightarrow>
          (case process_command tools hash command of
             (Some result, files) \<Rightarrow> (frame result, files)
           | (None, files) \<Rightarrow> ([], files))
      | _ \<Rightarrow> ([], []))"

section \<open>The parent process\<close>

text \<open>
  The loop of \<^verbatim>\<open>start\<close>: the descriptors that are open in the parent, the children that run with their sockets, and those that
  ended and were never waited for. The child closes its own copy of the socket only.
\<close>

record server =
  open_sockets :: "nat list"
  children :: "(nat \<times> nat) list"
  zombies :: "nat list"

definition server_start :: server where
  "server_start = \<lparr>open_sockets = [], children = [], zombies = []\<rparr>"

datatype server_event = Accepted nat nat | AcceptFailed | ChildEnds nat

inductive server_step :: "server \<Rightarrow> server_event \<Rightarrow> server \<Rightarrow> bool" where
  accepted: "socket \<notin> set (open_sockets s) \<Longrightarrow> pid \<notin> fst ` set (children s) \<Longrightarrow>
    server_step s (Accepted pid socket) (s\<lparr>open_sockets := socket # open_sockets s, children := (pid, socket) # children s\<rparr>)"
| accept_failed: "server_step s AcceptFailed s"
| child_ends: "(pid, socket) \<in> set (children s) \<Longrightarrow>
    server_step s (ChildEnds pid) (s\<lparr>children := filter (\<lambda>c. fst c \<noteq> pid) (children s), zombies := pid # zombies s\<rparr>)"

text \<open>A connection is closed for the relay when no process has it open.\<close>

definition closed_for_relay :: "server \<Rightarrow> nat \<Rightarrow> bool" where
  "closed_for_relay s socket \<longleftrightarrow> socket \<notin> set (open_sockets s) \<and> socket \<notin> snd ` set (children s)"

section \<open>Which functions are compared\<close>

lemma first_error_None: "first_error es = None \<longleftrightarrow> (\<forall>e \<in> set es. e = None)"
  by (induction es rule: first_error.induct) auto

lemma checks_passed:
  "first_error [check_empty cs, check_empty rs, check_multiple named cs, check_multiple named rs] = None \<longleftrightarrow>
     cs \<noteq> [] \<and> rs \<noteq> [] \<and> (\<not> named \<longrightarrow> length cs = 1 \<and> length rs = 1)"
  by (cases cs; cases rs) (auto simp: first_error_None check_empty_def check_multiple_def)

text \<open>The first function, or the only one, of a file with a property.\<close>

definition first_such :: "(ir_function \<Rightarrow> bool) \<Rightarrow> ir_function list \<Rightarrow> ir_function \<Rightarrow> bool" where
  "first_such P fs f \<longleftrightarrow> (\<exists>xs ys. fs = xs @ f # ys \<and> P f \<and> (\<forall>h \<in> set xs. \<not> P h))"

definition only_such :: "(ir_function \<Rightarrow> bool) \<Rightarrow> ir_function list \<Rightarrow> ir_function \<Rightarrow> bool" where
  "only_such P fs f \<longleftrightarrow> (\<exists>xs ys. fs = xs @ f # ys \<and> P f \<and> (\<forall>h \<in> set (xs @ ys). \<not> P h))"

text \<open>A function with a body whose name is mangled in the way of the language; one whose name contains the text given.\<close>

definition candidate :: "string \<Rightarrow> ir_function \<Rightarrow> bool" where
  "candidate pattern f \<longleftrightarrow> \<not> is_declaration f \<and> prefix pattern (fun_name f)"

definition named_candidate :: "string \<Rightarrow> string \<Rightarrow> ir_function \<Rightarrow> bool" where
  "named_candidate pattern name f \<longleftrightarrow> candidate pattern f \<and> js_includes (fun_name f) name"

lemma find_first_such: "find P fs = Some f \<longleftrightarrow> first_such P fs f"
proof
  assume "find P fs = Some f"
  then obtain i where i: "i < length fs" "P (fs ! i)" "f = fs ! i" "\<forall>j < i. \<not> P (fs ! j)" by (auto simp: find_Some_iff)
  then have "fs = take i fs @ f # drop (Suc i) fs" by (simp add: id_take_nth_drop)
  moreover have "\<forall>h \<in> set (take i fs). \<not> P h" using i by (auto simp: in_set_conv_nth)
  ultimately show "first_such P fs f" using i by (metis first_such_def)
next
  assume "first_such P fs f"
  then obtain xs ys where "fs = xs @ f # ys" "P f" "\<forall>h \<in> set xs. \<not> P h" by (auto simp: first_such_def)
  then show "find P fs = Some f" by (induction xs arbitrary: fs) auto
qed

lemma filter_only_such: "filter P fs = [f] \<longleftrightarrow> only_such P fs f"
proof -
  have "filter P fs = [f] \<longleftrightarrow> (\<exists>xs ys. fs = xs @ f # ys \<and> (\<forall>h \<in> set xs. \<not> P h) \<and> P f \<and> filter P ys = [])"
    by (simp add: filter_eq_Cons_iff eq_commute[of "[]"])
  then show ?thesis unfolding only_such_def by (simp add: filter_empty_conv ball_Un conj_ac)
qed

lemma functions_of_candidates: "functions_of pattern fs = filter (candidate pattern) fs"
  by (simp add: functions_of_def should_skip_function_def candidate_def[abs_def])

lemma find_named:
  "find_function_by_name (functions_of pattern fs) name = Some f \<longleftrightarrow> first_such (named_candidate pattern name) fs f"
proof -
  have "find_function_by_name (filter (candidate pattern) fs) name = find (named_candidate pattern name) fs"
    by (induction fs) (auto simp: find_function_by_name_def named_candidate_def)
  then show ?thesis by (simp add: functions_of_candidates find_first_such)
qed

lemma named_exists: "(\<exists>f. first_such P fs f) \<longleftrightarrow> (\<exists>f \<in> set fs. P f)"
  using find_first_such[of P fs] by (metis find_None_iff not_None_eq)

lemma named_nonempty: "first_such (named_candidate pattern name) fs f \<Longrightarrow> functions_of pattern fs \<noteq> []"
  by (auto simp: first_such_def named_candidate_def functions_of_candidates)

text \<open>
  C5: which functions are compared. Only functions with a body whose names are mangled in the way of their languages are. With
  both names given, the pair is, in each file, the first such function whose name contains the text given, which need not be the
  function of that name; otherwise it is the only such function of each file. And whenever there is such a choice, and only
  then, a pair is compared.
\<close>

theorem compared_functions:
  "(\<forall>f g. select_pair named cpp_name rust_name cpp_module rust_module = Inr (f, g) \<longleftrightarrow>
      (if named then
         first_such (named_candidate CPP_MANGLING_PREFIX cpp_name) cpp_module f \<and>
         first_such (named_candidate RUST_MANGLING_PREFIX rust_name) rust_module g
       else only_such (candidate CPP_MANGLING_PREFIX) cpp_module f \<and> only_such (candidate RUST_MANGLING_PREFIX) rust_module g)) \<and>
   (named \<longrightarrow> (\<exists>p. select_pair named cpp_name rust_name cpp_module rust_module = Inr p) =
      ((\<exists>f \<in> set cpp_module. named_candidate CPP_MANGLING_PREFIX cpp_name f) \<and>
       (\<exists>g \<in> set rust_module. named_candidate RUST_MANGLING_PREFIX rust_name g)))"
proof -
  let ?cs = "functions_of CPP_MANGLING_PREFIX cpp_module" and ?rs = "functions_of RUST_MANGLING_PREFIX rust_module"
  let ?pair = "select_pair named cpp_name rust_name cpp_module rust_module"
  let ?checks = "first_error [check_empty ?cs, check_empty ?rs, check_multiple named ?cs, check_multiple named ?rs]"
  have pair: "?pair = Inr (f, g) \<longleftrightarrow>
      (if named then
         first_such (named_candidate CPP_MANGLING_PREFIX cpp_name) cpp_module f \<and>
         first_such (named_candidate RUST_MANGLING_PREFIX rust_name) rust_module g
       else only_such (candidate CPP_MANGLING_PREFIX) cpp_module f \<and> only_such (candidate RUST_MANGLING_PREFIX) rust_module g)"
    for f g
  proof (cases named)
    case True
    have "?pair = Inr (f, g) \<longleftrightarrow> ?checks = None \<and>
        find_function_by_name ?cs cpp_name = Some f \<and> find_function_by_name ?rs rust_name = Some g"
      using True by (auto simp: select_pair_def Let_def split: option.splits)
    then show ?thesis using True checks_passed[of ?cs ?rs named] by (auto simp: find_named dest: named_nonempty)
  next
    case False
    have "?pair = Inr (f, g) \<longleftrightarrow> ?cs = [f] \<and> ?rs = [g]"
    proof (cases ?checks)
      case None
      with False checks_passed[of ?cs ?rs named] obtain f' g' where "?cs = [f']" "?rs = [g']" by (auto simp: length_Suc_conv)
      with None False show ?thesis by (simp add: select_pair_def Let_def)
    next
      case (Some e)
      with False checks_passed[of ?cs ?rs named] have "\<not> (?cs = [f] \<and> ?rs = [g])" by auto
      with Some show ?thesis by (simp add: select_pair_def Let_def)
    qed
    then show ?thesis using False by (simp add: functions_of_candidates filter_only_such)
  qed
  moreover have "(\<exists>p. ?pair = Inr p) \<longleftrightarrow> (\<exists>f g. ?pair = Inr (f, g))" by simp
  ultimately show ?thesis by (cases named) (simp_all add: named_exists[symmetric])
qed

definition example_function :: "string \<Rightarrow> ir_function" where
  "example_function n = \<lparr>fun_name = n, is_declaration = False\<rparr>"

theorem compared_functions_witness:
  "select_pair True ''add'' ''add'' [example_function ''_Z3subii'', example_function ''_Z7add_allPii'', example_function ''_Z3addii'']
     [\<lparr>fun_name = ''_ZN4core3add'', is_declaration = True\<rparr>, example_function ''_ZN1a3add''] =
     Inr (example_function ''_Z7add_allPii'', example_function ''_ZN1a3add'')"
proof -
  let ?cs = "[example_function ''_Z3subii'', example_function ''_Z7add_allPii'', example_function ''_Z3addii'']"
  let ?rs = "[\<lparr>fun_name = ''_ZN4core3add'', is_declaration = True\<rparr>, example_function ''_ZN1a3add'']"
  let ?f = "example_function ''_Z7add_allPii''" and ?g = "example_function ''_ZN1a3add''"
  have c: "named_candidate CPP_MANGLING_PREFIX ''add'' ?f" "\<not> named_candidate CPP_MANGLING_PREFIX ''add'' (example_function ''_Z3subii'')"
    and r: "named_candidate RUST_MANGLING_PREFIX ''add'' ?g"
      "\<not> named_candidate RUST_MANGLING_PREFIX ''add'' \<lparr>fun_name = ''_ZN4core3add'', is_declaration = True\<rparr>"
    by code_simp+
  have "first_such (named_candidate CPP_MANGLING_PREFIX ''add'') ?cs ?f"
    using c unfolding first_such_def by (intro exI[of _ "[example_function ''_Z3subii'']"] exI[of _ "[example_function ''_Z3addii'']"]) simp
  moreover have "first_such (named_candidate RUST_MANGLING_PREFIX ''add'') ?rs ?g"
    using r unfolding first_such_def by (intro exI[of _ "[\<lparr>fun_name = ''_ZN4core3add'', is_declaration = True\<rparr>]"] exI[of _ "[]"]) simp
  ultimately show ?thesis
    using compared_functions[of True "''add''" "''add''" ?cs ?rs] by simp
qed

text \<open>
  So a name that is part of another's picks the other when it comes first: asked to compare \<open>add\<close>, the validator compares
  \<open>add_all\<close>.
\<close>

lemma other_function_compared:
  "select_pair True ''add'' ''add'' [example_function ''_Z7add_allPii'', example_function ''_Z3addii''] [example_function ''_ZN1a3add''] =
     Inr (example_function ''_Z7add_allPii'', example_function ''_ZN1a3add'')"
  by code_simp

text \<open>The function name of one language is ignored when the other is left empty.\<close>

lemma single_name_ignored:
  "handle_validate_request tools hash c r f ''EMPTY'' = handle_validate_request tools hash c r ''EMPTY'' ''EMPTY''"
  by (simp add: handle_validate_request_def Let_def compare_modules_def select_pair_def split: option.splits)

section \<open>What is left behind\<close>

text \<open>A generation that succeeds leaves no file; one that fails leaves those that were written.\<close>

lemma generate_files:
  "snd (handle_generate_request tools hash c r) = [] \<longleftrightarrow>
     (\<exists>x y. clang tools c = Some x \<and> rustc tools r = Some y \<and> length x \<le> IR_FILE_SIZE_LIMIT \<and> length y \<le> IR_FILE_SIZE_LIMIT)"
  by (auto simp: handle_generate_request_def Let_def split: option.splits if_splits)

lemma unparsed_files_left:
  "parseIRFile tools c = None \<Longrightarrow> length (snd (handle_validate_request tools hash c r f g)) = 2"
  by (simp add: handle_validate_request_def Let_def)

text \<open>
  The parent never closes the socket of a connection: every socket it accepted stays open, so a relay that waits for the
  end of a connection waits for ever; and every child that ended stays a zombie.
\<close>

fun accepted_socket :: "server_event \<Rightarrow> nat list" where
  "accepted_socket (Accepted pid socket) = [socket]"
| "accepted_socket e = []"

lemma sockets_stay_open:
  "steps server_step s es t \<Longrightarrow> open_sockets t = rev (concat (map accepted_socket es)) @ open_sockets s"
proof (induction rule: steps.induct)
  case (steps_Cons s e t es u)
  from steps_Cons(1) have "open_sockets t = accepted_socket e @ open_sockets s" by (induction rule: server_step.induct) auto
  with steps_Cons.IH show ?case by (cases e) auto
qed simp

lemma never_closed_for_relay:
  assumes "steps server_step server_start es s" and "Accepted pid socket \<in> set es"
  shows "\<not> closed_for_relay s socket"
  using sockets_stay_open[OF assms(1)] assms(2) by (force simp: closed_for_relay_def)

lemma zombies_stay: "steps server_step s es t \<Longrightarrow> set (zombies s) \<union> {p. ChildEnds p \<in> set es} = set (zombies t)"
proof (induction rule: steps.induct)
  case (steps_Cons s e t es u)
  from steps_Cons(1) have "set (zombies t) = set (zombies s) \<union> {p. ChildEnds p = e}" by (induction rule: server_step.induct) auto
  with steps_Cons.IH show ?case by auto
qed simp

end
