(* ===== verification/FullStack.thy ===== *)
theory FullStack
  imports System FormSpec RelayServer ValidatorServer
begin

text \<open>
  The whole program: the form in the browser, the two routes, the relay server and the validator server with its tools,
  connected by the messages they send each other.
\<close>

section \<open>The servers connected\<close>

text \<open>
  The validator as the relay sees it: what a child process answers, on a connection that stays open, because the parent
  never closes its socket (\<open>never_closed_for_relay\<close>).
\<close>

definition validator_of :: "toolchain \<Rightarrow> string \<Rightarrow> validator" where
  "validator_of tools hash bytes = Some (fst (process_request tools hash False bytes), False)"

definition stack :: "toolchain \<Rightarrow> string \<Rightarrow> thrown \<Rightarrow> string option \<Rightarrow> relay" where
  "stack tools hash timeout env = relay_at (RELAY_URL env) timeout (validator_of tools hash)"

lemma validator_answers:
  assumes "fits_digits 7 command"
  shows "validator_of tools hash (frame command) =
     Some ((case fst (process_command tools hash command) of Some m \<Rightarrow> frame m | None \<Rightarrow> []), False)"
  using to_validator.decode_encode[OF assms, of False "[]"]
  by (simp add: validator_of_def process_request_def split: option.splits prod.splits)

lemma sent_and_answered:
  assumes "fits_digits 7 command" and "fst (process_command tools hash command) = Some m" and "fits_digits 8 m"
  shows "send_to_validator (validator_of tools hash) command = Some (Inr m)"
  using validator_answers[OF assms(1), of tools hash] assms(2,3) by (intro send_whole[where closed = False]) simp_all

lemma sent_and_killed:
  assumes "fits_digits 7 command" and "fst (process_command tools hash command) = None"
  shows "send_to_validator (validator_of tools hash) command = None"
  using validator_answers[OF assms(1), of tools hash] assms(2) by (intro send_waits) simp_all

lemma process_generate:
  "clear_of RUSTCODE c \<Longrightarrow> process_command tools hash (generate_command c r) = handle_generate_request tools hash c r"
  using parse_generate_iff[of c r]
  by (simp add: process_command_def handle_generate_command_def) (simp add: generate_command_def starts_with_def)

lemma process_validate:
  "clear_of RUSTIR c \<Longrightarrow> clear_of CPP_FUNCTION r \<Longrightarrow> clear_of RUST_FUNCTION f \<Longrightarrow>
     process_command tools hash (validate_command c r f g) = handle_validate_request tools hash c r f g"
  using parse_validate_iff[of c r f g]
  by (simp add: process_command_def handle_validate_command_def) (simp add: validate_command_def starts_with_def)

section \<open>The generation\<close>

lemma stack_generate:
  "stack tools hash timeout env (generate_query env s) =
     (case send_to_validator (validator_of tools hash) (generate_command (cppCode s) (rustCode s)) of
        None \<Rightarrow> Rejected timeout
      | Some r \<Rightarrow> received (reply (and_then r generate_answer)))"
  by (simp add: stack_def relay_at_def generate_query_def relay_request_def json_fields_def handle_post_def
      handle_generate_ir_def request_strings_object relay_command_def split: option.splits)

lemma generate_command_fits:
  assumes "ready s"
  shows "fits_digits 7 (generate_command (cppCode s) (rustCode s))"
  using assms by (simp add: ready_def fits_digits_def generate_command_def separator_defs CODE_LENGTH_LIMIT_def)

text \<open>What the tools must make of the code: two files within the limit, in which the protocol finds its way.\<close>

definition generates :: "toolchain \<Rightarrow> string \<Rightarrow> string \<Rightarrow> string \<Rightarrow> string \<Rightarrow> bool" where
  "generates tools x y c q \<longleftrightarrow>
     clang tools x = Some c \<and> rustc tools y = Some q \<and> length c \<le> IR_FILE_SIZE_LIMIT \<and> length q \<le> IR_FILE_SIZE_LIMIT \<and>
     clear_of RUSTCODE x \<and> clear_of GENERATED_IR_SEPARATOR c \<and>
     \<not> list_ex (js_includes (c @ GENERATED_IR_SEPARATOR @ q)) generate_failures"

lemma generation_answered:
  assumes "ready s" and "generates tools (cppCode s) (rustCode s) c q"
  shows "good_answer (stack tools hash timeout env (generate_query env s)) [(''cppIR'', Str c), (''rustIR'', Str q)]"
proof -
  let ?result = "c @ GENERATED_IR_SEPARATOR @ q"
  from assms(2) have "fst (handle_generate_request tools hash (cppCode s) (rustCode s)) = Some ?result"
    by (simp add: generates_def handle_generate_request_def)
  moreover from assms(2) have "fits_digits 8 ?result"
    by (simp add: generates_def fits_digits_def GENERATED_IR_SEPARATOR_def IR_FILE_SIZE_LIMIT_def)
  ultimately have sent: "send_to_validator (validator_of tools hash) (generate_command (cppCode s) (rustCode s)) = Some (Inr ?result)"
    using assms generate_command_fits[OF assms(1)] by (intro sent_and_answered) (simp_all add: process_generate generates_def)
  have "?result \<noteq> ''error''"
  proof
    assume "?result = ''error''"
    then have "length ?result = length ''error''" by (simp only:)
    then show False by (simp add: GENERATED_IR_SEPARATOR_def)
  qed
  moreover from assms(2) have "cut GENERATED_IR_SEPARATOR ?result = Some (c, q)" by (simp add: generates_def cut_clear)
  ultimately have "generate_answer ?result = Inr (ObjectBody [(''cppIR'', Str c), (''rustIR'', Str q)])"
    using assms(2) by (simp add: generate_answer_def generates_def)
  then show ?thesis
    by (simp add: stack_generate sent reply_def received_def good_answer_def json_fields_def)
qed

lemma generation_done:
  assumes "ready s" and "generates tools (cppCode s) (rustCode s) c q"
  shows "serve (stack tools hash timeout env) env (handleSubmit s) = validation_sent s c q"
  using generation_served[where relay = "stack tools hash timeout env" and env = env, OF assms(1) generation_answered[OF assms]] assms(2)
  by (simp add: generates_def IR_FILE_SIZE_LIMIT_def LLVM_IR_LENGTH_LIMIT_def)

section \<open>The validation\<close>

lemma stack_validate:
  "stack tools hash timeout env (validate_query env s c q) =
     (case send_to_validator (validator_of tools hash)
        (validate_command c q (name_or_empty (cppFunctionName s)) (name_or_empty (rustFunctionName s))) of
        None \<Rightarrow> Rejected timeout
      | Some r \<Rightarrow> received (reply (and_then r validate_answer)))"
  by (simp add: stack_def relay_at_def validate_query_def relay_request_def json_fields_def handle_post_def
      handle_validate_def request_strings_def relay_command_def split: option.splits)

text \<open>The names and the files are such that the protocol finds its way; names together have at most a million characters.\<close>

definition transmits :: "form \<Rightarrow> string \<Rightarrow> string \<Rightarrow> bool" where
  "transmits s c q \<longleftrightarrow>
     clear_of RUSTIR c \<and> clear_of CPP_FUNCTION q \<and> clear_of RUST_FUNCTION (name_or_empty (cppFunctionName s)) \<and>
     length (cppFunctionName s) + length (rustFunctionName s) \<le> 1000000"

lemma validate_command_fits:
  assumes "generates tools x y c q" and "transmits s c q"
  shows "fits_digits 7 (validate_command c q (name_or_empty (cppFunctionName s)) (name_or_empty (rustFunctionName s)))"
proof -
  have "length (name_or_empty n) \<le> length n + 5" for n by (simp add: name_or_empty_def)
  from add_mono[OF this[of "cppFunctionName s"] this[of "rustFunctionName s"]] assms show ?thesis
    by (simp add: generates_def transmits_def fits_digits_def validate_command_def separator_defs IR_FILE_SIZE_LIMIT_def)
qed

definition named :: "form \<Rightarrow> bool" where
  "named s \<longleftrightarrow> name_or_empty (cppFunctionName s) \<noteq> ''EMPTY'' \<and> name_or_empty (rustFunctionName s) \<noteq> ''EMPTY''"

text \<open>The two functions that are compared.\<close>

definition chooses :: "toolchain \<Rightarrow> form \<Rightarrow> string \<Rightarrow> string \<Rightarrow> ir_function \<Rightarrow> ir_function \<Rightarrow> bool" where
  "chooses tools s c q f g \<longleftrightarrow>
     (\<exists>fs gs. parseIRFile tools c = Some fs \<and> parseIRFile tools q = Some gs \<and>
        select_pair (named s) (name_or_empty (cppFunctionName s)) (name_or_empty (rustFunctionName s)) fs gs = Inr (f, g))"

lemma validation_text:
  assumes "chooses tools s c q f g"
  shows "fst (handle_validate_request tools hash c q (name_or_empty (cppFunctionName s)) (name_or_empty (rustFunctionName s))) =
     (case alive2 tools c q f g of
        Verified ok out \<Rightarrow> Some out
      | VerifierThrows e out \<Rightarrow> Some (result_text \<lparr>success = False, error_text = e\<rparr> out)
      | VerifierKilled \<Rightarrow> None)"
proof -
  have "result_text \<lparr>success = ok, error_text = (if ok then [] else ''functions are not semantically equivalent'')\<rparr> out = out" for ok out
    by (simp add: result_text_def)
  with assms show ?thesis
    by (auto simp: chooses_def handle_validate_request_def compare_modules_def named_def Let_def split: verified.splits)
qed

section \<open>The types of the answers\<close>

text \<open>
  Answers that come through a route from the relay server, whatever its validator does: each answer may come from another
  one. The first route serves the runs that wait for the IR, the second those that wait for the verdict.
\<close>

definition relayed :: "string option \<Rightarrow> string \<Rightarrow> bool \<Rightarrow> body \<Rightarrow> bool" where
  "relayed env path ok b \<longleftrightarrow>
     (\<exists>timeout validator fields. route (relay_at (RELAY_URL env) timeout validator) env \<lparr>url = path, sent_fields = fields\<rparr> = Responded ok (Inr b))"

fun relayed_answer :: "string option \<Rightarrow> form \<Rightarrow> form_event \<Rightarrow> bool" where
  "relayed_answer env s (Parses i (Inr b)) =
     (case waiting (flights s ! i) of
        IRJson ok \<Rightarrow> relayed env ''/api/generate-ir'' ok b
      | ValJson ok \<Rightarrow> relayed env ''/api/validate'' ok b
      | _ \<Rightarrow> True)"
| "relayed_answer env s e = True"

definition relayed_step :: "string option \<Rightarrow> form \<Rightarrow> form_event \<Rightarrow> form \<Rightarrow> bool" where
  "relayed_step env s e t \<longleftrightarrow> form_step s e t \<and> relayed_answer env s e"

lemma reply_typed:
  assumes "relay_command validator command answer_of = Some r" and "status r = 200"
  shows "\<exists>s. answer_of s = Inr (payload r)"
proof (cases command)
  case (Inl t)
  with assms show ?thesis by (auto simp: relay_command_def reply_with_error_def)
next
  case (Inr c)
  with assms(1) obtain x where "r = reply (and_then x answer_of)" by (auto simp: relay_command_def)
  with assms(2) show ?thesis by (cases x) (auto simp: reply_def reply_with_error_def split: sum.splits)
qed

lemma generate_answer_typed: "generate_answer s = Inr b \<Longrightarrow> generated_irs b \<and> serialize b = b"
  by (auto simp: generate_answer_def Let_def generated_irs_def json_fields_def split: if_splits option.splits)

lemma validate_answer_typed: "validate_answer s = Inr b \<Longrightarrow> ValidationResult b \<and> serialize b = b"
  by (auto simp: validate_answer_def Let_def ValidationResult_def json_fields_def split: if_splits)

text \<open>A route answers with success only what its relay answered with success.\<close>

lemma received_ok: "received r = Responded True (Inr b) \<Longrightarrow> status r \<in> {200, 500} \<Longrightarrow> status r = 200 \<and> b = serialize (payload r)"
  by (auto simp: received_def)

lemma forward_ok:
  assumes "forward path ks relay env req = Inr r" and "status r = 200"
  shows "\<exists>vs. relay (relay_request env path ks vs) = Responded True (Inr (payload r))"
  using assms by (auto simp: forward_Inr dest!: status_answer)

lemma relay_at_ok:
  assumes "relay_at (RELAY_URL env) timeout validator (relay_request env path ks vs) = Responded True (Inr b)"
  shows "\<exists>bd r. (path = ''/api/generate-ir'' \<and> handle_generate_ir validator bd = Some r \<or> path = ''/api/validate'' \<and> handle_validate validator bd = Some r) \<and>
     received r = Responded True (Inr b)"
  using assms by (auto simp: relay_at_def relay_request_def handle_post_def split: option.splits if_splits)

lemma relayed_generate: "relayed env ''/api/generate-ir'' True b \<Longrightarrow> generated_irs b"
proof -
  assume "relayed env ''/api/generate-ir'' True b"
  then obtain timeout validator req where r: "received (generate_ir_POST (relay_at (RELAY_URL env) timeout validator) env req) = Responded True (Inr b)"
    by (auto simp: relayed_def route_def Let_def)
  let ?r = "generate_ir_POST (relay_at (RELAY_URL env) timeout validator) env req"
  have "status ?r \<in> {200, 500}" by (auto simp: generate_ir_POST_def dest: status_forward split: sum.splits)
  with received_ok[OF r] have ok: "status ?r = 200" "b = serialize (payload ?r)" by simp_all
  from ok(1) have "forward ''/api/generate-ir'' [''cppCode'', ''rustCode''] (relay_at (RELAY_URL env) timeout validator) env req = Inr ?r"
    by (auto simp: generate_ir_POST_def split: sum.splits)
  from forward_ok[OF this ok(1)] obtain vs where
    "relay_at (RELAY_URL env) timeout validator (relay_request env ''/api/generate-ir'' [''cppCode'', ''rustCode''] vs) = Responded True (Inr (payload ?r))" by blast
  from relay_at_ok[OF this] obtain bd q where q: "handle_generate_ir validator bd = Some q" "received q = Responded True (Inr (payload ?r))" by auto
  from handlers_ok(1)[OF q(1)] have "status q \<in> {200, 500}" by (auto simp: relay_response_ok_def)
  with received_ok[OF q(2)] have "status q = 200" "payload ?r = serialize (payload q)" by simp_all
  with reply_typed[OF q(1)[unfolded handle_generate_ir_def]] generate_answer_typed ok(2) show ?thesis by fastforce
qed

lemma relayed_validate: "relayed env ''/api/validate'' True b \<Longrightarrow> ValidationResult b"
proof -
  let ?ks = "[''cppIR'', ''rustIR'', ''cppFunctionName'', ''rustFunctionName'']"
  assume "relayed env ''/api/validate'' True b"
  then obtain timeout validator req where r: "received (validate_POST (relay_at (RELAY_URL env) timeout validator) env req) = Responded True (Inr b)"
    by (auto simp: relayed_def route_def Let_def)
  let ?r = "validate_POST (relay_at (RELAY_URL env) timeout validator) env req"
  have "status ?r \<in> {200, 500}" by (auto simp: validate_POST_def dest: status_forward split: sum.splits)
  with received_ok[OF r] have ok: "status ?r = 200" "b = serialize (payload ?r)" by simp_all
  from ok(1) have "forward ''/api/validate'' ?ks (relay_at (RELAY_URL env) timeout validator) env req = Inr ?r"
    by (auto simp: validate_POST_def split: sum.splits)
  from forward_ok[OF this ok(1)] obtain vs where
    "relay_at (RELAY_URL env) timeout validator (relay_request env ''/api/validate'' ?ks vs) = Responded True (Inr (payload ?r))" by blast
  from relay_at_ok[OF this] obtain bd q where q: "handle_validate validator bd = Some q" "received q = Responded True (Inr (payload ?r))" by auto
  from handlers_ok(2)[OF q(1)] have "status q \<in> {200, 500}" by (auto simp: relay_response_ok_def)
  with received_ok[OF q(2)] have "status q = 200" "payload ?r = serialize (payload q)" by simp_all
  with reply_typed[OF q(1)[unfolded handle_validate_def]] validate_answer_typed ok(2) show ?thesis by fastforce
qed

lemma refused: "refusal ok b = None \<Longrightarrow> ok = True"
  by (cases b) (auto simp: Let_def split: if_splits)

lemma relayed_accepted:
  "relayed env ''/api/generate-ir'' ok b \<Longrightarrow> refusal ok b = None \<Longrightarrow> generated_irs b"
  "relayed env ''/api/validate'' ok b \<Longrightarrow> refusal ok b = None \<Longrightarrow> ValidationResult b"
proof -
  show "relayed env ''/api/generate-ir'' ok b \<Longrightarrow> refusal ok b = None \<Longrightarrow> generated_irs b"
    by (frule refused) (simp only: relayed_generate)
  show "relayed env ''/api/validate'' ok b \<Longrightarrow> refusal ok b = None \<Longrightarrow> ValidationResult b"
    by (frule refused) (simp only: relayed_validate)
qed

lemma relayed_is_declared: "relayed_answer env s e \<Longrightarrow> declared_answer s e"
proof (cases "(env, s, e)" rule: relayed_answer.cases)
  case (1 env' s' i b)
  assume "relayed_answer env s e"
  with 1 relayed_accepted[of env _ b] show ?thesis
    by (cases "waiting (flights s ! i)") (simp_all del: refusal.simps)
qed simp_all

lemma relayed_steps: "steps (relayed_step env) s es t \<Longrightarrow> steps declared_step s es t"
  by (induction s es t rule: steps.induct) (auto simp: relayed_step_def declared_step_def dest: relayed_is_declared intro: steps.intros)

section \<open>The properties\<close>

text \<open>
  C4: the declared types hold at run time. Whatever the user does, in whatever order the answers come, and whatever the validator
  answers the relay server, as long as the answers come through the routes and the relay server, both IRs are strings, the
  result is a validation result with all its fields, and every field sent is a string.
\<close>

theorem relayed_types_hold:
  assumes "steps (relayed_step env) initial es s"
  shows "well_typed s"
  using form_types.inv_reachable[OF relayed_steps[OF assms]] .

text \<open>
  C2: a validation through the whole program. When the tools compile the code of the form to two files within the limits,
  the text keeps clear of the separators of the protocol, and there is a pair of functions to compare, then the run ends with
  the two files shown, with the text that Alive2 wrote about this pair as the output, and with the toast and the number of
  errors of a success exactly when this text says that the transformation is correct.
\<close>

theorem full_stack_run:
  assumes "ready s" and "generates tools (cppCode s) (rustCode s) c q" and "transmits s c q" and "chooses tools s c q f g"
    and "alive2 tools c q f g = Verified ok out" and "fits_digits 8 out" and "out \<noteq> ''error''"
    and "\<not> list_ex (js_includes out) validate_failures"
  shows "let t = complete_run (stack tools hash timeout env) env s; correct = js_includes out correct_text in
     result t = Some (ObjectBody [(''num_errors'', Num (if correct then 0 else 1)), (''success'', Bool correct), (''verifier_output'', Str out)]) \<and>
     cppIR t = Str c \<and> rustIR t = Str q \<and> showIRModal t \<and> flights t = [] \<and> \<not> isGeneratingIR t \<and> \<not> isLoading t \<and>
     toast t = Some (if correct then (SuccessToast, ''Validation completed successfully!'')
                     else (ErrorToast, ''Validation failed. Check the results for details.''))"
proof -
  let ?f = "name_or_empty (cppFunctionName s)" and ?g = "name_or_empty (rustFunctionName s)"
  let ?fs = "[(''num_errors'', Num (if js_includes out correct_text then 0 else 1)),
    (''success'', Bool (js_includes out correct_text)), (''verifier_output'', Str out)]"
  have "fst (process_command tools hash (validate_command c q ?f ?g)) = Some out"
    using assms(3) validation_text[OF assms(4), of hash] by (simp add: process_validate transmits_def assms(5))
  from sent_and_answered[OF validate_command_fits[OF assms(2,3)] this assms(6)]
  have "stack tools hash timeout env (validate_query env s c q) = Responded True (Inr (serialize (ObjectBody ?fs)))"
    using assms(7,8) by (simp add: stack_validate reply_def received_def validate_answer_def Let_def)
  then have "good_answer (stack tools hash timeout env (validate_query env s c q)) ?fs"
    by (simp add: good_answer_def json_fields_def)
  from complete_run_good[where relay = "stack tools hash timeout env" and env = env, OF generation_done[OF assms(1,2)] this]
  show ?thesis by (simp add: Let_def json_fields_def)
qed

text \<open>
  C6: a verifier that is killed is reported without a word. When the child process exceeds its limits during the comparison,
  the relay never gets an answer; however the route's request then ends, the run ends with an empty error message and the
  result of a failure.
\<close>

theorem killed_verifier_unexplained:
  assumes "ready s" and "generates tools (cppCode s) (rustCode s) c q" and "transmits s c q" and "chooses tools s c q f g"
    and "alive2 tools c q f g = VerifierKilled"
  shows "handle_validate (validator_of tools hash) (ObjectBody (sent_fields (validate_query env s c q))) = None \<and>
     toast (complete_run (stack tools hash timeout env) env s) = Some (ErrorToast, '''') \<and>
     result (complete_run (stack tools hash timeout env) env s) = Some (failure_result '''')"
proof -
  let ?f = "name_or_empty (cppFunctionName s)" and ?g = "name_or_empty (rustFunctionName s)"
  have "fst (process_command tools hash (validate_command c q ?f ?g)) = None"
    using assms(3) validation_text[OF assms(4), of hash] by (simp add: process_validate transmits_def assms(5))
  from sent_and_killed[OF validate_command_fits[OF assms(2,3)] this]
  have none: "send_to_validator (validator_of tools hash) (validate_command c q ?f ?g) = None" .
  then have "handle_validate (validator_of tools hash) (ObjectBody (sent_fields (validate_query env s c q))) = None"
    by (simp add: handle_validate_def request_strings_def relay_command_def validate_query_def relay_request_def json_fields_def)
  moreover from none have "stack tools hash timeout env (validate_query env s c q) = Rejected timeout" by (simp add: stack_validate)
  from complete_run_thrown[where relay = "stack tools hash timeout env" and env = env, OF generation_done[OF assms(1,2)] this]
  have "toast (complete_run (stack tools hash timeout env) env s) = Some (ErrorToast, '''') \<and>
     result (complete_run (stack tools hash timeout env) env s) = Some (failure_result '''')" .
  ultimately show ?thesis by simp
qed

section \<open>Examples\<close>

definition example_tools :: "verified \<Rightarrow> toolchain" where
  "example_tools v = \<lparr>clang = \<lambda>x. Some (''cpp of '' @ x), rustc = \<lambda>x. Some (''rust of '' @ x),
     parseIRFile = \<lambda>x. Some [example_function (if prefix ''cpp'' x then ''_Z1fi'' else ''_ZN1a1f'')],
     alive2 = \<lambda>c q f g. v\<rparr>"

definition stack_form :: form where
  "stack_form = initial\<lparr>cppCode := ''c'', rustCode := ''r''\<rparr>"

lemma stack_form_facts:
  "ready stack_form" "generates (example_tools v) (cppCode stack_form) (rustCode stack_form) ''cpp of c'' ''rust of r''"
  "transmits stack_form ''cpp of c'' ''rust of r''"
  "chooses (example_tools v) stack_form ''cpp of c'' ''rust of r'' (example_function ''_Z1fi'') (example_function ''_ZN1a1f'')"
proof -
  show "ready stack_form" by (simp add: ready_def stack_form_def initial_def CODE_LENGTH_LIMIT_def)
  have "clear_of RUSTCODE ''c''" "clear_of GENERATED_IR_SEPARATOR ''cpp of c''"
    "\<not> list_ex (js_includes (''cpp of c'' @ GENERATED_IR_SEPARATOR @ ''rust of r'')) generate_failures" by code_simp+
  then show "generates (example_tools v) (cppCode stack_form) (rustCode stack_form) ''cpp of c'' ''rust of r''"
    by (simp add: generates_def example_tools_def stack_form_def IR_FILE_SIZE_LIMIT_def)
  have "clear_of RUSTIR ''cpp of c''" "clear_of CPP_FUNCTION ''rust of r''" "clear_of RUST_FUNCTION ''EMPTY''" by code_simp+
  then show "transmits stack_form ''cpp of c'' ''rust of r''"
    by (simp add: transmits_def stack_form_def initial_def name_or_empty_def)
  have "select_pair False ''EMPTY'' ''EMPTY'' [example_function ''_Z1fi''] [example_function ''_ZN1a1f''] =
      Inr (example_function ''_Z1fi'', example_function ''_ZN1a1f'')" by code_simp
  then show "chooses (example_tools v) stack_form ''cpp of c'' ''rust of r'' (example_function ''_Z1fi'') (example_function ''_ZN1a1f'')"
    by (simp add: chooses_def named_def example_tools_def stack_form_def initial_def name_or_empty_def)
qed

theorem full_stack_run_witness:
  "let t = complete_run (stack (example_tools (Verified True correct_text)) ''1'' no_json None) None stack_form in
     result t = Some (ObjectBody [(''num_errors'', Num 0), (''success'', Bool True), (''verifier_output'', Str correct_text)]) \<and>
     toast t = Some (SuccessToast, ''Validation completed successfully!'')"
proof -
  have "alive2 (example_tools (Verified True correct_text)) ''cpp of c'' ''rust of r'' (example_function ''_Z1fi'') (example_function ''_ZN1a1f'') =
    Verified True correct_text" by (simp add: example_tools_def)
  moreover have "fits_digits 8 correct_text" by (simp add: fits_digits_def correct_text_def)
  moreover have "correct_text \<noteq> ''error''" "\<not> list_ex (js_includes correct_text) validate_failures"
    "js_includes correct_text correct_text" by code_simp+
  ultimately show ?thesis
    using full_stack_run[OF stack_form_facts, of "Verified True correct_text" True correct_text "''1''" no_json None] by (simp add: Let_def)
qed

theorem killed_verifier_unexplained_witness:
  "toast (complete_run (stack (example_tools VerifierKilled) ''1'' no_json None) None stack_form) = Some (ErrorToast, '''')"
proof -
  have "alive2 (example_tools VerifierKilled) ''cpp of c'' ''rust of r'' (example_function ''_Z1fi'') (example_function ''_ZN1a1f'') =
    VerifierKilled" by (simp add: example_tools_def)
  from killed_verifier_unexplained[OF stack_form_facts this] show ?thesis by blast
qed

text \<open>A validator that answers with two files, whatever it is asked.\<close>

definition constant_validator :: validator where
  "constant_validator bytes = Some (frame (''x'' @ GENERATED_IR_SEPARATOR @ ''y''), False)"

definition xy_body :: body where
  "xy_body = ObjectBody [(''cppIR'', Str ''x''), (''rustIR'', Str ''y'')]"

lemma relayed_example: "relayed None ''/api/generate-ir'' True xy_body"
proof -
  have "send_to_validator constant_validator c = Some (Inr (''x'' @ GENERATED_IR_SEPARATOR @ ''y''))" for c
    by (rule send_whole[where closed = False]) (simp_all add: constant_validator_def fits_digits_def GENERATED_IR_SEPARATOR_def)
  moreover have "generate_answer (''x'' @ GENERATED_IR_SEPARATOR @ ''y'') = Inr xy_body" by code_simp
  ultimately have "relay_at (RELAY_URL None) no_json constant_validator (generate_query None stack_form) = Responded True (Inr xy_body)"
    by (simp add: relay_at_def generate_query_def relay_request_def json_fields_def handle_post_def handle_generate_ir_def
        request_strings_object relay_command_def reply_def received_def xy_body_def)
  then have "route (relay_at (RELAY_URL None) no_json constant_validator) None \<lparr>url = ''/api/generate-ir'',
      sent_fields = [(''cppCode'', Str (cppCode stack_form)), (''rustCode'', Str (rustCode stack_form))]\<rparr> = Responded True (Inr xy_body)"
    by (simp add: route_generate answer_def xy_body_def received_def json_fields_def)
  then show ?thesis unfolding relayed_def by blast
qed

theorem relayed_types_hold_witness:
  "\<exists>es s. steps (relayed_step None) initial es s \<and> cppIR s = Str ''x'' \<and> rustIR s = Str ''y'' \<and> well_typed s"
proof -
  let ?s = "handle (Parses 0 (Inr xy_body)) (handle (Responds 0 (Inr True)) (handle Submit
     (handle (EditRust ''r'') (handle (EditCpp ''c'') initial))))"
  have "steps (relayed_step None) initial [EditCpp ''c'', EditRust ''r'', Submit, Responds 0 (Inr True), Parses 0 (Inr xy_body)] ?s"
    using relayed_example
    by (simp add: steps_Cons_iff relayed_step_def form_step_iff initial_def submit_disabled_def
        handleSubmit_def showToast_def check_limits_def CODE_LENGTH_LIMIT_def)
  moreover have "cppIR ?s = Str ''x'' \<and> rustIR ?s = Str ''y''"
    by (simp add: initial_def handleSubmit_def piece_defs check_limits_def CODE_LENGTH_LIMIT_def LLVM_IR_LENGTH_LIMIT_def
        xy_body_def ir_received_def check_response_def start_validation_def Let_def)
  ultimately show ?thesis using relayed_types_hold by blast
qed

end
