(* ===== verification/FormToast.thy ===== *)
theory FormToast
  imports EditorForm Widgets
begin

text \<open>
  The form together with the toast it shows (\<^verbatim>\<open>src/components/CodeEditorForm.tsx\<close> and \<^verbatim>\<open>Toast.tsx\<close>): the
  toast is mounted, rendered again and unmounted by the renders of the form, and its timer closes it through
  the form. The form's \<^verbatim>\<open>onClose\<close> is a new function in every render, here the number of the render.
\<close>

section \<open>What a toast looks like\<close>

text \<open>The class of the box, the path of the icon and the message; the close button has its own icon.\<close>

record toast_view =
  box_class :: string
  icon_path :: string
  shown_message :: string
  button_class :: string
  button_path :: string

definition baseStyles :: string where
  "baseStyles = ''fixed bottom-4 right-4 px-6 py-3 rounded-lg shadow-lg transform transition-all duration-300 ease-in-out z-50 flex items-center space-x-2''"

fun typeStyles :: "toast_type \<Rightarrow> string" where
  "typeStyles ErrorToast = ''bg-red-600 text-white''"
| "typeStyles SuccessToast = ''bg-green-600 text-white''"
| "typeStyles InfoToast = ''bg-blue-600 text-white''"

fun icons :: "toast_type \<Rightarrow> string" where
  "icons ErrorToast = ''M12 8v4m0 4h.01M21 12a9 9 0 11-18 0 9 9 0 0118 0z''"
| "icons SuccessToast = ''M5 13l4 4L19 7''"
| "icons InfoToast = ''M13 16h-1v-4h-1m1-4h.01M21 12a9 9 0 11-18 0 9 9 0 0118 0z''"

definition Toast_render :: "toast_type \<Rightarrow> string \<Rightarrow> toast_view" where
  "Toast_render k message =
     \<lparr>box_class = baseStyles @ '' '' @ typeStyles k @ '' animate-slide-up font-fira-sans'',
      icon_path = icons k, shown_message = message,
      button_class = ''ml-4 hover:opacity-80 transition-opacity'', button_path = ''M6 18L18 6M6 6l12 12''\<rparr>"

text \<open>What is seen tells the kind and the message of a toast.\<close>

lemma Toast_render_inj: "Toast_render k m = Toast_render k' m' \<longleftrightarrow> k = k' \<and> m = m'"
  by (cases k; cases k') (auto simp: Toast_render_def)

section \<open>Renders\<close>

definition DEFAULT_DURATION :: nat where
  "DEFAULT_DURATION = 5000"

text \<open>
  Whether an event makes React render the form: some state is set to a new value. \<^verbatim>\<open>setToast\<close> is
  given a new object each time, so a shown message always counts; an answer whose body is still to be parsed sets
  nothing.
\<close>

fun renders_form :: "form_event \<Rightarrow> form \<Rightarrow> bool" where
  "renders_form (EditCpp v) s = (v \<noteq> cppCode s)"
| "renders_form (EditRust v) s = (v \<noteq> rustCode s)"
| "renders_form (EditCppName v) s = (v \<noteq> cppFunctionName s)"
| "renders_form (EditRustName v) s = (v \<noteq> rustFunctionName s)"
| "renders_form (SelectExample cpp rust) s = (cpp \<noteq> cppCode s \<or> rust \<noteq> rustCode s)"
| "renders_form ClearAll s =
     (cppCode s \<noteq> [] \<or> rustCode s \<noteq> [] \<or> cppIR s \<noteq> Str [] \<or> rustIR s \<noteq> Str [] \<or> result s \<noteq> None)"
| "renders_form Submit s = (cppCode s \<noteq> [] \<and> rustCode s \<noteq> [])"
| "renders_form CloseModal s = showIRModal s"
| "renders_form CloseToast s = (toast s \<noteq> None)"
| "renders_form (Responds i (Inl t)) s = True"
| "renders_form (Responds i (Inr ok)) s = False"
| "renders_form (Parses i x) s = True"

text \<open>The form, its toast while there is one, the renders so far, and the time since the last of them.\<close>

record live_form =
  state :: form
  toast_instance :: "toast_state option"
  renders :: nat
  since_render :: nat

definition live_initial :: live_form where
  "live_initial = \<lparr>state = initial, toast_instance = None, renders = 0, since_render = 0\<rparr>"

definition show_toast :: "form \<Rightarrow> nat \<Rightarrow> toast_state option \<Rightarrow> toast_state option" where
  "show_toast t onClose' old =
     (case toast t of
        None \<Rightarrow> None
      | Some message \<Rightarrow>
          Some (case old of
            None \<Rightarrow> toast_mount DEFAULT_DURATION onClose'
          | Some ts \<Rightarrow> toast_rerender DEFAULT_DURATION onClose' ts))"

definition render_live :: "form \<Rightarrow> live_form \<Rightarrow> live_form" where
  "render_live t s =
     \<lparr>state = t, toast_instance = show_toast t (Suc (renders s)) (toast_instance s),
      renders = Suc (renders s), since_render = 0\<rparr>"

datatype live_event = FormHappens form_event | TimePasses nat | TimerFires nat

inductive live_step :: "live_form \<Rightarrow> live_event \<Rightarrow> live_form \<Rightarrow> bool" where
  form_happens: "form_step (state s) e t \<Longrightarrow>
    live_step s (FormHappens e) (if renders_form e (state s) then render_live t s else s\<lparr>state := t\<rparr>)"
| time_passes: "live_step s (TimePasses n)
    (s\<lparr>toast_instance := map_option (\<lambda>ts. ts\<lparr>toast_timers := elapse n (toast_timers ts)\<rparr>) (toast_instance s),
       since_render := since_render s + n\<rparr>)"
| timer_fires: "toast_instance s = Some ts \<Longrightarrow> toast_step ts (ToastFire i) ts' \<Longrightarrow>
    live_step s (TimerFires i) (render_live (handle CloseToast (state s)) (s\<lparr>toast_instance := Some ts'\<rparr>))"

inductive_cases live_stepE: "live_step s e t"

inductive_simps timer_fires_iff: "live_step s (TimerFires i) t"

section \<open>The toast's life\<close>

text \<open>A step without a render leaves the toast's message as it was.\<close>

lemma no_render_keeps_toast:
  assumes "form_step s e t" and "\<not> renders_form e s"
  shows "toast t = toast s"
proof (cases e)
  case (Responds i x)
  with assms show ?thesis by (cases x) (auto simp: form_step_iff)
qed (use assms in \<open>auto simp: form_step_iff handleSubmit_def\<close>)

definition toast_timed :: "live_form \<Rightarrow> bool" where
  "toast_timed s \<longleftrightarrow>
     (case toast_instance s of
        None \<Rightarrow> toast (state s) = None
      | Some ts \<Rightarrow> toast (state s) \<noteq> None \<and> toast_inv ts \<and> onClose ts \<le> renders s \<and>
          (\<exists>d. deadline (toast_timers ts) = [timer ts \<mapsto> d] \<and>
             d + since_render s = clock (toast_timers ts) + DEFAULT_DURATION))"

lemma live_projects: "live_step s e t \<Longrightarrow> toast_timed s \<Longrightarrow> state t = state s \<or> (\<exists>e'. form_step (state s) e' (state t))"
proof (induction rule: live_step.induct)
  case (timer_fires s ts i ts')
  then have "form_step (state s) CloseToast (handle CloseToast (state s))"
    by (simp add: form_step_iff toast_timed_def)
  then show ?case by (auto simp: render_live_def)
qed (auto simp: render_live_def)

lemma toast_timed_render:
  assumes "\<And>ts. toast_instance s = Some ts \<Longrightarrow> toast_inv ts \<and> onClose ts \<le> renders s"
  shows "toast_timed (render_live t s)"
proof (cases "toast t")
  case None
  then show ?thesis by (simp add: toast_timed_def render_live_def show_toast_def)
next
  case message: (Some m)
  show ?thesis
  proof (cases "toast_instance s")
    case None
    with message toast_mount_timers[of DEFAULT_DURATION "Suc (renders s)"] onClose_rerender show ?thesis
      by (simp add: toast_timed_def render_live_def show_toast_def)
         (simp add: toast_mount_def toast_effect_def case_prod_beta)
  next
    case (Some ts)
    with assms have "toast_inv ts" "Suc (renders s) \<noteq> onClose ts" by fastforce+
    from toast_rerender_timers[OF this, of DEFAULT_DURATION] message Some onClose_rerender show ?thesis
      by (simp add: toast_timed_def render_live_def show_toast_def)
  qed
qed

lemma toast_timed_step: "live_step s e t \<Longrightarrow> toast_timed s \<Longrightarrow> toast_timed t"
proof (induction rule: live_step.induct)
  case (form_happens s e t)
  show ?case
  proof (cases "renders_form e (state s)")
    case True
    with form_happens.prems show ?thesis
      using toast_timed_render[of s t] by (simp add: toast_timed_def split: option.splits)
  next
    case False
    with form_happens no_render_keeps_toast[OF form_happens(1)] show ?thesis
      by (simp add: toast_timed_def split: option.splits)
  qed
next
  case (time_passes s n)
  then show ?case by (auto simp: toast_timed_def toast_inv_def browser.service_laws split: option.splits)
next
  case (timer_fires s ts i ts')
  have "toast_inv ts'" using timer_fires toast_inv_step[OF timer_fires(2)] by (simp add: toast_timed_def)
  moreover have "onClose ts' \<le> renders s" using timer_fires by (auto simp: toast_timed_def toast_step_iff)
  ultimately show ?case by (intro toast_timed_render) simp
qed

interpretation live_machine: invariant_machine live_step live_initial toast_timed
  by unfold_locales (auto simp: toast_timed_step, simp add: toast_timed_def live_initial_def initial_def)

lemma live_reaches_form: "steps live_step s es t \<Longrightarrow> toast_timed s \<Longrightarrow> \<exists>fs. steps form_step (state s) fs (state t)"
proof (induction rule: steps.induct)
  case (steps_Cons s e t es u)
  from steps_Cons.IH steps_Cons.prems toast_timed_step[OF steps_Cons(1)] obtain fs where
    "steps form_step (state t) fs (state u)" by blast
  with live_projects[OF steps_Cons(1) steps_Cons.prems] show ?case by (metis steps.steps_Cons)
qed (auto intro: steps_Nil)

text \<open>
  C12: the toast and the form agree at all times: a toast is mounted exactly while the form has a message. Its timer
  can close it exactly when 5000 ms have passed since the last render of the form, whatever the form did before;
  then only the message is taken away. And the form together with its toast reaches no state that the form could not reach
  alone, so what holds of the form holds of it here too.
\<close>

theorem toast_closes_after_last_render:
  assumes "steps live_step live_initial es s"
  shows "(toast_instance s \<noteq> None \<longleftrightarrow> toast (state s) \<noteq> None) \<and>
     ((\<exists>i t. live_step s (TimerFires i) t) \<longleftrightarrow> toast (state s) \<noteq> None \<and> 5000 \<le> since_render s) \<and>
     (\<forall>i t. live_step s (TimerFires i) t \<longrightarrow> state t = (state s)\<lparr>toast := None\<rparr> \<and> toast_instance t = None) \<and>
     (\<exists>fs. steps form_step initial fs (state s))"
proof -
  have inv: "toast_timed s" using live_machine.inv_reachable[OF assms] .
  have "(\<exists>i t. live_step s (TimerFires i) t) \<longleftrightarrow> toast (state s) \<noteq> None \<and> 5000 \<le> since_render s"
    using inv by (cases "toast_instance s") (auto simp: toast_timed_def timer_fires_iff toast_step_iff due_iff DEFAULT_DURATION_def split: if_splits)
  moreover have "\<exists>fs. steps form_step initial fs (state s)"
    using live_reaches_form[OF assms] live_machine.inv_init by (simp add: live_initial_def)
  moreover have "toast_instance s \<noteq> None \<longleftrightarrow> toast (state s) \<noteq> None"
    using inv by (simp add: toast_timed_def split: option.splits)
  ultimately show ?thesis by (auto simp: timer_fires_iff render_live_def show_toast_def)
qed

lemma live_form_step:
  assumes "enabled (state s) e"
  obtains t where "live_step s (FormHappens e) t" and "state t = handle e (state s)"
    and "renders_form e (state s) \<Longrightarrow> since_render t = 0"
proof
  show "live_step s (FormHappens e)
      (if renders_form e (state s) then render_live (handle e (state s)) s else s\<lparr>state := handle e (state s)\<rparr>)"
    using assms by (intro live_step.form_happens) (simp add: form_step_iff)
qed (simp_all add: render_live_def)

lemma live_wait:
  obtains t where "live_step s (TimePasses n) t" and "state t = state s" and "since_render t = since_render s + n"
  by (rule that[OF live_step.time_passes]) simp_all

theorem toast_closes_after_last_render_witness:
  "\<exists>s i t. steps live_step live_initial
       [FormHappens (EditCpp ''c''), FormHappens (EditRust ''r''), FormHappens Submit, TimePasses 5000] s \<and>
     toast (state s) = Some (InfoToast, ''Generating LLVM IR...'') \<and> live_step s (TimerFires i) t \<and> toast (state t) = None"
proof -
  obtain s1 where s1: "live_step live_initial (FormHappens (EditCpp ''c'')) s1" "state s1 = handle (EditCpp ''c'') initial"
    by (rule live_form_step[of live_initial "EditCpp ''c''"]) (simp_all add: live_initial_def)
  obtain s2 where s2: "live_step s1 (FormHappens (EditRust ''r'')) s2" "state s2 = handle (EditRust ''r'') (state s1)"
    by (rule live_form_step[of s1 "EditRust ''r''"]) simp_all
  have ready: "enabled (state s2) Submit" "renders_form Submit (state s2)"
    by (simp_all add: s1(2) s2(2) submit_disabled_def initial_def)
  then obtain s3 where s3: "live_step s2 (FormHappens Submit) s3" "state s3 = handle Submit (state s2)" "since_render s3 = 0"
    by (metis live_form_step)
  obtain s where s: "live_step s3 (TimePasses 5000) s" "state s = state s3" "since_render s = since_render s3 + 5000"
    by (rule live_wait)
  have run: "steps live_step live_initial
      [FormHappens (EditCpp ''c''), FormHappens (EditRust ''r''), FormHappens Submit, TimePasses 5000] s"
    using s1(1) s2(1) s3(1) s(1) by (blast intro: steps_Cons steps_Nil)
  have message: "toast (state s) = Some (InfoToast, ''Generating LLVM IR...'')"
    by (simp add: s(2) s3(2) s2(2) s1(2) handleSubmit_def showToast_def check_limits_def CODE_LENGTH_LIMIT_def initial_def)
  note closes = toast_closes_after_last_render[OF run]
  have "toast (state s) \<noteq> None" "5000 \<le> since_render s" by (simp_all add: message s(3) s3(3))
  with conjunct1[OF conjunct2[OF closes]] obtain i t where fires: "live_step s (TimerFires i) t" by blast
  then have "toast (state t) = None" using conjunct1[OF conjunct2[OF conjunct2[OF closes]]] by simp
  with run message fires show ?thesis by blast
qed

end
