(* ===== verification/CodeTrim.thy ===== *)
theory CodeTrim
  imports Prelude
begin

text \<open>
  How the slides' code plugin prepares the text of a code block
  (\<^verbatim>\<open>src/slides/plugin/highlight/plugin.js\<close>, \<^verbatim>\<open>init\<close> and \<^verbatim>\<open>betterTrim\<close>): blank lines around the
  code and the indentation common to its lines are removed, and angle brackets are escaped.
\<close>

section \<open>Trimming\<close>

definition blank :: "string \<Rightarrow> bool" where
  "blank l \<longleftrightarrow> trim l = []"

text \<open>The two loops remove the blank lines at the beginning and at the end.\<close>

definition trimLineBreaks :: "string \<Rightarrow> string" where
  "trimLineBreaks input =
     join [newline] (rev (dropWhile blank (rev (dropWhile blank (split input [newline])))))"

text \<open>The reduction to the smallest indentation; \<open>None\<close> is \<^verbatim>\<open>Number.POSITIVE_INFINITY\<close>.\<close>

definition above :: "nat option \<Rightarrow> nat \<Rightarrow> bool" where
  "above acc d = (case acc of None \<Rightarrow> True | Some a \<Rightarrow> a > d)"

definition pad_step :: "nat option \<Rightarrow> string \<Rightarrow> nat option" where
  "pad_step acc line =
     (if length line > 0 \<and> length (trim_left line) > 0 \<and> above acc (length line - length (trim_left line))
      then Some (length line - length (trim_left line)) else acc)"

definition slice_pad :: "nat option \<Rightarrow> string \<Rightarrow> string" where
  "slice_pad pad line = (case pad of None \<Rightarrow> [] | Some k \<Rightarrow> drop k line)"

definition betterTrim :: "string \<Rightarrow> string" where
  "betterTrim s =
     (let ls = split (trimLineBreaks s) [newline];
          pad = foldl pad_step None ls
      in join [newline] (map (slice_pad pad) ls))"

section \<open>Preparing a block\<close>

text \<open>Text put into an element shows up in its \<^verbatim>\<open>innerHTML\<close> with its special characters escaped.\<close>

definition html_of_text :: "string \<Rightarrow> string" where
  "html_of_text s = concat (map (\<lambda>c. if c = CHR ''&'' then ''&amp;'' else if c = CHR ''<'' then ''&lt;''
     else if c = CHR ''>'' then ''&gt;'' else if c = CHR 0xA0 then ''&nbsp;'' else [c]) s)"

definition escape_brackets :: "string \<Rightarrow> string" where
  "escape_brackets s = concat (map (\<lambda>c. if c = CHR ''<'' then ''&lt;'' else if c = CHR ''>'' then ''&gt;'' else [c]) s)"

record code_element =
  inner :: string
  template :: "string option"
  data_trim :: bool
  data_noescape :: bool

text \<open>
  The options of the plugin; a value that is no boolean counts as true
  (\<^verbatim>\<open>typeof config.escapeHTML === 'boolean' ? config.escapeHTML : true\<close>).
\<close>

definition config_flag :: "bool option \<Rightarrow> bool" where
  "config_flag v = (case v of None \<Rightarrow> True | Some b \<Rightarrow> b)"

text \<open>
  One block in \<^verbatim>\<open>init\<close>: the \<^verbatim>\<open>innerHTML\<close> it has when the highlighter gets it. The parameter \<open>reparse\<close> is the
  browser's part, what \<^verbatim>\<open>innerHTML\<close> reads after a text was assigned to it.
\<close>

definition prepare_block :: "(string \<Rightarrow> string) \<Rightarrow> bool option \<Rightarrow> code_element \<Rightarrow> string" where
  "prepare_block reparse escapeHTML e =
     (let h = (case template e of None \<Rightarrow> inner e | Some t \<Rightarrow> html_of_text t);
          h = (if data_trim e then reparse (betterTrim h) else h)
      in if config_flag escapeHTML \<and> \<not> data_noescape e then reparse (escape_brackets h) else h)"

section \<open>The smallest indentation\<close>

definition indent :: "string \<Rightarrow> nat" where
  "indent l = length (takeWhile is_space l)"

lemma length_trim_left: "length l - length (trim_left l) = indent l"
  by (metis add_diff_cancel_right' indent_def length_append takeWhile_dropWhile_id trim_left_def)

lemma blank_iff: "blank l \<longleftrightarrow> list_all is_space l"
  by (auto simp: blank_def trim_def list_all_iff dropWhile_eq_Nil_conv dest: set_dropWhileD)
     (metis dropWhile_eq_Nil_conv set_rev hd_dropWhile list.set_sel(1))+

lemma trim_left_Nil: "trim_left l = [] \<longleftrightarrow> blank l"
  by (simp add: trim_left_def blank_iff list_all_iff dropWhile_eq_Nil_conv)

lemma pad_step_eq: "pad_step acc l = (if \<not> blank l \<and> above acc (indent l) then Some (indent l) else acc)"
proof -
  have "length l > 0 \<and> length (trim_left l) > 0 \<longleftrightarrow> \<not> blank l"
    using trim_left_Nil[of l] by (auto simp: blank_iff)
  then show ?thesis by (simp only: pad_step_def length_trim_left conj_assoc[symmetric])
qed

lemma pad_fold:
  "case foldl pad_step acc ls of
     None \<Rightarrow> acc = None \<and> (\<forall>l \<in> set ls. blank l)
   | Some k \<Rightarrow> (acc = Some k \<or> (\<exists>l \<in> set ls. \<not> blank l \<and> indent l = k)) \<and>
       (\<forall>l \<in> set ls. \<not> blank l \<longrightarrow> k \<le> indent l) \<and> (\<forall>a. acc = Some a \<longrightarrow> k \<le> a)"
proof (induction ls arbitrary: acc)
  case Nil
  then show ?case by (cases acc) auto
next
  case (Cons l ls)
  from Cons.IH[of "pad_step acc l"] show ?case
    by (cases "foldl pad_step (pad_step acc l) ls")
       (auto simp: pad_step_eq above_def split: if_splits option.splits)
qed

lemma blank_drop: "\<not> blank l \<Longrightarrow> k \<le> indent l \<Longrightarrow> \<not> blank (drop k l) \<and> indent (drop k l) = indent l - k"
proof -
  assume l: "\<not> blank l" and k: "k \<le> indent l"
  have split: "l = takeWhile is_space l @ dropWhile is_space l" by simp
  have d: "drop k l = drop k (takeWhile is_space l) @ dropWhile is_space l"
    using k by (subst split) (simp add: indent_def del: takeWhile_dropWhile_id)
  from l have ne: "dropWhile is_space l \<noteq> []" using trim_left_Nil[of l] by (simp add: trim_left_def)
  have all: "\<forall>c \<in> set (drop k (takeWhile is_space l)). is_space c"
    using set_takeWhileD by (fastforce dest: in_set_dropD)
  from ne have hd: "\<not> is_space (hd (dropWhile is_space l))" by (rule hd_dropWhile)
  from ne obtain c r where cr: "dropWhile is_space l = c # r" by (cases "dropWhile is_space l") auto
  with hd have "\<not> is_space c" by simp
  with d cr all show ?thesis by (auto simp: blank_iff list_all_iff indent_def takeWhile_append)
qed

section \<open>What trimming keeps\<close>

lemma drop_blank: "blank l \<Longrightarrow> blank (drop k l)"
  by (auto simp: blank_iff list_all_iff dest: in_set_dropD)

definition core_lines :: "string \<Rightarrow> string list" where
  "core_lines s = rev (dropWhile blank (rev (dropWhile blank (split s [newline]))))"

lemma core_lines_parts:
  "\<exists>top bottom. split s [newline] = top @ core_lines s @ bottom \<and> list_all blank (top @ bottom)"
proof -
  let ?d = "dropWhile blank (split s [newline])"
  have "split s [newline] = takeWhile blank (split s [newline]) @ ?d" by simp
  moreover have "?d = core_lines s @ rev (takeWhile blank (rev ?d))"
    unfolding core_lines_def by (metis rev_append rev_rev_ident takeWhile_dropWhile_id)
  ultimately have "split s [newline] =
      takeWhile blank (split s [newline]) @ core_lines s @ rev (takeWhile blank (rev ?d))" by simp
  moreover have "list_all blank (takeWhile blank (split s [newline]) @ rev (takeWhile blank (rev ?d)))"
    by (auto simp: list_all_iff dest: set_takeWhileD)
  ultimately show ?thesis by blast
qed

lemma core_lines_ends:
  assumes "core_lines s \<noteq> []"
  shows "\<not> blank (hd (core_lines s))" "\<not> blank (last (core_lines s))"
proof -
  let ?d = "dropWhile blank (split s [newline])"
  from assms have r: "dropWhile blank (rev ?d) \<noteq> []" by (simp add: core_lines_def)
  then show "\<not> blank (last (core_lines s))" using hd_dropWhile[OF r] by (simp add: core_lines_def last_rev)
  from r have d: "?d \<noteq> []" by (metis dropWhile.simps(1) rev.simps(1))
  have "prefix (core_lines s) ?d"
    unfolding core_lines_def by (metis prefixI rev_append rev_rev_ident takeWhile_dropWhile_id)
  then have "hd (core_lines s) = hd ?d" using assms by (auto elim!: prefixE)
  then show "\<not> blank (hd (core_lines s))" using hd_dropWhile[OF d] by simp
qed

lemma core_lines_free: "l \<in> set (core_lines s) \<Longrightarrow> newline \<notin> set l"
proof -
  assume "l \<in> set (core_lines s)"
  then have "l \<in> set (split_from [newline] [] s)"
    by (auto simp: core_lines_def split_def dest!: set_dropWhileD)
  then show ?thesis by (rule split_char_free) simp
qed

lemma core_lines_id:
  assumes "ls \<noteq> []" and "\<forall>l \<in> set ls. newline \<notin> set l" and "\<not> blank (hd ls)" and "\<not> blank (last ls)"
  shows "core_lines (join [newline] ls) = ls"
proof -
  have "dropWhile blank ls = ls" using assms(1,3) by (cases ls) auto
  moreover have "dropWhile blank (rev ls) = rev ls" using assms(1,4) by (cases ls rule: rev_cases) auto
  ultimately show ?thesis using assms(1,2) by (simp add: core_lines_def split_join_char)
qed

text \<open>The text is its core lines, each without the smallest indentation of those that are not blank.\<close>

definition least_indent :: "nat \<Rightarrow> string list \<Rightarrow> bool" where
  "least_indent k ls \<longleftrightarrow> (\<exists>l \<in> set ls. \<not> blank l \<and> indent l = k) \<and> (\<forall>l \<in> set ls. \<not> blank l \<longrightarrow> k \<le> indent l)"

lemma pad_least: "least_indent k ls \<Longrightarrow> foldl pad_step None ls = Some k"
  using pad_fold[of None ls] by (auto simp: least_indent_def split: option.splits intro: antisym)

lemma pad_exists: "\<exists>l \<in> set ls. \<not> blank l \<Longrightarrow> \<exists>k. foldl pad_step None ls = Some k \<and> least_indent k ls"
  using pad_fold[of None ls] by (auto simp: least_indent_def split: option.splits)

lemma trimLineBreaks_core: "trimLineBreaks s = join [newline] (core_lines s)"
  by (simp add: trimLineBreaks_def core_lines_def)

lemma betterTrim_core:
  "core_lines s = [] \<and> betterTrim s = [] \<or>
   (\<exists>k. core_lines s \<noteq> [] \<and> least_indent k (core_lines s) \<and> betterTrim s = join [newline] (map (drop k) (core_lines s)))"
proof (cases "core_lines s = []")
  case True
  then show ?thesis
    by (simp add: betterTrim_def trimLineBreaks_core split_def slice_pad_def pad_step_def)
next
  case False
  then have ls: "split (trimLineBreaks s) [newline] = core_lines s"
    using core_lines_free by (simp add: trimLineBreaks_core split_join_char)
  from False core_lines_ends(1) have "\<exists>l \<in> set (core_lines s). \<not> blank l" by (meson hd_in_set)
  from pad_exists[OF this] obtain k where k: "foldl pad_step None (core_lines s) = Some k" "least_indent k (core_lines s)" by blast
  then have "slice_pad (Some k) = drop k" by (auto simp: slice_pad_def)
  with False k show ?thesis by (auto simp: betterTrim_def ls)
qed

lemma trimmed_lines:
  assumes "least_indent k ls" and "\<not> blank (hd ls)" and "\<not> blank (last ls)" and "ls \<noteq> []"
  shows "least_indent 0 (map (drop k) ls)" "\<not> blank (hd (map (drop k) ls))" "\<not> blank (last (map (drop k) ls))"
proof -
  have keep: "\<not> blank (drop k l) \<and> indent (drop k l) = indent l - k" if "l \<in> set ls" "\<not> blank l" for l
    using that assms(1) by (intro blank_drop) (auto simp: least_indent_def)
  from assms(1) obtain l where "l \<in> set ls" "\<not> blank l" "indent l = k" by (auto simp: least_indent_def)
  with keep[of l] show "least_indent 0 (map (drop k) ls)" by (auto simp: least_indent_def)
  show "\<not> blank (hd (map (drop k) ls))" using keep[of "hd ls"] assms(2,4) by (simp add: hd_map)
  show "\<not> blank (last (map (drop k) ls))" using keep[of "last ls"] assms(3,4) by (simp add: last_map)
qed

lemma core_lines_join_Nil: "core_lines [] = []"
  by (simp add: core_lines_def split_def blank_def trim_def)

lemma betterTrim_stable: "betterTrim (betterTrim s) = betterTrim s"
  using betterTrim_core[of s]
proof (elim disjE exE conjE)
  assume "betterTrim s = []"
  then show ?thesis using betterTrim_core[of "[]"] by (simp add: core_lines_join_Nil)
next
  fix k
  assume ls: "core_lines s \<noteq> []" "least_indent k (core_lines s)" and eq: "betterTrim s = join [newline] (map (drop k) (core_lines s))"
  note t = trimmed_lines[OF ls(2) core_lines_ends[OF ls(1)] ls(1)]
  have "core_lines (betterTrim s) = map (drop k) (core_lines s)"
    unfolding eq using ls(1) t(2,3) core_lines_free by (intro core_lines_id) (auto dest: in_set_dropD)
  moreover from t(1) have "foldl pad_step None (map (drop k) (core_lines s)) = Some 0" by (rule pad_least)
  moreover have "split (join [newline] (map (drop k) (core_lines s))) [newline] = map (drop k) (core_lines s)"
    using ls(1) core_lines_free by (intro split_join_char) (auto dest: in_set_dropD)
  moreover have "slice_pad (Some 0) = id" by (auto simp: slice_pad_def)
  ultimately show ?thesis by (simp add: betterTrim_def[of "betterTrim s"] trimLineBreaks_core) (simp add: eq)
qed

section \<open>The properties\<close>

text \<open>
  C23: trimming a snippet takes away only the blank lines around the code and, from each remaining line, the
  indentation that its lines have in common: some line that is not blank keeps none of it, none has less, so no
  character that is not white space is lost. A snippet that is blank becomes the empty text.
\<close>

theorem betterTrim_spec:
  "\<exists>top ls bottom k.
     split s [newline] = top @ ls @ bottom \<and> list_all blank (top @ bottom) \<and>
     (if ls = [] then betterTrim s = [] else
        \<not> blank (hd ls) \<and> \<not> blank (last ls) \<and> least_indent k ls \<and>
        split (betterTrim s) [newline] = map (drop k) ls)"
proof -
  from core_lines_parts[of s] obtain top bottom where parts:
    "split s [newline] = top @ core_lines s @ bottom" "list_all blank (top @ bottom)" by blast
  show ?thesis
  proof (cases "core_lines s = []")
    case True
    then have "betterTrim s = []" using betterTrim_core[of s] by auto
    with parts True show ?thesis by (metis append_Nil)
  next
    case False
    with betterTrim_core[of s] obtain k where k: "least_indent k (core_lines s)"
      "betterTrim s = join [newline] (map (drop k) (core_lines s))" by auto
    have "split (betterTrim s) [newline] = map (drop k) (core_lines s)"
      unfolding k(2) using False core_lines_free by (intro split_join_char) (auto dest: in_set_dropD)
    with parts False k(1) core_lines_ends[OF False] show ?thesis 
      by (intro exI[of _ top] exI[of _ "core_lines s"] exI[of _ bottom] exI[of _ k]) simp
  qed
qed

text \<open>
  Trimming is idempotent, so a block whose text was trimmed before the plugin was started again, as it may
  be for several presentations on a page, keeps its text.
\<close>

lemma betterTrim_idempotent: "betterTrim (betterTrim s) = betterTrim s"
  by (rule betterTrim_stable)

end
