(* ===== verification/HighlightSteps.thy ===== *)
theory HighlightSteps
  imports Prelude
begin

text \<open>
  The line highlights of the slides' code plugin, \<^verbatim>\<open>src/slides/plugin/highlight/plugin.js\<close>: the format of
  the \<^verbatim>\<open>data-line-numbers\<close> attribute, the lines a block marks, and the fragments a block with several
  steps is split into. The format is lists in lists with two separators; a locale states what an item's
  format must satisfy for its list, and is interpreted once per level.
\<close>

section \<open>The format\<close>

text \<open>
  A highlight is \<^verbatim>\<open>{}\<close>, \<^verbatim>\<open>{start}\<close> or \<^verbatim>\<open>{start, end}\<close>; \<open>start\<close> may be \<^verbatim>\<open>NaN\<close> (\<open>None\<close>), \<open>end\<close> is dropped when it
  would be.
\<close>

datatype highlight = NoLines | Single "int option" | Range "int option" int

definition HIGHLIGHT_STEP_DELIMITER :: char where
  "HIGHLIGHT_STEP_DELIMITER = CHR ''|''"

definition HIGHLIGHT_LINE_DELIMITER :: char where
  "HIGHLIGHT_LINE_DELIMITER = CHR '',''"

definition HIGHLIGHT_LINE_RANGE_DELIMITER :: char where
  "HIGHLIGHT_LINE_RANGE_DELIMITER = CHR ''-''"

lemmas delimiter_defs = HIGHLIGHT_STEP_DELIMITER_def HIGHLIGHT_LINE_DELIMITER_def HIGHLIGHT_LINE_RANGE_DELIMITER_def

text \<open>\<^verbatim>\<open>/^[\d-]+$/.test(highlight)\<close>\<close>

definition line_numbers_text :: "string \<Rightarrow> bool" where
  "line_numbers_text s \<longleftrightarrow> s \<noteq> [] \<and> list_all (\<lambda>c. is_digit c \<or> c = CHR ''-'') s"

definition parse_highlight :: "string \<Rightarrow> highlight" where
  "parse_highlight h =
     (if line_numbers_text h then
        (let ps = split h [HIGHLIGHT_LINE_RANGE_DELIMITER];
             lineStart = parse_int (ps ! 0);
             lineEnd = (if 1 < length ps then parse_int (ps ! 1) else None)
         in case lineEnd of None \<Rightarrow> Single lineStart | Some e \<Rightarrow> Range lineStart e)
      else NoLines)"

definition deserializeHighlightSteps :: "string \<Rightarrow> highlight list list" where
  "deserializeHighlightSteps s =
     map (\<lambda>highlights. map parse_highlight (split highlights [HIGHLIGHT_LINE_DELIMITER]))
       (split (filter (\<lambda>c. \<not> is_space c) s) [HIGHLIGHT_STEP_DELIMITER])"

fun print_number :: "int option \<Rightarrow> string" where
  "print_number None = ''NaN''"
| "print_number (Some n) = int_to_string n"

fun print_highlight :: "highlight \<Rightarrow> string" where
  "print_highlight (Range s e) = print_number s @ [HIGHLIGHT_LINE_RANGE_DELIMITER] @ int_to_string e"
| "print_highlight (Single s) = print_number s"
| "print_highlight NoLines = ''''"

definition serializeHighlightSteps :: "highlight list list \<Rightarrow> string" where
  "serializeHighlightSteps groups =
     join [HIGHLIGHT_STEP_DELIMITER] (map (\<lambda>hs. join [HIGHLIGHT_LINE_DELIMITER] (map print_highlight hs)) groups)"

section \<open>Lists with a separator\<close>

locale item_codec =
  fixes enc :: "'a \<Rightarrow> string"
    and dec :: "string \<Rightarrow> 'a"
    and ok :: "'a \<Rightarrow> bool"
    and sep :: char
  assumes dec_enc: "ok x \<Longrightarrow> dec (enc x) = x"
    and enc_free: "ok x \<Longrightarrow> sep \<notin> set (enc x)"
begin

lemma dec_enc_list:
  assumes "xs \<noteq> []" and "\<forall>x \<in> set xs. ok x"
  shows "map dec (split (join [sep] (map enc xs)) [sep]) = xs"
proof -
  have "split (join [sep] (map enc xs)) [sep] = map enc xs"
    using assms enc_free by (intro split_join_char) auto
  moreover have "map (dec \<circ> enc) xs = xs" using assms(2) dec_enc by (intro map_idI) simp
  ultimately show ?thesis by simp
qed

end

lemma join_free: "d \<noteq> c \<Longrightarrow> \<forall>x \<in> set xs. d \<notin> set x \<Longrightarrow> d \<notin> set (join [c] xs)"
  by (induction "[c]" xs rule: join.induct) auto

fun wf_highlight :: "highlight \<Rightarrow> bool" where
  "wf_highlight NoLines = True"
| "wf_highlight (Single (Some n)) = (0 \<le> n)"
| "wf_highlight (Range (Some n) m) = (0 \<le> n \<and> 0 \<le> m)"
| "wf_highlight _ = False"

lemma int_to_string_nat: "0 \<le> n \<Longrightarrow> int_to_string n = nat_to_string (nat n)"
  by (simp add: int_to_string_def)

lemma dash_not_digit: "CHR ''-'' \<notin> set (nat_to_string n)" "CHR '','' \<notin> set (nat_to_string n)"
  "CHR ''|'' \<notin> set (nat_to_string n)"
  using nat_to_string_digits by (fastforce simp: js_defs)+

lemma parse_print_highlight: "wf_highlight h \<Longrightarrow> parse_highlight (print_highlight h) = h"
proof (induction h rule: wf_highlight.induct)
  case (2 n)
  then have "line_numbers_text (nat_to_string (nat n))"
    using nat_to_string_digits by (auto simp: line_numbers_text_def list_all_iff)
  with 2 show ?case
    by (simp add: parse_highlight_def int_to_string_nat split_def split_char_none dash_not_digit delimiter_defs)
next
  case (3 n m)
  then have "line_numbers_text (nat_to_string (nat n) @ CHR ''-'' # nat_to_string (nat m))"
    using nat_to_string_digits by (auto simp: line_numbers_text_def list_all_iff)
  with 3 show ?case
    by (simp add: parse_highlight_def int_to_string_nat split_def split_char_append split_char_none dash_not_digit delimiter_defs)
qed (simp_all add: parse_highlight_def line_numbers_text_def)

lemma print_highlight_chars:
  "wf_highlight h \<Longrightarrow> \<forall>c \<in> set (print_highlight h). is_digit c \<or> c = CHR ''-''"
  using nat_to_string_digits by (induction h rule: wf_highlight.induct) (auto simp: int_to_string_nat delimiter_defs)

interpretation line_codec: item_codec print_highlight parse_highlight wf_highlight HIGHLIGHT_LINE_DELIMITER
proof
  fix h assume "wf_highlight h"
  then show "HIGHLIGHT_LINE_DELIMITER \<notin> set (print_highlight h)"
    using print_highlight_chars[of h] by (auto simp: delimiter_defs js_defs)
qed (rule parse_print_highlight)

abbreviation wf_step :: "highlight list \<Rightarrow> bool" where
  "wf_step hs \<equiv> hs \<noteq> [] \<and> (\<forall>h \<in> set hs. wf_highlight h)"

interpretation step_codec: item_codec "\<lambda>hs. join [HIGHLIGHT_LINE_DELIMITER] (map print_highlight hs)"
  "\<lambda>s. map parse_highlight (split s [HIGHLIGHT_LINE_DELIMITER])" wf_step HIGHLIGHT_STEP_DELIMITER
proof
  fix hs assume hs: "wf_step hs"
  then show "map parse_highlight (split (join [HIGHLIGHT_LINE_DELIMITER] (map print_highlight hs)) [HIGHLIGHT_LINE_DELIMITER]) = hs"
    by (intro line_codec.dec_enc_list) auto
  have "CHR ''|'' \<notin> set (print_highlight h)" if "h \<in> set hs" for h
    using hs that print_highlight_chars[of h] by (auto simp: js_defs)
  then show "HIGHLIGHT_STEP_DELIMITER \<notin> set (join [HIGHLIGHT_LINE_DELIMITER] (map print_highlight hs))"
    unfolding delimiter_defs by (intro join_free) auto
qed

lemma join_chars: "x \<in> set (join [c] xs) \<Longrightarrow> x = c \<or> (\<exists>y \<in> set xs. x \<in> set y)"
  by (induction "[c]" xs rule: join.induct) auto

lemma serialized_char:
  assumes "\<forall>hs \<in> set groups. wf_step hs" and "c \<in> set (serializeHighlightSteps groups)"
  shows "is_digit c \<or> c \<in> {CHR ''|'', CHR '','', CHR ''-''}"
proof -
  from join_chars[OF assms(2)[unfolded serializeHighlightSteps_def]]
  consider "c = CHR ''|''" | hs where "hs \<in> set groups" "c \<in> set (join [HIGHLIGHT_LINE_DELIMITER] (map print_highlight hs))"
    by (auto simp: delimiter_defs)
  then show ?thesis
  proof cases
    case 2
    from join_chars[OF 2(2)] consider "c = CHR '',''" | h where "h \<in> set hs" "c \<in> set (print_highlight h)"
      by (auto simp: delimiter_defs)
    then show ?thesis using 2(1) assms(1) print_highlight_chars by cases auto
  qed simp
qed

lemma serialized_no_space:
  assumes "\<forall>hs \<in> set groups. wf_step hs"
  shows "filter (\<lambda>c. \<not> is_space c) (serializeHighlightSteps groups) = serializeHighlightSteps groups"
proof -
  have "\<not> is_space c" if "c \<in> set (serializeHighlightSteps groups)" for c
    using serialized_char[OF assms that] digit_facts[of c] by (auto simp: js_defs)
  then show ?thesis by (simp add: filter_id_conv)
qed

lemma deserialize_serialize:
  assumes "groups \<noteq> []" and "\<forall>hs \<in> set groups. wf_step hs"
  shows "deserializeHighlightSteps (serializeHighlightSteps groups) = groups"
  using step_codec.dec_enc_list[OF assms]
  by (simp add: deserializeHighlightSteps_def serialized_no_space[OF assms(2)]) (simp add: serializeHighlightSteps_def)

section \<open>The lines a block marks\<close>

text \<open>
  The table rows, counted from one, that the selector of a highlight finds among \<open>n\<close>; a \<^verbatim>\<open>NaN\<close> in it is
  not a selector, and the query throws (\<open>None\<close>).
\<close>

fun selected_rows :: "nat \<Rightarrow> highlight \<Rightarrow> nat list option" where
  "selected_rows n NoLines = Some []"
| "selected_rows n (Single None) = None"
| "selected_rows n (Single (Some k)) = Some (filter (\<lambda>i. int i = k) [1..<Suc n])"
| "selected_rows n (Range None b) = None"
| "selected_rows n (Range (Some a) b) = Some (filter (\<lambda>i. a \<le> int i \<and> int i \<le> b) [1..<Suc n])"

fun mark_rows :: "nat \<Rightarrow> highlight list \<Rightarrow> nat list \<Rightarrow> nat list option" where
  "mark_rows n [] marked = Some marked"
| "mark_rows n (h # hs) marked =
     (case selected_rows n h of None \<Rightarrow> None | Some rows \<Rightarrow> mark_rows n hs (marked @ rows))"

definition highlightLines :: "nat \<Rightarrow> string \<Rightarrow> string \<Rightarrow> nat list option" where
  "highlightLines n attribute linesToHighlight =
     (let groups = deserializeHighlightSteps (if linesToHighlight = [] then attribute else linesToHighlight)
      in if groups = [] then Some [] else mark_rows n (hd groups) [])"

section \<open>Fragments\<close>

record code_block =
  step_attribute :: string
  fragment_index :: "int option"
  is_fragment :: bool
  marked_rows :: "nat list"

definition make_block :: "nat \<Rightarrow> string \<Rightarrow> int option \<Rightarrow> bool \<Rightarrow> code_block option" where
  "make_block n attribute index fragment =
     (case highlightLines n attribute '''' of
        None \<Rightarrow> None
      | Some rows \<Rightarrow> Some \<lparr>step_attribute = attribute, fragment_index = index, is_fragment = fragment, marked_rows = rows\<rparr>)"

text \<open>The \<^verbatim>\<open>forEach\<close> over the steps after the first; the index counts up when there is one.\<close>

fun fragment_blocks :: "nat \<Rightarrow> int option \<Rightarrow> highlight list list \<Rightarrow> code_block list option" where
  "fragment_blocks n index [] = Some []"
| "fragment_blocks n index (highlight # rest) =
     (case make_block n (serializeHighlightSteps [highlight]) index True of
        None \<Rightarrow> None
      | Some b \<Rightarrow> (case fragment_blocks n (map_option (\<lambda>i. i + 1) index) rest of
          None \<Rightarrow> None | Some bs \<Rightarrow> Some (b # bs)))"

text \<open>
  \<^verbatim>\<open>highlightBlock\<close> on a block of \<open>n\<close> lines with its attributes: the block itself, then its fragments. A
  block that is blank or has no line numbers is left as it is.
\<close>

definition highlightBlock :: "nat \<Rightarrow> string \<Rightarrow> string option \<Rightarrow> string option \<Rightarrow> code_block list option" where
  "highlightBlock n inner attribute index_attribute =
     (case attribute of
        None \<Rightarrow> Some []
      | Some lines \<Rightarrow>
        if length (trim inner) = 0 then Some []
        else
          (let index = (case index_attribute of None \<Rightarrow> None | Some i \<Rightarrow> parse_int i);
               groups = deserializeHighlightSteps lines
           in if length groups > 1
              then (case fragment_blocks n index (tl groups) of
                      None \<Rightarrow> None
                    | Some bs \<Rightarrow>
                        (case make_block n (serializeHighlightSteps [hd groups]) None False of
                           None \<Rightarrow> None | Some b \<Rightarrow> Some (b # bs)))
              else map_option (\<lambda>b. [b]) (make_block n lines index False)))"

lemma selected_rows_wf:
  "wf_highlight h \<Longrightarrow> \<exists>rows. selected_rows n h = Some rows"
  by (induction h rule: wf_highlight.induct) auto

fun covers :: "highlight \<Rightarrow> nat \<Rightarrow> bool" where
  "covers NoLines i = False"
| "covers (Single s) i = (s = Some (int i))"
| "covers (Range s e) i = (\<exists>a. s = Some a \<and> a \<le> int i \<and> int i \<le> e)"

lemma mark_rows_wf:
  "\<forall>h \<in> set hs. wf_highlight h \<Longrightarrow>
     \<exists>rows. mark_rows n hs acc = Some rows \<and>
       set rows = set acc \<union> {i. 1 \<le> i \<and> i \<le> n \<and> (\<exists>h \<in> set hs. covers h i)}"
proof (induction hs arbitrary: acc)
  case (Cons h hs)
  then have h: "wf_highlight h" by simp
  have "\<exists>rows. selected_rows n h = Some rows \<and> set rows = {i. 1 \<le> i \<and> i \<le> n \<and> covers h i}"
    using h by (induction h rule: wf_highlight.induct) auto
  then obtain rows where rows: "selected_rows n h = Some rows" "set rows = {i. 1 \<le> i \<and> i \<le> n \<and> covers h i}" by blast
  from Cons.IH[of "acc @ rows"] Cons.prems obtain rows' where
    "mark_rows n hs (acc @ rows) = Some rows'"
    "set rows' = set (acc @ rows) \<union> {i. 1 \<le> i \<and> i \<le> n \<and> (\<exists>h \<in> set hs. covers h i)}" by auto
  with rows show ?case by auto
qed simp

definition block_shows :: "nat \<Rightarrow> highlight list \<Rightarrow> code_block \<Rightarrow> bool" where
  "block_shows n hs b \<longleftrightarrow>
     deserializeHighlightSteps (step_attribute b) = [hs] \<and>
     set (marked_rows b) = {i. 1 \<le> i \<and> i \<le> n \<and> (\<exists>h \<in> set hs. covers h i)}"

lemma make_block_shows:
  assumes "deserializeHighlightSteps attribute = [hs]" and "\<forall>h \<in> set hs. wf_highlight h"
  shows "\<exists>b. make_block n attribute index fragment = Some b \<and> block_shows n hs b \<and>
     fragment_index b = index \<and> is_fragment b = fragment"
proof -
  obtain rows where "mark_rows n hs [] = Some rows"
    "set rows = set [] \<union> {i. 1 \<le> i \<and> i \<le> n \<and> (\<exists>h \<in> set hs. covers h i)}"
    using mark_rows_wf[OF assms(2)] by blast
  then show ?thesis by (simp add: make_block_def highlightLines_def assms(1) block_shows_def)
qed

lemma fragment_blocks_shows:
  "\<forall>hs \<in> set groups. wf_step hs \<Longrightarrow>
     \<exists>bs. fragment_blocks n index groups = Some bs \<and> list_all2 (block_shows n) groups bs \<and>
       list_all is_fragment bs \<and>
       map fragment_index bs = map (\<lambda>i. map_option (\<lambda>k. k + int i) index) [0..<length groups]"
proof (induction groups arbitrary: index)
  case (Cons hs groups)
  then have "deserializeHighlightSteps (serializeHighlightSteps [hs]) = [hs]"
    by (intro deserialize_serialize) auto
  from make_block_shows[OF this, of n index True] Cons.prems obtain b where b:
    "make_block n (serializeHighlightSteps [hs]) index True = Some b" "block_shows n hs b"
    "fragment_index b = index" "is_fragment b" by auto
  from Cons.IH[of "map_option (\<lambda>i. i + 1) index"] Cons.prems obtain bs where bs:
    "fragment_blocks n (map_option (\<lambda>i. i + 1) index) groups = Some bs" "list_all2 (block_shows n) groups bs"
    "list_all is_fragment bs"
    "map fragment_index bs = map (\<lambda>i. map_option (\<lambda>k. k + int i) (map_option (\<lambda>i. i + 1) index)) [0..<length groups]" by auto
  have "map (\<lambda>i. map_option (\<lambda>k. k + int i) index) [0..<Suc (length groups)] =
      map_option (\<lambda>k. k) index # map (\<lambda>i. map_option (\<lambda>k. k + int i) (map_option (\<lambda>i. i + 1) index)) [0..<length groups]"
    by (simp add: upt_conv_Cons map_Suc_upt[symmetric] option.map_comp comp_def add.commute add.left_commute del: upt_Suc)
  with b bs show ?case by (simp add: option.map_ident)
qed simp

text \<open>
  A serialised list of highlight steps reads back as itself, so the step a fragment stores in its
  attribute is the step it was made for. Both separators and the range sign are kept apart by the
  format.
\<close>

lemma highlight_steps_roundtrip:
  assumes "groups \<noteq> []" and "\<forall>hs \<in> set groups. wf_step hs"
  shows "deserializeHighlightSteps (serializeHighlightSteps groups) = groups"
  using assms by (rule deserialize_serialize)

lemma highlight_steps_roundtrip_example:
  "deserializeHighlightSteps (serializeHighlightSteps [[Single (Some 1), Single (Some 2)], [Range (Some 5) 10], [NoLines]])
     = [[Single (Some 1), Single (Some 2)], [Range (Some 5) 10], [NoLines]]"
  by (rule highlight_steps_roundtrip) auto

text \<open>
  C22: a block whose attribute asks for several steps becomes that many blocks: the block itself for the first
  step and one fragment for each other, in order, each marking exactly the existing lines of its own step, with
  fragment indices counting up from the block's index when it had one.
\<close>

theorem highlightBlock_steps:
  assumes "deserializeHighlightSteps lines = g # gs" and "gs \<noteq> []" and "\<forall>hs \<in> set (g # gs). wf_step hs"
    and "trim inner \<noteq> []"
  shows "\<exists>b bs. highlightBlock n inner (Some lines) index_attribute = Some (b # bs) \<and>
     list_all2 (block_shows n) (g # gs) (b # bs) \<and> \<not> is_fragment b \<and> list_all is_fragment bs \<and>
     map fragment_index bs =
       map (\<lambda>i. map_option (\<lambda>k. k + int i) (case index_attribute of None \<Rightarrow> None | Some a \<Rightarrow> parse_int a)) [0..<length gs]"
proof -
  have "deserializeHighlightSteps (serializeHighlightSteps [g]) = [g]"
    using assms(3) by (intro deserialize_serialize) auto
  from make_block_shows[OF this, of n None False] assms(3) obtain b where
    "make_block n (serializeHighlightSteps [g]) None False = Some b" "block_shows n g b" "\<not> is_fragment b" by auto
  moreover from assms(3) have "\<forall>hs \<in> set gs. wf_step hs" by simp
  from fragment_blocks_shows[OF this, of n "case index_attribute of None \<Rightarrow> None | Some a \<Rightarrow> parse_int a"] obtain bs where
    "fragment_blocks n (case index_attribute of None \<Rightarrow> None | Some a \<Rightarrow> parse_int a) gs = Some bs"
    "list_all2 (block_shows n) gs bs" "list_all is_fragment bs"
    "map fragment_index bs = map (\<lambda>i. map_option (\<lambda>k. k + int i) (case index_attribute of None \<Rightarrow> None | Some a \<Rightarrow> parse_int a)) [0..<length gs]"
    by blast
  moreover have "length (deserializeHighlightSteps lines) > 1" using assms(1,2) by (cases gs) auto
  ultimately show ?thesis using assms(1,4) by (simp add: highlightBlock_def Let_def)
qed

theorem highlightBlock_steps_witness:
  "\<exists>b bs. highlightBlock 4 ''x'' (Some ''1|3-9'') (Some ''7'') = Some (b # bs) \<and> map fragment_index bs = [Some 7] \<and>
     list_all2 (block_shows 4) [[Single (Some 1)], [Range (Some 3) 9]] (b # bs)"
proof -
  have "deserializeHighlightSteps ''1|3-9'' = [[Single (Some 1)], [Range (Some 3) 9]]" by code_simp
  moreover have "trim ''x'' \<noteq> []" "parse_int ''7'' = Some 7" by code_simp+
  ultimately show ?thesis
    using highlightBlock_steps[of "''1|3-9''" "[Single (Some 1)]" "[[Range (Some 3) 9]]" "''x''" 4 "Some ''7''"]
    by fastforce
qed

end
