(* ===== verification/HighlightScroll.thy ===== *)
theory HighlightScroll
  imports Complex_Main Prelude
begin

text \<open>
  How the slides' code plugin scrolls the highlighted lines of a block into view
  (\<^verbatim>\<open>src/slides/plugin/highlight/plugin.js\<close>, \<^verbatim>\<open>scrollHighlightedLineIntoView\<close>): the scroll target, the easing,
  and the animation, whose frames belong to the blocks of one group of fragments. Numbers are exact rationals.
\<close>

section \<open>The target\<close>

text \<open>
  What the browser reports of a block when the function runs. A computed padding is a length in pixels, printed as
  \<^verbatim>\<open>12.5px\<close>, of which \<^verbatim>\<open>parseInt\<close> keeps the whole part. The highlighted lines come with their offset and height,
  in the order of the document.
\<close>

record layout =
  offsetHeight :: int
  scrollHeight :: int
  paddingTop :: rat
  paddingBottom :: rat
  line_table :: "int option"
  highlightedLines :: "(int \<times> int) list"

definition parse_px :: "rat \<Rightarrow> int" where
  "parse_px p = \<lfloor>p\<rfloor>"

definition getHighlightedLineBounds :: "layout \<Rightarrow> int \<times> int" where
  "getHighlightedLineBounds l =
     (case highlightedLines l of
        [] \<Rightarrow> (0, 0)
      | hs \<Rightarrow> (fst (hd hs), fst (last hs) + snd (last hs)))"

definition viewportHeight :: "layout \<Rightarrow> int" where
  "viewportHeight l = offsetHeight l - (parse_px (paddingTop l) + parse_px (paddingBottom l))"

definition table_offset :: "layout \<Rightarrow> int" where
  "table_offset l = (case line_table l of None \<Rightarrow> 0 | Some y \<Rightarrow> y - parse_px (paddingTop l))"

definition target_top :: "layout \<Rightarrow> rat" where
  "target_top l =
     (let (y0, y1) = getHighlightedLineBounds l;
          view = viewportHeight l;
          centred = of_int y0 + of_int (min (y1 - y0) view - view) / 2;
          y = centred + of_int (table_offset l)
      in max (min y (of_int (scrollHeight l - view))) 0)"

definition easeInOutQuart :: "rat \<Rightarrow> rat" where
  "easeInOutQuart t = (if t < 1 / 2 then 8 * t * t * t * t else 1 - 8 * (t - 1) * (t - 1) * (t - 1) * (t - 1))"

section \<open>The animation\<close>

text \<open>
  The closure \<^verbatim>\<open>animate\<close> with its variables, and the \<^verbatim>\<open>scrollState\<close> that the blocks of a group share, together with
  the scroll positions of the blocks and the frames that were requested of the browser.
\<close>

record animation =
  animated :: nat
  time :: rat
  startTop :: rat
  targetTop :: rat

record scroller =
  scrollTop :: "nat \<Rightarrow> rat"
  currentBlock :: "nat option"
  animationFrameID :: "nat option"
  requested :: "nat \<Rightarrow> animation option"
  next_frame :: nat

definition scroller_init :: "nat option \<Rightarrow> (nat \<Rightarrow> rat) \<Rightarrow> scroller" where
  "scroller_init block tops =
     \<lparr>scrollTop = tops, currentBlock = block, animationFrameID = None, requested = Map.empty, next_frame = 1\<rparr>"

definition cancelAnimationFrame :: "nat option \<Rightarrow> scroller \<Rightarrow> scroller" where
  "cancelAnimationFrame i s = (case i of None \<Rightarrow> s | Some k \<Rightarrow> s\<lparr>requested := (requested s)(k := None)\<rparr>)"

definition requestAnimationFrame :: "animation \<Rightarrow> scroller \<Rightarrow> nat \<times> scroller" where
  "requestAnimationFrame a s =
     (next_frame s, s\<lparr>requested := (requested s)(next_frame s \<mapsto> a), next_frame := next_frame s + 1\<rparr>)"

text \<open>
  The parameter \<open>put\<close> is the browser's part in an assignment to \<^verbatim>\<open>scrollTop\<close>: the value it then has, rounded and
  within the block's range.
\<close>

definition set_scrollTop :: "(nat \<Rightarrow> rat \<Rightarrow> rat) \<Rightarrow> nat \<Rightarrow> rat \<Rightarrow> scroller \<Rightarrow> scroller" where
  "set_scrollTop put b y s = s\<lparr>scrollTop := (scrollTop s)(b := put b y)\<rparr>"

definition eased :: "animation \<Rightarrow> rat \<Rightarrow> rat" where
  "eased a t = startTop a + (targetTop a - startTop a) * easeInOutQuart t"

definition animate :: "(nat \<Rightarrow> rat \<Rightarrow> rat) \<Rightarrow> animation \<Rightarrow> scroller \<Rightarrow> scroller" where
  "animate put a s =
     (let t = min (time a + 1 / 50) 1;
          s1 = set_scrollTop put (animated a) (eased a t) s
      in if t < 1 then
           (let (i, s2) = requestAnimationFrame (a\<lparr>time := t\<rparr>) s1 in s2\<lparr>animationFrameID := Some i\<rparr>)
         else s1)"

definition scrollHighlightedLineIntoView ::
    "(nat \<Rightarrow> rat \<Rightarrow> rat) \<Rightarrow> nat \<Rightarrow> layout \<Rightarrow> bool \<Rightarrow> scroller \<Rightarrow> scroller" where
  "scrollHighlightedLineIntoView put block l skipAnimation s =
     (let s1 = cancelAnimationFrame (animationFrameID s) s;
          s2 = (case currentBlock s1 of None \<Rightarrow> s1 | Some c \<Rightarrow> set_scrollTop put block (scrollTop s1 c) s1);
          s3 = s2\<lparr>currentBlock := Some block\<rparr>;
          start = scrollTop s3 block;
          target = target_top l
      in if skipAnimation \<or> start = target then set_scrollTop put block target s3
         else if scrollHeight l \<le> viewportHeight l then s3
         else animate put \<lparr>animated = block, time = 0, startTop = start, targetTop = target\<rparr> s3)"

text \<open>A block of the group is shown or hidden, a requested frame comes, or the user scrolls.\<close>

datatype view_event = Reveal nat layout bool | Frame nat | Wheel nat rat

inductive view_step :: "(nat \<Rightarrow> rat \<Rightarrow> rat) \<Rightarrow> scroller \<Rightarrow> view_event \<Rightarrow> scroller \<Rightarrow> bool"
  for put :: "nat \<Rightarrow> rat \<Rightarrow> rat" where
  reveal: "view_step put s (Reveal b l skip) (scrollHighlightedLineIntoView put b l skip s)"
| frame: "requested s i = Some a \<Longrightarrow>
    view_step put s (Frame i) (animate put a (s\<lparr>requested := (requested s)(i := None)\<rparr>))"
| wheel: "view_step put s (Wheel b y) (set_scrollTop put b y s)"

inductive_simps view_step_iff:
  "view_step put s (Reveal b l skip) t" "view_step put s (Frame i) t" "view_step put s (Wheel b y) t"

section \<open>Easing\<close>

lemma pow4: "(x :: rat) * x * x * x = (x * x) * (x * x)"
  by (simp add: algebra_simps)

lemma ease_0 [simp]: "easeInOutQuart 0 = 0"
  by (simp add: easeInOutQuart_def)

lemma ease_1 [simp]: "easeInOutQuart 1 = 1"
  by (simp add: easeInOutQuart_def)

lemma pow4_small:
  assumes "\<bar>x\<bar> \<le> (1 / 2 :: rat)"
  shows "0 \<le> 8 * x * x * x * x" "8 * x * x * x * x \<le> 1 / 2"
proof -
  have eq: "8 * x * x * x * x = 8 * ((x * x) * (x * x))" by (simp add: algebra_simps)
  have "\<bar>x\<bar> * \<bar>x\<bar> \<le> 1 / 2 * (1 / 2)" using assms by (intro mult_mono) auto
  then have "x * x \<le> 1 / 4" by (simp add: abs_mult[symmetric])
  moreover have "0 \<le> x * x" by simp
  ultimately have "(x * x) * (x * x) \<le> 1 / 4 * (1 / 4)" by (intro mult_mono) auto
  then show "8 * x * x * x * x \<le> 1 / 2" unfolding eq by simp
  show "0 \<le> 8 * x * x * x * x" unfolding eq by simp
qed

lemma ease_range: "0 \<le> t \<Longrightarrow> t \<le> 1 \<Longrightarrow> 0 \<le> easeInOutQuart t \<and> easeInOutQuart t \<le> 1"
  using pow4_small[of t] pow4_small[of "t - 1"] by (auto simp: easeInOutQuart_def)

definition between :: "rat \<Rightarrow> rat \<Rightarrow> rat \<Rightarrow> bool" where
  "between x y z \<longleftrightarrow> min x y \<le> z \<and> z \<le> max x y"

lemma between_convex:
  assumes "0 \<le> e" and "e \<le> 1"
  shows "between x y (x + (y - x) * e)"
proof -
  obtain p where p: "p = (y - x) * e" by simp
  have "0 \<le> p \<and> p \<le> y - x" if "x \<le> y"
    using that assms mult_left_mono[of e 1 "y - x"] by (simp add: p)
  moreover have "p \<le> 0 \<and> y - x \<le> p" if "y \<le> x"
    using that assms mult_left_mono_neg[of e 1 "y - x"] mult_nonpos_nonneg[of "y - x" e] by (simp only: p mult_1_right)
  ultimately show ?thesis unfolding p[symmetric] by (cases "x \<le> y") (simp_all add: between_def)
qed

lemma eased_between: "0 \<le> t \<Longrightarrow> t \<le> 1 \<Longrightarrow> between (startTop a) (targetTop a) (eased a t)"
  using ease_range between_convex by (simp add: eased_def)

lemma eased_end [simp]: "eased a 1 = targetTop a"
  by (simp add: eased_def)

section \<open>One animation at a time\<close>

definition frame_time :: "nat \<Rightarrow> animation \<Rightarrow> bool" where
  "frame_time k a \<longleftrightarrow> time a = of_nat k / 50 \<and> k < 50"

lemma animate_frame:
  fixes put :: "nat \<Rightarrow> rat \<Rightarrow> rat"
  assumes "frame_time k a" and "requested s = Map.empty"
  defines "s' \<equiv> animate put a s" and "a' \<equiv> a\<lparr>time := of_nat (Suc k) / 50\<rparr>"
  shows "scrollTop s' = (scrollTop s)(animated a := put (animated a) (eased a (of_nat (Suc k) / 50)))"
    and "currentBlock s' = currentBlock s"
    and "Suc k < 50 \<Longrightarrow> requested s' = [next_frame s \<mapsto> a'] \<and> animationFrameID s' = Some (next_frame s) \<and> frame_time (Suc k) a'"
    and "Suc k = 50 \<Longrightarrow> requested s' = Map.empty"
proof -
  from assms(1) have t: "time a + 1 / 50 = of_nat (Suc k) / 50" and k: "k < 50"
    by (simp_all add: frame_time_def field_simps)
  then have m: "min (time a + 1 / 50) 1 = of_nat (Suc k) / 50" by simp
  note d = s'_def animate_def m Let_def set_scrollTop_def requestAnimationFrame_def
  show "scrollTop s' = (scrollTop s)(animated a := put (animated a) (eased a (of_nat (Suc k) / 50)))"
    and "currentBlock s' = currentBlock s" unfolding d by simp_all
  show "requested s' = [next_frame s \<mapsto> a'] \<and> animationFrameID s' = Some (next_frame s) \<and> frame_time (Suc k) a'" if "Suc k < 50"
    using that assms(2) unfolding d a'_def frame_time_def by simp
  show "requested s' = Map.empty" if "Suc k = 50"
  proof -
    from that have "of_nat (Suc k) / 50 = (1 :: rat)" by simp
    with assms(2) show ?thesis unfolding d by simp
  qed
qed

definition animating :: "nat \<Rightarrow> animation \<Rightarrow> nat \<Rightarrow> scroller \<Rightarrow> bool" where
  "animating i a k s \<longleftrightarrow>
     requested s = [i \<mapsto> a] \<and> animationFrameID s = Some i \<and> currentBlock s = Some (animated a) \<and> frame_time k a"

definition scroller_inv :: "scroller \<Rightarrow> bool" where
  "scroller_inv s \<longleftrightarrow> requested s = Map.empty \<or> (\<exists>i a k. animating i a k s \<and> 0 < k \<and> 0 \<le> targetTop a)"

lemma animate_inv:
  assumes "frame_time k a" and "requested s = Map.empty" and "currentBlock s = Some (animated a)" and "0 \<le> targetTop a"
  shows "scroller_inv (animate put a s)"
proof (cases "Suc k < 50")
  case True
  with animate_frame(2,3)[where put = put, OF assms(1,2)] assms(3,4) show ?thesis
    unfolding scroller_inv_def animating_def by fastforce
next
  case False
  with assms(1) have "Suc k = 50" by (simp add: frame_time_def)
  with animate_frame(4)[where put = put, OF assms(1,2)] show ?thesis by (simp add: scroller_inv_def)
qed

lemma cancel_pending: "scroller_inv s \<Longrightarrow> requested (cancelAnimationFrame (animationFrameID s) s) = Map.empty"
  by (auto simp: scroller_inv_def animating_def cancelAnimationFrame_def split: option.splits)

lemma target_top_nonneg: "0 \<le> target_top l"
  by (simp add: target_top_def Let_def case_prod_beta)

lemma scroller_inv_step: "view_step put s e t \<Longrightarrow> scroller_inv s \<Longrightarrow> scroller_inv t"
proof (induction rule: view_step.induct)
  case (reveal s b l skip)
  let ?s1 = "cancelAnimationFrame (animationFrameID s) s"
  let ?s2 = "case currentBlock ?s1 of None \<Rightarrow> ?s1 | Some c \<Rightarrow> set_scrollTop put b (scrollTop ?s1 c) ?s1"
  from cancel_pending[OF reveal] have "requested (?s2\<lparr>currentBlock := Some b\<rparr>) = Map.empty"
    by (simp add: set_scrollTop_def split: option.splits)
  moreover from this have "scroller_inv (animate put \<lparr>animated = b, time = 0, startTop = y, targetTop = target_top l\<rparr> (?s2\<lparr>currentBlock := Some b\<rparr>))" for y
    by (intro animate_inv[where k = 0]) (simp_all add: frame_time_def target_top_nonneg)
  ultimately show ?case
    by (simp add: scrollHighlightedLineIntoView_def Let_def) (simp add: scroller_inv_def set_scrollTop_def)
next
  case (frame s i a)
  then obtain k where k: "animating i a k s" "0 \<le> targetTop a"
    by (auto simp: scroller_inv_def animating_def split: if_splits)
  then show ?case
    by (intro animate_inv[where k = k]) (simp_all add: animating_def)
next
  case (wheel s b y)
  then show ?case by (simp add: scroller_inv_def animating_def set_scrollTop_def)
qed

interpretation scroller_machine: invariant_machine "view_step put" "scroller_init block tops" scroller_inv
  for put block tops
  by unfold_locales (simp add: scroller_init_def scroller_inv_def, rule scroller_inv_step)

section \<open>The frames of an animation\<close>

text \<open>After its frame \<open>k\<close>, only the next frame can come, and the animation ends with frame 50.\<close>

definition scrolled :: "(nat \<Rightarrow> rat \<Rightarrow> rat) \<Rightarrow> animation \<Rightarrow> rat \<Rightarrow> (nat \<Rightarrow> rat) \<Rightarrow> nat \<Rightarrow> rat" where
  "scrolled put a y tops = tops(animated a := put (animated a) y)"

lemma scrolled_twice [simp]: "scrolled put a y (scrolled put a z tops) = scrolled put a y tops"
  by (simp add: scrolled_def)

lemma eased_in: "frame_time k a \<Longrightarrow> between (startTop a) (targetTop a) (eased a (of_nat (Suc k) / 50))"
  by (intro eased_between) (auto simp: frame_time_def field_simps)

lemma frame_result:
  assumes "animating i a k s" and "view_step put s (Frame j) t"
  shows "scrollTop t = scrolled put a (eased a (of_nat (Suc k) / 50)) (scrollTop s)"
    and "Suc k = 50 \<Longrightarrow> requested t = Map.empty"
    and "Suc k < 50 \<Longrightarrow> \<exists>i' a'. animating i' a' (Suc k) t \<and> animated a' = animated a \<and> startTop a' = startTop a \<and> targetTop a' = targetTop a"
proof -
  from assms have t: "t = animate put a (s\<lparr>requested := Map.empty\<rparr>)"
    by (auto simp: view_step_iff animating_def split: if_splits)
  from assms(1) have a: "frame_time k a" "currentBlock s = Some (animated a)" by (simp_all add: animating_def)
  note f = animate_frame[where put = put and s = "s\<lparr>requested := Map.empty\<rparr>", OF a(1), simplified, folded t]
  from f(1) show "scrollTop t = scrolled put a (eased a (of_nat (Suc k) / 50)) (scrollTop s)" by (simp add: scrolled_def)
  from f(4) show "Suc k = 50 \<Longrightarrow> requested t = Map.empty" by simp
  show "\<exists>i' a'. animating i' a' (Suc k) t \<and> animated a' = animated a \<and> startTop a' = startTop a \<and> targetTop a' = targetTop a" if "Suc k < 50"
    using f(2,3) that a(2)
    by (intro exI[of _ "next_frame s"] exI[of _ "a\<lparr>time := of_nat (Suc k) / 50\<rparr>"]) (simp add: animating_def)
qed

lemma no_frame: "requested s = Map.empty \<Longrightarrow> steps (view_step put) s (map Frame is) t \<Longrightarrow> is = [] \<and> t = s"
  by (cases "is") (auto simp: steps_Cons_iff view_step_iff)

lemma frames_run:
  assumes "animating i a k s" and "steps (view_step put) s (map Frame is) t" and "is \<noteq> []"
  shows "length is \<le> 50 - k \<and>
     (\<exists>y. between (startTop a) (targetTop a) y \<and> scrollTop t = scrolled put a y (scrollTop s)) \<and>
     (requested t = Map.empty \<longrightarrow> scrollTop t = scrolled put a (targetTop a) (scrollTop s))"
  using assms
proof (induction "is" arbitrary: i a k s)
  case (Cons j "is")
  then obtain u where u: "view_step put s (Frame j) u" "steps (view_step put) u (map Frame is) t"
    by (auto simp: steps_Cons_iff)
  note r = frame_result[OF Cons.prems(1) u(1)]
  from Cons.prems(1) have k: "frame_time k a" by (simp add: animating_def)
  note y = eased_in[OF k]
  show ?case
  proof (cases "Suc k = 50")
    case True
    then have one: "of_nat (Suc k) / 50 = (1 :: rat)" by simp
    have "Suc 0 \<le> 50 - k" using True by simp
    with no_frame[OF r(2)[OF True] u(2)] r(1) y show ?thesis unfolding one by auto
  next
    case False
    with k have less: "Suc k < 50" by (simp add: frame_time_def)
    from r(3)[OF less] obtain i' a' where a': "animating i' a' (Suc k) u" "animated a' = animated a"
      "startTop a' = startTop a" "targetTop a' = targetTop a" by blast
    have same: "scrolled put a' = scrolled put a" by (simp add: scrolled_def fun_eq_iff a'(2))
    show ?thesis
    proof (cases "is = []")
      case True
      with u(2) have "t = u" by simp
      moreover from a'(1) have "requested u \<noteq> Map.empty" by (simp add: animating_def)
      ultimately show ?thesis using r(1) y True k by (auto simp: frame_time_def)
    next
      case False
      from Cons.IH[OF a'(1) u(2) False] r(1) less show ?thesis by (auto simp: same a'(3,4))
    qed
  qed
qed simp

lemma frames_come:
  "animating i a k s \<Longrightarrow> \<exists>is t. is \<noteq> [] \<and> steps (view_step put) s (map Frame is) t \<and> requested t = Map.empty"
proof (induction "50 - k" arbitrary: i a k s rule: less_induct)
  case less
  then have "requested s i = Some a" "frame_time k a" by (simp_all add: animating_def)
  then obtain u where u: "view_step put s (Frame i) u" by (auto simp: view_step_iff)
  show ?case
  proof (cases "Suc k = 50")
    case True
    from frame_result(2)[OF less(2) u True] u show ?thesis
      by (intro exI[of _ "[i]"] exI[of _ u]) (simp add: steps_Cons_iff)
  next
    case False
    with \<open>frame_time k a\<close> have k: "Suc k < 50" by (simp add: frame_time_def)
    from frame_result(3)[OF less(2) u k] obtain i' a' where "animating i' a' (Suc k) u" by blast
    from less(1)[OF _ this] k obtain "is" t where
      "steps (view_step put) u (map Frame is) t" "requested t = Map.empty" by (metis Suc_lessD diff_less_mono2 lessI)
    with u show ?thesis by (intro exI[of _ "i # is"] exI[of _ t]) (auto simp: steps_Cons_iff)
  qed
qed

section \<open>The properties\<close>

text \<open>
  C24: the scroll target is within the block's range, and when the highlighted lines are within the block and fit in
  its viewport, the viewport at the target shows all of them.
\<close>

theorem scroll_target_shows_highlights:
  assumes "getHighlightedLineBounds l = (y0, y1)" and "y1 - y0 \<le> viewportHeight l"
    and "0 \<le> y0 + table_offset l" and "y1 + table_offset l \<le> scrollHeight l"
  shows "0 \<le> target_top l \<and> target_top l \<le> of_int (max 0 (scrollHeight l - viewportHeight l)) \<and>
     target_top l \<le> of_int (y0 + table_offset l) \<and>
     of_int (y1 + table_offset l) \<le> target_top l + of_int (viewportHeight l)"
proof -
  define y :: rat where "y = of_int y0 + of_int (y1 - y0 - viewportHeight l) / 2 + of_int (table_offset l)"
  have t: "target_top l = max (min y (of_int (scrollHeight l - viewportHeight l))) 0"
    using assms(1,2) by (simp add: target_top_def Let_def y_def)
  have d: "of_int (y1 - y0) \<le> (of_int (viewportHeight l) :: rat)" using assms(2) by (simp only: of_int_le_iff)
  have "y \<le> of_int (y0 + table_offset l)" "of_int (y1 + table_offset l) \<le> y + of_int (viewportHeight l)"
    using d by (simp_all add: y_def field_simps)
  moreover have "(0 :: rat) \<le> of_int (y0 + table_offset l)" using assms(3) by (simp only: of_int_0_le_iff)
  moreover have "of_int (y1 + table_offset l) \<le> (of_int (scrollHeight l) :: rat)" using assms(4) by (simp only: of_int_le_iff)
  ultimately show ?thesis unfolding t by (auto simp: max_def min_def)
qed

definition example_layout :: layout where
  "example_layout = \<lparr>offsetHeight = 120, scrollHeight = 900, paddingTop = 25 / 2, paddingBottom = 8,
     line_table = Some 12, highlightedLines = [(400, 20), (420, 20)]\<rparr>"

lemma example_layout_facts:
  "getHighlightedLineBounds example_layout = (400, 440)" "viewportHeight example_layout = 100" "table_offset example_layout = 0"
proof -
  have "parse_px (25 / 2) = 12" "parse_px 8 = 8" by (simp_all add: parse_px_def floor_eq_iff)
  then show "getHighlightedLineBounds example_layout = (400, 440)" "viewportHeight example_layout = 100"
    "table_offset example_layout = 0"
    by (simp_all add: getHighlightedLineBounds_def viewportHeight_def table_offset_def example_layout_def)
qed

theorem scroll_target_shows_highlights_witness:
  "target_top example_layout \<le> 400 \<and> 440 \<le> target_top example_layout + of_int (viewportHeight example_layout)"
  using scroll_target_shows_highlights[OF example_layout_facts(1)] example_layout_facts by (simp add: example_layout_def)

text \<open>
  C25: the blocks of a group never scroll against each other and an animation always ends. Whatever happened, only one
  frame is pending, for the block shown last; if frames come, at most 49 more do, each puts that block, and no other,
  between the start and the target, and after the last one the block is at the target.
\<close>

theorem animation_ends:
  assumes "steps (view_step put) (scroller_init block tops) es s" and "requested s i = Some a"
  shows "requested s = [i \<mapsto> a] \<and> currentBlock s = Some (animated a) \<and>
     (\<exists>is t. steps (view_step put) s (map Frame is) t \<and> requested t = Map.empty) \<and>
     (\<forall>is t. steps (view_step put) s (map Frame is) t \<and> is \<noteq> [] \<longrightarrow>
        length is \<le> 49 \<and>
        (\<exists>y. between (startTop a) (targetTop a) y \<and> scrollTop t = scrolled put a y (scrollTop s)) \<and>
        (requested t = Map.empty \<longrightarrow> scrollTop t = scrolled put a (targetTop a) (scrollTop s)))"
proof -
  from scroller_machine.inv_reachable[OF assms(1)] assms(2) obtain k where k: "animating i a k s" "0 < k"
    by (auto simp: scroller_inv_def animating_def split: if_splits)
  from frames_come[OF k(1)] have "\<exists>is t. steps (view_step put) s (map Frame is) t \<and> requested t = Map.empty" by blast
  moreover have "length is \<le> 49" if "steps (view_step put) s (map Frame is) t" "is \<noteq> []" for "is" t
    using frames_run[OF k(1) that, THEN conjunct1] k(2) by linarith
  ultimately show ?thesis using k(1) frames_run[OF k(1)] unfolding animating_def by blast
qed

theorem animation_ends_witness:
  "\<exists>s i a. steps (view_step (\<lambda>b y. y)) (scroller_init (Some 0) (\<lambda>b. 0)) [Reveal 1 example_layout False] s \<and>
     requested s = [i \<mapsto> a] \<and> animated a = 1 \<and> targetTop a = 370 \<and>
     (\<exists>is t. steps (view_step (\<lambda>b y. y)) s (map Frame is) t \<and> requested t = Map.empty)"
proof -
  have "target_top example_layout = 370" "scrollHeight example_layout = 900" "viewportHeight example_layout = 100"
    using example_layout_facts
    by (simp_all add: target_top_def) (simp_all add: example_layout_def)
  then obtain s where s: "steps (view_step (\<lambda>b y. y)) (scroller_init (Some 0) (\<lambda>b. 0)) [Reveal 1 example_layout False] s"
    "requested s 1 = Some \<lparr>animated = 1, time = 1 / 50, startTop = 0, targetTop = 370\<rparr>"
    by (simp add: steps_Cons_iff view_step_iff scrollHighlightedLineIntoView_def cancelAnimationFrame_def scroller_init_def
        set_scrollTop_def animate_def requestAnimationFrame_def Let_def)
  from animation_ends[OF s] s(1) show ?thesis
    by (intro exI[of _ s] exI[of _ 1] exI[of _ "\<lparr>animated = 1, time = 1 / 50, startTop = 0, targetTop = 370\<rparr>"]) simp
qed

end
