(* ===== verification/HighlightInit.thy ===== *)
theory HighlightInit
  imports CodeTrim HighlightSteps HighlightScroll
begin

text \<open>
  The start of the slides' code plugin (\<^verbatim>\<open>src/slides/plugin/highlight/plugin.js\<close>, \<^verbatim>\<open>init\<close>) and the listeners it leaves behind:
  every block is prepared (\<open>CodeTrim\<close>), then highlighted and split into its steps (\<open>HighlightSteps\<close>), and its steps scroll
  when they are shown and hidden (\<open>HighlightScroll\<close>). Parameters are the browser's \<open>reparse\<close> and the libraries:
  \<open>highlightElement\<close>, with a state that the callback may set, and \<open>lineNumbersBlock\<close>, which gives the new contents and how
  many lines there are.
\<close>

section \<open>The blocks\<close>

text \<open>
  A \<^verbatim>\<open>code\<close> element in a \<^verbatim>\<open>pre\<close>, its two attributes, whether its parent has the class, how often it listens for the loss
  of focus, and the blocks its steps were split into, itself first.
\<close>

record pre_code =
  element :: code_element
  line_numbers :: "string option"
  index_attribute :: "string option"
  wrapped :: bool
  focusout_listeners :: nat
  step_blocks :: "code_block list"

record highlight_config =
  highlightOnLoad :: "bool option"
  escapeHTML :: "bool option"

text \<open>\<^verbatim>\<open>reveal.getConfig().highlight || {}\<close>, with both flags filled in.\<close>

definition read_config :: "highlight_config option \<Rightarrow> highlight_config" where
  "read_config c =
     (let config = (case c of None \<Rightarrow> \<lparr>highlightOnLoad = None, escapeHTML = None\<rparr> | Some d \<Rightarrow> d) in
      config\<lparr>highlightOnLoad := Some (config_flag (highlightOnLoad config)), escapeHTML := Some (config_flag (escapeHTML config))\<rparr>)"

definition prepare :: "(string \<Rightarrow> string) \<Rightarrow> bool option \<Rightarrow> pre_code \<Rightarrow> pre_code" where
  "prepare reparse escape b =
     b\<lparr>wrapped := True,
       element := (element b)\<lparr>inner := prepare_block reparse escape (element b), template := None\<rparr>,
       focusout_listeners := focusout_listeners b + 1\<rparr>"

section \<open>Highlighting\<close>

text \<open>
  \<^verbatim>\<open>highlightBlock\<close> with its libraries; the flag says that a selector made it throw, before the listeners of its steps
  were complete.
\<close>

definition set_inner :: "string \<Rightarrow> pre_code \<Rightarrow> pre_code" where
  "set_inner s b = b\<lparr>element := (element b)\<lparr>inner := s\<rparr>\<rparr>"

definition highlight_code :: "(string \<Rightarrow> string) \<Rightarrow> (string \<Rightarrow> string \<times> nat) \<Rightarrow> pre_code \<Rightarrow> pre_code \<times> bool" where
  "highlight_code highlightElement lineNumbersBlock b =
     (let h = highlightElement (inner (element b)); b1 = set_inner h b in
      if line_numbers b = None \<or> length (trim h) = 0 then (b1, False)
      else
        (let (t, n) = lineNumbersBlock h; b2 = set_inner t b in
         case highlightBlock n h (line_numbers b) (index_attribute b) of
           None \<Rightarrow> (b2, True)
         | Some bs \<Rightarrow> (b2\<lparr>step_blocks := bs\<rparr>, False)))"

text \<open>The second \<^verbatim>\<open>forEach\<close>, which an exception ends.\<close>

fun highlight_all :: "(string \<Rightarrow> string) \<Rightarrow> (string \<Rightarrow> string \<times> nat) \<Rightarrow> pre_code list \<Rightarrow> pre_code list \<times> bool" where
  "highlight_all highlightElement lineNumbersBlock [] = ([], False)"
| "highlight_all highlightElement lineNumbersBlock (b # bs) =
     (case highlight_code highlightElement lineNumbersBlock b of
        (b', True) \<Rightarrow> (b' # bs, True)
      | (b', False) \<Rightarrow> (let (bs', e) = highlight_all highlightElement lineNumbersBlock bs in (b' # bs', e)))"

record 'h highlight_plugin =
  code_blocks :: "pre_code list"
  hljs :: 'h
  pdf_listener :: bool

definition plugin_init ::
    "(string \<Rightarrow> string) \<Rightarrow> ('h \<Rightarrow> string \<Rightarrow> string) \<Rightarrow> (string \<Rightarrow> string \<times> nat) \<Rightarrow> highlight_config option \<Rightarrow> ('h \<Rightarrow> 'h) option \<Rightarrow>
     'h \<Rightarrow> pre_code list \<Rightarrow> 'h highlight_plugin \<times> bool" where
  "plugin_init reparse highlightElement lineNumbersBlock c beforeHighlight h blocks =
     (let config = read_config c;
          bs = map (prepare reparse (escapeHTML config)) blocks;
          h1 = (case beforeHighlight of None \<Rightarrow> h | Some f \<Rightarrow> f h);
          (bs1, e) = (if highlightOnLoad config = Some True then highlight_all (highlightElement h1) lineNumbersBlock bs
                      else (bs, False))
      in (\<lparr>code_blocks = bs1, hljs = h1, pdf_listener = \<not> e\<rparr>, e))"

text \<open>The focus leaves the \<open>i\<close>-th block; the library is asked once per listener.\<close>

definition focusout :: "('h \<Rightarrow> string \<Rightarrow> string) \<Rightarrow> nat \<Rightarrow> 'h highlight_plugin \<Rightarrow> 'h highlight_plugin" where
  "focusout highlightElement i p =
     (if i < length (code_blocks p) then
        (let b = code_blocks p ! i in
         p\<lparr>code_blocks := (code_blocks p)[i := set_inner ((highlightElement (hljs p) ^^ focusout_listeners b) (inner (element b))) b]\<rparr>)
      else p)"

text \<open>
  The presentation is printed: every block that shows a current step gets a \<^verbatim>\<open>scrollState\<close> of its own and is scrolled
  without animation.
\<close>

fun pdf_ready :: "(nat \<Rightarrow> rat \<Rightarrow> rat) \<Rightarrow> (nat \<Rightarrow> layout) \<Rightarrow> nat list \<Rightarrow> (nat \<Rightarrow> rat) \<Rightarrow> (nat \<Rightarrow> rat)" where
  "pdf_ready put layouts [] tops = tops"
| "pdf_ready put layouts (b # bs) tops =
     pdf_ready put layouts bs (scrollTop (scrollHighlightedLineIntoView put b (layouts b) True (scroller_init None tops)))"

section \<open>The listeners of a block\<close>

text \<open>
  The steps of one block are numbered, the block itself \<open>0\<close>. A step that is shown scrolls to itself, one that is hidden to
  the one before it (\<^verbatim>\<open>previousElementSibling\<close>, when nothing else is in the \<^verbatim>\<open>pre\<close>), and the slide, when it is first
  shown, to the block itself. \<open>top_step\<close> is what the presentation keeps: the last step that is shown.
\<close>

record step_group =
  scroll :: scroller
  slide_listener :: bool
  top_step :: nat

datatype group_event = SlideVisible layout | StepVisible layout | StepHidden layout

definition group_init :: "bool \<Rightarrow> (nat \<Rightarrow> rat) \<Rightarrow> step_group" where
  "group_init in_slide tops = \<lparr>scroll = scroller_init (Some 0) tops, slide_listener = in_slide, top_step = 0\<rparr>"

fun group_handle :: "(nat \<Rightarrow> rat \<Rightarrow> rat) \<Rightarrow> group_event \<Rightarrow> step_group \<Rightarrow> step_group" where
  "group_handle put (SlideVisible l) g =
     (if slide_listener g then g\<lparr>scroll := scrollHighlightedLineIntoView put 0 l True (scroll g), slide_listener := False\<rparr> else g)"
| "group_handle put (StepVisible l) g =
     g\<lparr>scroll := scrollHighlightedLineIntoView put (top_step g + 1) l False (scroll g), top_step := top_step g + 1\<rparr>"
| "group_handle put (StepHidden l) g =
     g\<lparr>scroll := scrollHighlightedLineIntoView put (top_step g - 1) l False (scroll g), top_step := top_step g - 1\<rparr>"

text \<open>\<open>n\<close> steps are shown and hidden in order, with frames and the user's scrolling in between.\<close>

inductive group_step :: "(nat \<Rightarrow> rat \<Rightarrow> rat) \<Rightarrow> nat \<Rightarrow> step_group \<Rightarrow> group_event + view_event \<Rightarrow> step_group \<Rightarrow> bool"
  for put :: "nat \<Rightarrow> rat \<Rightarrow> rat" and n :: nat where
  slide_visible: "group_step put n g (Inl (SlideVisible l)) (group_handle put (SlideVisible l) g)"
| step_visible: "top_step g < n \<Longrightarrow> group_step put n g (Inl (StepVisible l)) (group_handle put (StepVisible l) g)"
| step_hidden: "0 < top_step g \<Longrightarrow> group_step put n g (Inl (StepHidden l)) (group_handle put (StepHidden l) g)"
| browser_view: "view_step put (scroll g) e s \<Longrightarrow> (\<forall>b l k. e \<noteq> Reveal b l k) \<Longrightarrow> group_step put n g (Inr e) (g\<lparr>scroll := s\<rparr>)"

section \<open>What the start does\<close>

text \<open>The steps of an attribute that can be selected: the blocks they are split into.\<close>

definition steps_of :: "pre_code \<Rightarrow> highlight list list" where
  "steps_of b = (case line_numbers b of None \<Rightarrow> [] | Some l \<Rightarrow> deserializeHighlightSteps l)"

definition good_steps :: "pre_code \<Rightarrow> bool" where
  "good_steps b \<longleftrightarrow> (\<forall>hs \<in> set (steps_of b). wf_step hs)"

lemma highlightBlock_shows:
  assumes "deserializeHighlightSteps lines = groups" and "\<forall>hs \<in> set groups. wf_step hs" and "trim code \<noteq> []"
  shows "\<exists>bs. highlightBlock n code (Some lines) index = Some bs \<and> list_all2 (block_shows n) groups bs"
proof -
  have "groups \<noteq> []" using assms(1) by (auto simp: deserializeHighlightSteps_def)
  then obtain g gs where groups: "groups = g # gs" by (cases groups) auto
  show ?thesis
  proof (cases gs)
    case Nil
    from assms(1,2) make_block_shows[of lines g n "case index of None \<Rightarrow> None | Some i \<Rightarrow> parse_int i" False] assms(3) show ?thesis
      by (auto simp: groups Nil highlightBlock_def Let_def)
  next
    case (Cons g' gs')
    let ?index = "case index of None \<Rightarrow> None | Some i \<Rightarrow> parse_int i"
    have "deserializeHighlightSteps (serializeHighlightSteps [g]) = [g]"
      using assms(2) by (intro deserialize_serialize) (auto simp: groups)
    from make_block_shows[OF this, of n None False] assms(2) obtain b where
      "make_block n (serializeHighlightSteps [g]) None False = Some b" "block_shows n g b" by (auto simp: groups)
    moreover from fragment_blocks_shows[of gs n ?index] assms(2) obtain bs where
      "fragment_blocks n ?index gs = Some bs" "list_all2 (block_shows n) gs bs" by (auto simp: groups)
    ultimately show ?thesis using assms(1,3) by (simp add: highlightBlock_def Let_def groups Cons)
  qed
qed

text \<open>What \<open>b\<close> has become when the plugin is started.\<close>

definition started ::
    "(string \<Rightarrow> string) \<Rightarrow> (string \<Rightarrow> string) \<Rightarrow> (string \<Rightarrow> string \<times> nat) \<Rightarrow> highlight_config \<Rightarrow> pre_code \<Rightarrow> pre_code \<Rightarrow> bool" where
  "started reparse highlightElement lineNumbersBlock config b b' \<longleftrightarrow>
     (let s = prepare_block reparse (escapeHTML config) (element b);
          h = highlightElement s
      in wrapped b' \<and> focusout_listeners b' = focusout_listeners b + 1 \<and> line_numbers b' = line_numbers b \<and>
         (if \<not> config_flag (highlightOnLoad config) then inner (element b') = s \<and> step_blocks b' = step_blocks b
          else if line_numbers b = None \<or> trim h = [] then inner (element b') = h \<and> step_blocks b' = step_blocks b
          else inner (element b') = fst (lineNumbersBlock h) \<and>
            list_all2 (block_shows (snd (lineNumbersBlock h))) (steps_of b) (step_blocks b')))"

lemma highlight_code_started:
  assumes "good_steps b" and "config_flag (highlightOnLoad config)"
  shows "\<exists>b'. highlight_code highlightElement lineNumbersBlock (prepare reparse (escapeHTML config) b) = (b', False) \<and>
     started reparse highlightElement lineNumbersBlock config b b'"
proof -
  let ?h = "highlightElement (prepare_block reparse (escapeHTML config) (element b))"
  show ?thesis
  proof (cases "line_numbers b = None \<or> trim ?h = []")
    case True
    with assms(2) show ?thesis by (auto simp: highlight_code_def prepare_def started_def set_inner_def Let_def)
  next
    case False
    then obtain l where l: "line_numbers b = Some l" "trim ?h \<noteq> []" by auto
    obtain t n where ln: "lineNumbersBlock ?h = (t, n)" by fastforce
    from highlightBlock_shows[OF refl _ l(2), of l n "index_attribute b"] assms(1) obtain bs where
      "highlightBlock n ?h (Some l) (index_attribute b) = Some bs"
      "list_all2 (block_shows n) (deserializeHighlightSteps l) bs" by (auto simp: good_steps_def steps_of_def l(1))
    with assms(2) l ln show ?thesis
      by (simp add: highlight_code_def prepare_def started_def set_inner_def Let_def steps_of_def)
  qed
qed

lemma highlight_all_started:
  assumes "\<forall>b \<in> set bs. good_steps b" and "config_flag (highlightOnLoad config)"
  shows "\<exists>bs'. highlight_all highlightElement lineNumbersBlock (map (prepare reparse (escapeHTML config)) bs) = (bs', False) \<and>
     list_all2 (started reparse highlightElement lineNumbersBlock config) bs bs'"
  using assms(1)
proof (induction bs)
  case (Cons b bs)
  then obtain bs' where bs: "highlight_all highlightElement lineNumbersBlock (map (prepare reparse (escapeHTML config)) bs) = (bs', False)"
    "list_all2 (started reparse highlightElement lineNumbersBlock config) bs bs'" by auto
  from highlight_code_started[of b config highlightElement lineNumbersBlock reparse] Cons.prems assms(2) obtain b' where
    "highlight_code highlightElement lineNumbersBlock (prepare reparse (escapeHTML config) b) = (b', False)"
    "started reparse highlightElement lineNumbersBlock config b b'" by auto
  with bs show ?case by simp
qed simp

text \<open>A block that makes \<^verbatim>\<open>highlightBlock\<close> throw ends the loop: the blocks after it stay as they are.\<close>

lemma highlight_all_threw:
  assumes "highlight_all highlightElement lineNumbersBlock bs = (bs', True)"
  shows "\<exists>xs b ys. bs = xs @ b # ys \<and> snd (highlight_code highlightElement lineNumbersBlock b) \<and>
     bs' = map (\<lambda>x. fst (highlight_code highlightElement lineNumbersBlock x)) (xs @ [b]) @ ys"
  using assms
proof (induction bs arbitrary: bs')
  case (Cons b bs)
  obtain b1 e where b: "highlight_code highlightElement lineNumbersBlock b = (b1, e)" by fastforce
  show ?case
  proof (cases e)
    case True
    with Cons.prems b show ?thesis by (intro exI[of _ "[]"] exI[of _ b] exI[of _ bs]) simp
  next
    case False
    with Cons.prems b obtain bs1 where bs1: "highlight_all highlightElement lineNumbersBlock bs = (bs1, True)" "bs' = b1 # bs1"
      by (auto split: prod.splits)
    from Cons.IH[OF bs1(1)] obtain xs c ys where "bs = xs @ c # ys" "snd (highlight_code highlightElement lineNumbersBlock c)"
      "bs1 = map (\<lambda>x. fst (highlight_code highlightElement lineNumbersBlock x)) (xs @ [c]) @ ys" by blast
    with bs1(2) b show ?thesis by (intro exI[of _ "b # xs"] exI[of _ c] exI[of _ ys]) simp
  qed
qed simp

text \<open>
  C37: starting the plugin prepares every block and splits it into its steps. When every step of the attributes can be
  selected, nothing throws, the callback has been called before anything is highlighted, every block listens once more for
  the loss of focus, and its contents and its step blocks are those of its code: each step marks exactly its own lines.
  With \<^verbatim>\<open>highlightOnLoad\<close> off, the code is prepared only.
\<close>

theorem plugin_init_highlights:
  assumes "\<forall>b \<in> set blocks. good_steps b"
  shows "\<exists>p. plugin_init reparse highlightElement lineNumbersBlock c beforeHighlight h blocks = (p, False) \<and> pdf_listener p \<and>
     hljs p = (case beforeHighlight of None \<Rightarrow> h | Some f \<Rightarrow> f h) \<and>
     list_all2 (started reparse (highlightElement (hljs p)) lineNumbersBlock (read_config c)) blocks (code_blocks p)"
proof (cases "config_flag (highlightOnLoad (read_config c))")
  case True
  let ?h = "case beforeHighlight of None \<Rightarrow> h | Some f \<Rightarrow> f h"
  from highlight_all_started[OF assms True] obtain bs where
    "highlight_all (highlightElement ?h) lineNumbersBlock (map (prepare reparse (escapeHTML (read_config c))) blocks) = (bs, False)"
    "list_all2 (started reparse (highlightElement ?h) lineNumbersBlock (read_config c)) blocks bs" by blast
  moreover from True have "highlightOnLoad (read_config c) = Some True" by (simp add: read_config_def Let_def config_flag_def)
  ultimately show ?thesis by (simp add: plugin_init_def Let_def)
next
  case False
  then have "highlightOnLoad (read_config c) \<noteq> Some True" by (auto simp: config_flag_def)
  with False show ?thesis
    by (simp add: plugin_init_def Let_def list_all2_conv_all_nth started_def prepare_def)
qed

definition plain_code :: "string \<Rightarrow> string option \<Rightarrow> pre_code" where
  "plain_code s l = \<lparr>element = \<lparr>inner = s, template = None, data_trim = True, data_noescape = False\<rparr>, line_numbers = l,
     index_attribute = None, wrapped = False, focusout_listeners = 0, step_blocks = []\<rparr>"

definition two_lines :: "string \<Rightarrow> string \<times> nat" where
  "two_lines s = (s, 2)"

theorem plugin_init_highlights_witness:
  "\<exists>p b. plugin_init id (\<lambda>_. id) two_lines None None () [plain_code ''  a'' (Some ''1|2'')] = (p, False) \<and>
     code_blocks p = [b] \<and> inner (element b) = ''a'' \<and>
     list_all2 (block_shows 2) [[Single (Some 1)], [Single (Some 2)]] (step_blocks b)"
proof -
  let ?b = "plain_code ''  a'' (Some ''1|2'')"
  have steps: "steps_of ?b = [[Single (Some 1)], [Single (Some 2)]]" by code_simp
  then have good: "\<forall>b \<in> set [?b]. good_steps b" by (simp add: good_steps_def)
  from plugin_init_highlights[OF good, of id "\<lambda>_. id" two_lines None None "()"] obtain p where
    p: "plugin_init id (\<lambda>_. id) two_lines None None () [?b] = (p, False)"
      "list_all2 (started id id two_lines (read_config None)) [?b] (code_blocks p)" by auto
  then obtain b where b: "code_blocks p = [b]" "started id id two_lines (read_config None) ?b b"
    by (auto simp: list_all2_Cons1)
  have facts: "prepare_block id (escapeHTML (read_config None)) (element ?b) = ''a''" "trim ''a'' \<noteq> []"
    "config_flag (highlightOnLoad (read_config None))" "line_numbers ?b \<noteq> None" by code_simp+
  from b(2) facts have "inner (element b) = ''a''" "list_all2 (block_shows 2) (steps_of ?b) (step_blocks b)"
    by (simp_all add: started_def Let_def two_lines_def)
  with p(1) b(1) show ?thesis unfolding steps by blast
qed

text \<open>
  One attribute with a range that has no start ends the start of the plugin: the blocks after it are not highlighted, and
  the listener for printing is missing.
\<close>

lemma half_range_stops_plugin:
  "plugin_init id (\<lambda>_. id) two_lines None None () [plain_code ''a'' (Some ''-2''), plain_code ''b'' (Some ''1|2'')] =
     (\<lparr>code_blocks = [prepare id None (plain_code ''a'' (Some ''-2'')), prepare id None (plain_code ''b'' (Some ''1|2''))],
       hljs = (), pdf_listener = False\<rparr>, True)"
  by code_simp

section \<open>Printing\<close>

lemma put_skip:
  "scrollTop (scrollHighlightedLineIntoView put b l True (scroller_init None tops)) = tops(b := put b (target_top l))"
  by (simp add: scrollHighlightedLineIntoView_def scroller_init_def cancelAnimationFrame_def set_scrollTop_def Let_def)

text \<open>When the deck is printed, every block with a current step is at its target, and no other block has moved.\<close>

lemma pdf_ready_targets:
  "pdf_ready put layouts bs tops b = (if b \<in> set bs then put b (target_top (layouts b)) else tops b)"
  by (induction bs arbitrary: tops) (auto simp: put_skip)

section \<open>Stepping through a block\<close>

definition group_inv :: "nat \<Rightarrow> step_group \<Rightarrow> bool" where
  "group_inv n g \<longleftrightarrow> \<not> slide_listener g \<and> scroller_inv (scroll g) \<and> currentBlock (scroll g) = Some (top_step g) \<and> top_step g \<le> n"

lemma reveal_current: "currentBlock (scrollHighlightedLineIntoView put b l skip s) = Some b"
  by (simp add: scrollHighlightedLineIntoView_def Let_def set_scrollTop_def animate_def requestAnimationFrame_def)

lemma reveal_inv: "scroller_inv s \<Longrightarrow> scroller_inv (scrollHighlightedLineIntoView put b l skip s)"
  using scroller_inv_step[OF reveal] .

lemma view_current: "view_step put s e t \<Longrightarrow> \<forall>b l k. e \<noteq> Reveal b l k \<Longrightarrow> currentBlock t = currentBlock s"
  by (induction rule: view_step.induct) (auto simp: animate_def Let_def set_scrollTop_def requestAnimationFrame_def)

lemma group_inv_step: "group_step put n g e g' \<Longrightarrow> group_inv n g \<Longrightarrow> group_inv n g'"
proof (induction rule: group_step.induct)
  case (browser_view g e s)
  with scroller_inv_step[OF browser_view(1)] view_current[OF browser_view(1,2)] show ?case by (simp add: group_inv_def)
qed (auto simp: group_inv_def reveal_current reveal_inv)

text \<open>
  C38: the block that scrolls is the one that is seen. When the slide has been shown before its steps are, whatever steps
  are shown and hidden after that, the current block of the group is the last step shown, and a frame that is pending
  belongs to it; so every step takes over the scroll position of the block it replaces on the screen.
\<close>

theorem steps_scroll_visible_block:
  assumes "steps (group_step put n) (group_init in_slide tops) es g"
    and "in_slide \<longrightarrow> (\<exists>l es'. es = Inl (SlideVisible l) # es')"
  shows "currentBlock (scroll g) = Some (top_step g) \<and> top_step g \<le> n \<and>
     (\<forall>i a. requested (scroll g) i = Some a \<longrightarrow> animated a = top_step g)"
proof -
  have init: "scroller_inv (scroller_init (Some 0) tops)" by (rule scroller_machine.inv_init)
  have "group_inv n g"
  proof (cases in_slide)
    case False
    with init have "group_inv n (group_init in_slide tops)" by (simp add: group_inv_def group_init_def scroller_init_def)
    with steps_preserve[where P = "group_inv n" and Q = "\<lambda>_. True", OF _ assms(1)] group_inv_step show ?thesis by blast
  next
    case True
    with assms obtain l es' g1 where g1: "group_step put n (group_init True tops) (Inl (SlideVisible l)) g1"
      "steps (group_step put n) g1 es' g" by (auto simp: steps_Cons_iff)
    from g1(1) have "group_inv n g1"
      by (cases rule: group_step.cases) (simp_all add: group_inv_def group_init_def reveal_current reveal_inv[OF init])
    with steps_preserve[where P = "group_inv n" and Q = "\<lambda>_. True", OF _ g1(2)] group_inv_step show ?thesis by blast
  qed
  then show ?thesis by (auto simp: group_inv_def scroller_inv_def animating_def split: if_splits)
qed

theorem steps_scroll_visible_block_witness:
  "\<exists>g. steps (group_step (\<lambda>b y. y) 2) (group_init True (\<lambda>_. 0))
       [Inl (SlideVisible example_layout), Inl (StepVisible example_layout), Inl (StepVisible example_layout),
        Inl (StepHidden example_layout)] g \<and> currentBlock (scroll g) = Some 1"
proof -
  let ?put = "\<lambda>b y. y" and ?l = example_layout
  let ?step = "group_step ?put 2"
  define g1 where "g1 = group_handle ?put (SlideVisible ?l) (group_init True (\<lambda>_. 0))"
  define g2 where "g2 = group_handle ?put (StepVisible ?l) g1"
  define g3 where "g3 = group_handle ?put (StepVisible ?l) g2"
  define g where "g = group_handle ?put (StepHidden ?l) g3"
  have top: "top_step g1 = 0" "top_step g2 = 1" "top_step g3 = 2" "top_step g = 1"
    by (simp_all add: g1_def g2_def g3_def g_def group_init_def)
  have "?step (group_init True (\<lambda>_. 0)) (Inl (SlideVisible ?l)) g1" unfolding g1_def by (rule slide_visible)
  moreover have "?step g1 (Inl (StepVisible ?l)) g2" unfolding g2_def using top by (intro step_visible) simp
  moreover have "?step g2 (Inl (StepVisible ?l)) g3" unfolding g3_def using top by (intro step_visible) simp
  moreover have "?step g3 (Inl (StepHidden ?l)) g" unfolding g_def using top by (intro step_hidden) simp
  ultimately have run: "steps ?step (group_init True (\<lambda>_. 0))
       [Inl (SlideVisible ?l), Inl (StepVisible ?l), Inl (StepVisible ?l), Inl (StepHidden ?l)] g"
    by (simp add: steps_Cons_iff) blast
  with steps_scroll_visible_block[OF run] top(4) show ?thesis by auto
qed

text \<open>
  If the slide is first shown when steps are shown already, it is the block below them that is scrolled, and the next step
  starts from its position.
\<close>

lemma late_slide_scrolls_block:
  assumes "slide_listener g" and "0 < top_step g"
  shows "currentBlock (scroll (group_handle put (SlideVisible l) g)) = Some 0 \<and> top_step (group_handle put (SlideVisible l) g) \<noteq> 0"
  using assms by (simp add: reveal_current)

end
