(* ===== verification/MarkdownSlides.thy ===== *)
theory MarkdownSlides
  imports JsRegExp JsValue
begin

text \<open>
  How the slides' Markdown plugin cuts a text into slides (\<^verbatim>\<open>src/slides/plugin/markdown/plugin.js\<close>,
  \<^verbatim>\<open>getSlidifyOptions\<close>, \<^verbatim>\<open>createMarkdownSlide\<close> and \<^verbatim>\<open>slidify\<close>). A separator is the regular expression its
  pattern denotes; \<^verbatim>\<open>marked\<close>, the Markdown library, is a parameter.
\<close>

section \<open>Separators\<close>

text \<open>The flags \<^verbatim>\<open>m\<close> and \<^verbatim>\<open>i\<close> of an expression.\<close>

primrec multiline :: "regex \<Rightarrow> regex" where
  "multiline Eps = Eps"
| "multiline (Class p) = Class p"
| "multiline (Seq a b) = Seq (multiline a) (multiline b)"
| "multiline (Alt a b) = Alt (multiline a) (multiline b)"
| "multiline (Star a) = Star (multiline a)"
| "multiline (Group n a) = Group n (multiline a)"
| "multiline AtStart = LineStart"
| "multiline AtEnd = LineEnd"
| "multiline LineStart = LineStart"
| "multiline LineEnd = LineEnd"
| "multiline WordBoundary = WordBoundary"
| "multiline (Lazy a) = Lazy (multiline a)"
| "multiline (Ahead a) = Ahead (multiline a)"

definition other_case :: "char \<Rightarrow> char" where
  "other_case c =
     (if is_lower c \<or> (224 \<le> code_of c \<and> code_of c \<le> 254 \<and> code_of c \<noteq> 247) then char_of (code_of c - 32)
      else if is_upper c \<or> (192 \<le> code_of c \<and> code_of c \<le> 222 \<and> code_of c \<noteq> 215) then char_of (code_of c + 32)
      else c)"

text \<open>
  The flag \<^verbatim>\<open>i\<close>: a class is met by a character or its other case. For a negated class with letters JavaScript compares the
  character with the class's own letters, so it takes fewer; such a class, which only a separator given by the user can
  have, is not represented.
\<close>

primrec caseless :: "regex \<Rightarrow> regex" where
  "caseless Eps = Eps"
| "caseless (Class p) = Class (\<lambda>c. p c \<or> p (other_case c))"
| "caseless (Seq a b) = Seq (caseless a) (caseless b)"
| "caseless (Alt a b) = Alt (caseless a) (caseless b)"
| "caseless (Star a) = Star (caseless a)"
| "caseless (Group n a) = Group n (caseless a)"
| "caseless AtStart = AtStart"
| "caseless AtEnd = AtEnd"
| "caseless LineStart = LineStart"
| "caseless LineEnd = LineEnd"
| "caseless WordBoundary = WordBoundary"
| "caseless (Lazy a) = Lazy (caseless a)"
| "caseless (Ahead a) = Ahead (caseless a)"

primrec group_count :: "regex \<Rightarrow> nat" where
  "group_count Eps = 0"
| "group_count (Class p) = 0"
| "group_count (Seq a b) = group_count a + group_count b"
| "group_count (Alt a b) = group_count a + group_count b"
| "group_count (Star a) = group_count a"
| "group_count (Group n a) = Suc (group_count a)"
| "group_count AtStart = 0"
| "group_count AtEnd = 0"
| "group_count LineStart = 0"
| "group_count LineEnd = 0"
| "group_count WordBoundary = 0"
| "group_count (Lazy a) = group_count a"
| "group_count (Ahead a) = group_count a"

definition carriage_return :: char where
  "carriage_return = CHR 0x0D"

text \<open>\<^verbatim>\<open>\r?\n---\r?\n\<close>\<close>

definition DEFAULT_SLIDE_SEPARATOR :: regex where
  "DEFAULT_SLIDE_SEPARATOR =
     Seq (Opt (Class (\<lambda>c. c = carriage_return))) (Seq (Lit (newline # ''---''))
       (Seq (Opt (Class (\<lambda>c. c = carriage_return))) (Lit [newline])))"

text \<open>The string literal \<^verbatim>\<open>'^\s*notes?:'\<close> is the pattern \<^verbatim>\<open>^s*notes?:\<close>, for \<^verbatim>\<open>\s\<close> in a string is \<^verbatim>\<open>s\<close>.\<close>

definition DEFAULT_NOTES_SEPARATOR :: regex where
  "DEFAULT_NOTES_SEPARATOR =
     Seq AtStart (Seq (Star (Class (\<lambda>c. c = CHR ''s''))) (Seq (Lit ''note'')
       (Seq (Opt (Class (\<lambda>c. c = CHR ''s''))) (Lit '':''))))"

definition SCRIPT_END_PLACEHOLDER :: string where
  "SCRIPT_END_PLACEHOLDER = ''__SCRIPT_END__''"

section \<open>Options\<close>

text \<open>What the caller and the presentation's configuration give: nothing, \<^verbatim>\<open>null\<close> and the empty string are \<open>None\<close>.\<close>

record options =
  separator :: "regex option"
  verticalSeparator :: "regex option"
  notesSeparator :: "regex option"
  attributes :: string

record settings =
  slide_separator :: regex
  vertical_separator :: "regex option"
  notes_separator :: regex
  slide_attributes :: string

fun or_else :: "'a option \<Rightarrow> 'a option \<Rightarrow> 'a option" where
  "or_else None y = y"
| "or_else (Some x) y = Some x"

fun or_default :: "'a option \<Rightarrow> 'a \<Rightarrow> 'a" where
  "or_default None d = d"
| "or_default (Some x) d = x"

definition getSlidifyOptions :: "options \<Rightarrow> options \<Rightarrow> settings" where
  "getSlidifyOptions markdownConfig o' =
     \<lparr>slide_separator = or_default (or_else (separator o') (separator markdownConfig)) DEFAULT_SLIDE_SEPARATOR,
      vertical_separator = or_else (verticalSeparator o') (verticalSeparator markdownConfig),
      notes_separator = or_default (or_else (notesSeparator o') (notesSeparator markdownConfig)) DEFAULT_NOTES_SEPARATOR,
      slide_attributes = attributes o'\<rparr>"

section \<open>A slide\<close>

definition quoted :: "string \<Rightarrow> string" where
  "quoted s = [CHR 0x22] @ s @ [CHR 0x22]"

text \<open>\<^verbatim>\<open>s.split(r)\<close>, without the captures, and the length of the array, which counts them.\<close>

fun every_other :: "'a list \<Rightarrow> 'a list" where
  "every_other [] = []"
| "every_other [x] = [x]"
| "every_other (x # y # xs) = x # every_other xs"

definition regex_split :: "regex \<Rightarrow> string \<Rightarrow> string list" where
  "regex_split r s = every_other (split_keep r s)"

definition split_length :: "regex \<Rightarrow> string \<Rightarrow> nat" where
  "split_length r s = length (regex_split r s) + (length (regex_split r s) - 1) * group_count r"

text \<open>\<^verbatim>\<open>s.replace(/x/g, y)\<close> for texts \<open>x\<close> and \<open>y\<close>.\<close>

definition replace_all :: "string \<Rightarrow> string \<Rightarrow> string \<Rightarrow> string" where
  "replace_all x y s = join y (split s x)"

text \<open>
  \<^verbatim>\<open>createMarkdownSlide\<close>; the options it gets from \<^verbatim>\<open>slidify\<close> are resolved already.
\<close>

definition with_notes :: "(string \<Rightarrow> string) \<Rightarrow> settings \<Rightarrow> string \<Rightarrow> string" where
  "with_notes marked o' content =
     (let r = caseless (multiline (notes_separator o')); notesMatch = regex_split r content in
      if split_length r content = 2
      then notesMatch ! 0 @ ''<aside class='' @ quoted ''notes'' @ ''>'' @ marked (trim (notesMatch ! 1)) @ ''</aside>''
      else content)"

definition createMarkdownSlide :: "(string \<Rightarrow> string) \<Rightarrow> settings \<Rightarrow> string \<Rightarrow> string" where
  "createMarkdownSlide marked o' content =
     ''<script type='' @ quoted ''text/template'' @ ''>'' @
       replace_all ''</script>'' SCRIPT_END_PLACEHOLDER (with_notes marked o' content) @ ''</script>''"

section \<open>Cutting the text into slides\<close>

text \<open>The entries of \<^verbatim>\<open>sectionStack\<close>: a slide, or an array of slides that are stacked vertically.\<close>

datatype section_entry = Slide string | Stack "string list"

text \<open>\<^verbatim>\<open>sectionStack[sectionStack.length-1].push(content)\<close> throws unless the last entry is an array.\<close>

definition push_last :: "section_entry list \<Rightarrow> string \<Rightarrow> thrown + section_entry list" where
  "push_last st content =
     (if st = [] then Inl (read_error ''undefined'' ''push'')
      else case last st of
        Slide c \<Rightarrow> Inl (ErrorObject ''sectionStack[(sectionStack.length - 1)].push is not a function'')
      | Stack cs \<Rightarrow> Inr (butlast st @ [Stack (cs @ [content])]))"

definition stack_slide :: "bool \<Rightarrow> bool \<Rightarrow> string \<Rightarrow> section_entry list \<Rightarrow> thrown + section_entry list" where
  "stack_slide isHorizontal wasHorizontal content st =
     (let st' = (if \<not> isHorizontal \<and> wasHorizontal then st @ [Stack []] else st) in
      if isHorizontal \<and> wasHorizontal then Inr (st' @ [Slide content]) else push_last st' content)"

text \<open>
  The \<^verbatim>\<open>while\<close> loop and the remaining slide. \<open>l\<close> is the text up to \<^verbatim>\<open>lastIndex\<close>, nearest first, and \<open>s\<close> the text from
  there. After an empty match \<^verbatim>\<open>exec\<close> starts at the same place again, so the loop may go on for ever: then
  the result is \<open>None\<close>.
\<close>

partial_function (option) slide_loop ::
    "regex \<Rightarrow> regex \<Rightarrow> bool \<Rightarrow> section_entry list \<Rightarrow> string \<Rightarrow> string \<Rightarrow> (thrown + section_entry list) option" where
  "slide_loop separatorRegex horizontalRegex wasHorizontal st l s =
     (case search_from separatorRegex l s of
        None \<Rightarrow> Some (if wasHorizontal then Inr (st @ [Slide s]) else push_last st s)
      | Some (u, m, g, r) \<Rightarrow>
          (case stack_slide (regex_test horizontalRegex m) wasHorizontal (drop (length l) u) st of
             Inl t \<Rightarrow> Some (Inl t)
           | Inr st' \<Rightarrow> slide_loop separatorRegex horizontalRegex (regex_test horizontalRegex m) st' (rev (u @ m)) r))"

definition separator_regex :: "settings \<Rightarrow> regex" where
  "separator_regex o' = multiline
     (case vertical_separator o' of None \<Rightarrow> slide_separator o' | Some v \<Rightarrow> Alt (slide_separator o') v)"

fun render_entry :: "(string \<Rightarrow> string) \<Rightarrow> settings \<Rightarrow> section_entry \<Rightarrow> string" where
  "render_entry marked o' (Stack cs) =
     ''<section '' @ slide_attributes o' @ ''>'' @
       concat (map (\<lambda>c. ''<section data-markdown>'' @ createMarkdownSlide marked o' c @ ''</section>'') cs) @ ''</section>''"
| "render_entry marked o' (Slide c) =
     ''<section '' @ slide_attributes o' @ '' data-markdown>'' @ createMarkdownSlide marked o' c @ ''</section>''"

definition slidify :: "(string \<Rightarrow> string) \<Rightarrow> options \<Rightarrow> string \<Rightarrow> options \<Rightarrow> (thrown + string) option" where
  "slidify marked markdownConfig markdown given =
     (let o' = getSlidifyOptions markdownConfig given in
      map_option (map_sum id (\<lambda>st. concat (map (render_entry marked o') st)))
        (slide_loop (separator_regex o') (slide_separator o') True [] [] markdown))"

section \<open>The reference: cut first, then group\<close>

text \<open>The slides with the separator after each, and the last slide.\<close>

function cut :: "regex \<Rightarrow> string \<Rightarrow> string \<Rightarrow> (string \<times> string) list \<times> string" where
  "cut r l s =
     (case search_from r l s of
        None \<Rightarrow> ([], s)
      | Some (u, m, g, s') \<Rightarrow>
          if m = [] then ([], s)
          else (case cut r (rev (u @ m)) s' of (ps, x) \<Rightarrow> ((drop (length l) u, m) # ps, x)))"
  by pat_completeness auto
termination
  by (relation "measure (\<lambda>(r, l, s). length s)") (auto dest: search_from_Some)

declare cut.simps [simp del]

text \<open>A group is what stands between two horizontal separators; a group of one slide is a slide of its own.\<close>

fun slide_groups :: "(string \<times> bool) list \<Rightarrow> string \<Rightarrow> string list list" where
  "slide_groups [] x = [[x]]"
| "slide_groups ((c, horizontal) # ps) x =
     (if horizontal then [c] # slide_groups ps x
      else (c # hd (slide_groups ps x)) # tl (slide_groups ps x))"

fun entry_of :: "string list \<Rightarrow> section_entry" where
  "entry_of [c] = Slide c"
| "entry_of cs = Stack cs"

fun stack_all :: "(string \<times> bool) list \<Rightarrow> string \<Rightarrow> bool \<Rightarrow> section_entry list \<Rightarrow> thrown + section_entry list" where
  "stack_all [] x was st = (if was then Inr (st @ [Slide x]) else push_last st x)"
| "stack_all ((c, h) # ps) x was st = and_then (stack_slide h was c st) (stack_all ps x h)"

lemma slide_groups_not_Nil [simp]: "slide_groups ps x \<noteq> []" "\<forall>g \<in> set (slide_groups ps x). g \<noteq> []"
proof -
  have "slide_groups ps x \<noteq> [] \<and> (\<forall>g \<in> set (slide_groups ps x). g \<noteq> [])"
  proof (induction ps)
    case (Cons p ps)
    then show ?case by (cases p) (auto dest: list.set_sel(2))
  qed simp
  then show "slide_groups ps x \<noteq> []" "\<forall>g \<in> set (slide_groups ps x). g \<noteq> []" by auto
qed

lemma push_last_stack [simp]: "push_last (st @ [Stack cs]) c = Inr (st @ [Stack (cs @ [c])])"
  by (simp add: push_last_def)

lemma entry_of_long: "cs \<noteq> [] \<Longrightarrow> ds \<noteq> [] \<Longrightarrow> entry_of (cs @ ds) = Stack (cs @ ds)"
  by (cases "cs @ ds" rule: entry_of.cases) (auto simp: append_eq_Cons_conv)

lemma stack_all_groups:
  "stack_all ps x True st = Inr (st @ map entry_of (slide_groups ps x)) \<and>
   (cs \<noteq> [] \<longrightarrow> stack_all ps x False (st @ [Stack cs]) =
      Inr (st @ Stack (cs @ hd (slide_groups ps x)) # map entry_of (tl (slide_groups ps x))))"
proof (induction ps arbitrary: st cs)
  case (Cons p ps)
  obtain c h where p: "p = (c, h)" by (cases p)
  have "stack_all ps x False (st @ [Stack [c]]) =
      Inr (st @ Stack (c # hd (slide_groups ps x)) # map entry_of (tl (slide_groups ps x)))"
    using Cons.IH[of st "[c]"] by simp
  moreover have "hd (slide_groups ps x) \<noteq> []" using slide_groups_not_Nil[where ps = ps and x = x] hd_in_set by blast
  ultimately show ?case
    using Cons.IH[of "st @ [Slide c]" cs] Cons.IH[of "st @ [Stack (cs @ [c])]" cs] Cons.IH[of st "cs @ [c]"]
      entry_of_long[of "[c]" "hd (slide_groups ps x)"]
    by (cases h) (simp_all add: p stack_slide_def)
qed simp

lemma slide_loop_cut:
  assumes "never_empty r"
  shows "slide_loop r hor was st l s =
     Some (stack_all (map (\<lambda>(c, m). (c, regex_test hor m)) (fst (cut r l s))) (snd (cut r l s)) was st)"
  using assms
proof (induction r l s arbitrary: was st rule: cut.induct)
  case (1 r l s)
  show ?case
  proof (cases "search_from r l s")
    case None
    then show ?thesis by (simp add: slide_loop.simps cut.simps)
  next
    case (Some y)
    obtain u m g s' where y: "y = (u, m, g, s')" by (cases y)
    with Some search_from_Some[of r l s u m g s'] 1(2) have m: "m \<noteq> []" by (auto simp: never_empty_def)
    obtain ps x where cut: "cut r (rev (u @ m)) s' = (ps, x)" by (cases "cut r (rev (u @ m)) s'")
    note IH = 1(1)[OF Some y[symmetric] refl refl m 1(2)]
    show ?thesis
    proof (cases "stack_slide (regex_test hor m) was (drop (length l) u) st")
      case (Inl t)
      with Some m cut show ?thesis by (simp add: y slide_loop.simps[of r hor was st l s] cut.simps[of r l s])
    next
      case (Inr st')
      with Some m cut IH show ?thesis by (simp add: y slide_loop.simps[of r hor was st l s] cut.simps[of r l s])
    qed
  qed
qed

lemma cut_text: "concat (map (\<lambda>(c, m). c @ m) (fst (cut r l s))) @ snd (cut r l s) = s"
proof (induction r l s rule: cut.induct)
  case (1 r l s)
  show ?case
  proof (cases "search_from r l s")
    case None
    then show ?thesis by (simp add: cut.simps)
  next
    case (Some y)
    obtain u m g s' where y: "y = (u, m, g, s')" by (cases y)
    with Some search_from_Some[of r l s u m g s'] obtain w where "u = rev l @ w" "s = w @ m @ s'" by auto
    obtain ps x where cut: "cut r (rev (u @ m)) s' = (ps, x)" by (cases "cut r (rev (u @ m)) s'")
    then have "cut r l s = (if m = [] then ([], s) else ((drop (length l) u, m) # ps, x))"
      by (simp add: cut.simps[of r l s] Some y)
    with 1[OF Some y[symmetric] refl refl] cut \<open>u = rev l @ w\<close> \<open>s = w @ m @ s'\<close> show ?thesis by auto
  qed
qed

text \<open>Resolving resolved options changes nothing, so \<^verbatim>\<open>createMarkdownSlide\<close> works with those of \<^verbatim>\<open>slidify\<close>.\<close>

definition as_options :: "settings \<Rightarrow> options" where
  "as_options o' =
     \<lparr>separator = Some (slide_separator o'), verticalSeparator = vertical_separator o',
      notesSeparator = Some (notes_separator o'), attributes = slide_attributes o'\<rparr>"

lemma getSlidifyOptions_again:
  "getSlidifyOptions markdownConfig (as_options (getSlidifyOptions markdownConfig given)) = getSlidifyOptions markdownConfig given"
  by (cases "verticalSeparator given"; cases "verticalSeparator markdownConfig") (simp_all add: getSlidifyOptions_def as_options_def)

lemma multiline_Lit: "multiline (Lit w) = Lit w"
  by (induction w rule: Lit.induct) (simp_all add: Lit.simps)

lemma never_empty_default: "never_empty (multiline DEFAULT_SLIDE_SEPARATOR)"
  by (auto simp: never_empty_def DEFAULT_SLIDE_SEPARATOR_def Opt_def multiline_Lit rmatch_Seq)

section \<open>The properties\<close>

text \<open>
  C26: a text is cut into slides at the separators and nothing of it is lost: with separators that match no empty text
  the loop returns, throws nothing, and its sections are the groups of slides between two horizontal separators, a
  group of several slides as a vertical stack; slides and separators, in order, make up the text.
\<close>

theorem slidify_groups:
  assumes "getSlidifyOptions markdownConfig given = o'" and "never_empty (separator_regex o')"
    and "cut (separator_regex o') [] markdown = (ps, x)"
  shows "slidify marked markdownConfig markdown given = Some (Inr (concat (map (render_entry marked o' \<circ> entry_of)
       (slide_groups (map (\<lambda>(c, m). (c, regex_test (slide_separator o') m)) ps) x)))) \<and>
     concat (map (\<lambda>(c, m). c @ m) ps) @ x = markdown"
  using slide_loop_cut[OF assms(2), of "slide_separator o'" True "[]" "[]" markdown]
    cut_text[of "separator_regex o'" "[]" markdown] stack_all_groups[where st = "[]"]
  by (simp add: slidify_def assms(1,3) comp_def)

definition no_options :: options where
  "no_options = \<lparr>separator = None, verticalSeparator = None, notesSeparator = None, attributes = ''''\<rparr>"

definition vertical_options :: options where
  "vertical_options = no_options\<lparr>separator := Some (Lit ''=''), verticalSeparator := Some (Lit ''/'')\<rparr>"

theorem slidify_groups_witness:
  "slidify id no_options ''a/b=c'' vertical_options =
     Some (Inr (render_entry id (getSlidifyOptions no_options vertical_options) (Stack [''a'', ''b'']) @
       render_entry id (getSlidifyOptions no_options vertical_options) (Slide ''c'')))"
proof -
  let ?o = "getSlidifyOptions no_options vertical_options"
  have o': "separator_regex ?o = multiline (Alt (Lit ''='') (Lit ''/''))" "slide_separator ?o = Lit ''=''"
    by (simp_all add: getSlidifyOptions_def vertical_options_def no_options_def separator_regex_def)
  have "never_empty (separator_regex ?o)" by (simp add: o' never_empty_def Lit.simps)
  moreover have "cut (separator_regex ?o) [] ''a/b=c'' = ([(''a'', ''/''), (''b'', ''='')], ''c'')"
    unfolding o' by code_simp
  moreover have "regex_test (Lit ''='') ''/'' = False" "regex_test (Lit ''='') ''='' = True" by code_simp+
  ultimately show ?thesis
    using slidify_groups[of no_options vertical_options ?o "''a/b=c''" "[(''a'', ''/''), (''b'', ''='')]" "''c''" id]
    by (simp add: o')
qed

text \<open>The default separator of the notes does not find a marker after spaces.\<close>

lemma indented_notes_kept:
  "with_notes marked (getSlidifyOptions no_options no_options) (''a'' @ [newline] @ '' Note: b'') = ''a'' @ [newline] @ '' Note: b''"
proof -
  have n: "notes_separator (getSlidifyOptions no_options no_options) = DEFAULT_NOTES_SEPARATOR"
    by (simp add: getSlidifyOptions_def no_options_def)
  have "split_length (caseless (multiline DEFAULT_NOTES_SEPARATOR)) (''a'' @ [newline] @ '' Note: b'') = 1"
    by code_simp
  then show ?thesis by (simp add: with_notes_def n)
qed

lemma notes_found:
  "with_notes id (getSlidifyOptions no_options no_options) (''a'' @ [newline] @ ''Note: b'') =
     ''a'' @ [newline] @ ''<aside class='' @ quoted ''notes'' @ ''>b</aside>''"
proof -
  have n: "notes_separator (getSlidifyOptions no_options no_options) = DEFAULT_NOTES_SEPARATOR"
    by (simp add: getSlidifyOptions_def no_options_def)
  have "split_length (caseless (multiline DEFAULT_NOTES_SEPARATOR)) (''a'' @ [newline] @ ''Note: b'') = 2"
    "regex_split (caseless (multiline DEFAULT_NOTES_SEPARATOR)) (''a'' @ [newline] @ ''Note: b'') = [''a'' @ [newline], '' b'']"
    "trim '' b'' = ''b''"
    by code_simp+
  then show ?thesis by (simp add: with_notes_def n)
qed

end
