(* ===== verification/MarkdownText.thy ===== *)
theory MarkdownText
  imports MarkdownSlides HighlightSteps
begin

text \<open>
  The texts of the slides' Markdown plugin (\<^verbatim>\<open>src/slides/plugin/markdown/plugin.js\<close>): the Markdown of a section with its
  indentation removed (\<^verbatim>\<open>getMarkdownFromSlide\<close>), the attributes passed on to a slide (\<^verbatim>\<open>getForwardedAttributes\<close>), and the
  HTML of a code block (\<^verbatim>\<open>escapeForHTML\<close> and the renderer's \<^verbatim>\<open>code\<close>), whose line numbers the code plugin reads.
\<close>

section \<open>Replacing all matches\<close>

text \<open>\<^verbatim>\<open>s.replace(r, f)\<close> for an expression with the global flag; \<open>f\<close> gets the captures.\<close>

function replace_from :: "regex \<Rightarrow> (captures \<Rightarrow> string) \<Rightarrow> string \<Rightarrow> string \<Rightarrow> string" where
  "replace_from r f l [] = (case match_here r l [] of None \<Rightarrow> [] | Some (m, g, s') \<Rightarrow> f g)"
| "replace_from r f l (c # s) =
     (case match_here r l (c # s) of
        None \<Rightarrow> c # replace_from r f (c # l) s
      | Some (m, g, s') \<Rightarrow>
          if m = [] then f g @ c # replace_from r f (c # l) s
          else f g @ replace_from r f (rev m @ l) s')"
  by pat_completeness auto
termination
  by (relation "measure (\<lambda>(r, f, l, s). length s)") (auto dest!: match_here_Some simp: Cons_eq_append_conv)

definition regex_replace :: "regex \<Rightarrow> (captures \<Rightarrow> string) \<Rightarrow> string \<Rightarrow> string" where
  "regex_replace r f s = replace_from r f [] s"

definition capture :: "captures \<Rightarrow> nat \<Rightarrow> string" where
  "capture g n = (case map_of g n of None \<Rightarrow> ''undefined'' | Some x \<Rightarrow> x)"

section \<open>The Markdown of a section\<close>

definition tab :: char where
  "tab = CHR 0x09"

definition line_char :: "char \<Rightarrow> bool" where
  "line_char c \<longleftrightarrow> code_of c \<notin> {10, 13}"

text \<open>\<^verbatim>\<open>\n?\t{k}(.*)\<close>, and the same with spaces.\<close>

definition indentation_regex :: "char \<Rightarrow> nat \<Rightarrow> regex" where
  "indentation_regex ch k =
     Seq (Opt (Class (\<lambda>c. c = newline))) (Seq (Lit (replicate k ch)) (Group 1 (Star (Class line_char))))"

definition dedent :: "char \<Rightarrow> nat \<Rightarrow> string \<Rightarrow> string" where
  "dedent ch k text' = regex_replace (indentation_regex ch k) (\<lambda>g. newline # capture g 1) text'"

definition after_newline :: "string \<Rightarrow> string" where
  "after_newline s = (case s of [] \<Rightarrow> [] | c # r \<Rightarrow> if c = newline then r else s)"

definition leadingWs :: "string \<Rightarrow> nat" where
  "leadingWs s = length (takeWhile is_space (after_newline s))"

definition leadingTabs :: "string \<Rightarrow> nat" where
  "leadingTabs s = length (takeWhile (\<lambda>c. c = tab) (after_newline s))"

text \<open>\<open>content\<close> is the \<^verbatim>\<open>textContent\<close> of the template, or of the section when it has none.\<close>

definition getMarkdownFromSlide :: "string \<Rightarrow> string" where
  "getMarkdownFromSlide content =
     (let t = replace_all SCRIPT_END_PLACEHOLDER ''</script>'' content in
      if leadingTabs t > 0 then dedent tab (leadingTabs t) t
      else if leadingWs t > 1 then dedent CHR '' '' (leadingWs t) t
      else t)"

section \<open>Forwarded attributes\<close>

definition lower_case :: "string \<Rightarrow> string" where
  "lower_case s = map (\<lambda>c. if is_upper c then char_of (code_of c + 32) else c) s"

definition markdown_attribute :: "string \<Rightarrow> bool" where
  "markdown_attribute name \<longleftrightarrow>
     (\<exists>w \<in> set [''data-markdown'', ''data-separator'', ''data-vertical'', ''data-notes'']. js_includes (lower_case name) w)"

definition forwarded :: "string \<times> string \<Rightarrow> string list" where
  "forwarded a =
     (if markdown_attribute (fst a) then []
      else if snd a \<noteq> [] then [fst a @ ''='' @ quoted (snd a)] else [fst a])"

definition getForwardedAttributes :: "(string \<times> string) list \<Rightarrow> string" where
  "getForwardedAttributes attrs = join '' '' (concat (map forwarded attrs))"

section \<open>Code blocks\<close>

definition HTML_ESCAPE_MAP :: "(char \<times> string) list" where
  "HTML_ESCAPE_MAP =
     [(CHR ''&'', ''&amp;''), (CHR ''<'', ''&lt;''), (CHR ''>'', ''&gt;''), (CHR 0x22, ''&quot;''), (CHR 0x27, ''&#39;'')]"

definition escape_char :: "char \<Rightarrow> string" where
  "escape_char c = (case map_of HTML_ESCAPE_MAP c of None \<Rightarrow> [c] | Some e \<Rightarrow> e)"

definition escapeForHTML :: "string \<Rightarrow> string" where
  "escapeForHTML input = concat (map escape_char input)"

text \<open>\<^verbatim>\<open>/\[\s*((\d*):)?\s*([\s\d,|-]*)\]/\<close>\<close>

definition number_char :: "char \<Rightarrow> bool" where
  "number_char c \<longleftrightarrow> is_space c \<or> is_digit c \<or> c \<in> {CHR '','', CHR ''|'', CHR ''-''}"

definition CODE_LINE_NUMBER_REGEX :: regex where
  "CODE_LINE_NUMBER_REGEX =
     Seq (Class (\<lambda>c. c = CHR ''['')) (Seq (Star (Class is_space))
       (Seq (Opt (Group 1 (Seq (Group 2 (Star (Class is_digit))) (Class (\<lambda>c. c = CHR '':'')))))
         (Seq (Star (Class is_space)) (Seq (Group 3 (Star (Class number_char))) (Class (\<lambda>c. c = CHR '']''))))))"

definition attribute_text :: "string \<Rightarrow> string \<Rightarrow> string" where
  "attribute_text name value = name @ ''='' @ quoted value"

text \<open>A language that is undefined is written as \<^verbatim>\<open>undefined\<close>, both for the test and in the class.\<close>

definition render_code :: "string \<Rightarrow> string option \<Rightarrow> string" where
  "render_code code language' =
     (let language = (case language' of None \<Rightarrow> ''undefined'' | Some x \<Rightarrow> x);
          (lineNumbers, lineNumberOffset, language) =
            (case search CODE_LINE_NUMBER_REGEX language of
               None \<Rightarrow> ('''', '''', language)
             | Some (u, m, g, r) \<Rightarrow>
                 (attribute_text ''data-line-numbers'' (trim (capture g 3)),
                  (case map_of g 2 of
                     None \<Rightarrow> ''''
                   | Some offset \<Rightarrow> if offset = [] then '''' else attribute_text ''data-ln-start-from'' (trim offset)),
                  trim (u @ r)))
      in ''<pre><code '' @ lineNumbers @ '' '' @ lineNumberOffset @ '' '' @ attribute_text ''class'' language @ ''>'' @
           escapeForHTML code @ ''</code></pre>'')"

section \<open>Replacing a text\<close>

text \<open>
  A separator is found at its place when no occurrence starts earlier, inside the part before it. For that it is enough
  that the part does not contain the beginning \<open>p\<close> of the separator, of which no proper end begins the separator.
\<close>

definition clean_start :: "string \<Rightarrow> nat \<Rightarrow> bool" where
  "clean_start sep n \<longleftrightarrow> list_all (\<lambda>k. \<not> prefix (drop k sep) sep) [1..<n]"

lemma early_occurrence:
  assumes "prefix sep (x @ sep @ r)" and "x \<noteq> []" and "clean_start sep n" and "n \<le> length sep"
  shows "prefix (take n sep) x"
proof (cases "n \<le> length x")
  case True
  from assms(1) have "take n sep = take n (x @ sep @ r)" by (metis append_take_drop_id assms(4) min_def prefix_def take_append take_take append_eq_conv_conj)
  with True show ?thesis by (simp add: take_is_prefix)
next
  case False
  from assms(1) obtain q where q: "sep @ q = x @ sep @ r" by (auto elim: prefixE)
  with False assms(4) have "prefix x sep" by (metis append_eq_append_conv2 linorder_not_le order_trans prefix_def prefix_length_le prefixI)
  then obtain d where d: "sep = x @ d" by (auto elim: prefixE)
  with q have "d @ q = sep @ r" by simp
  moreover from d have "length d \<le> length sep" by simp
  ultimately have "prefix d sep" by (metis append_eq_append_conv2 prefixI prefix_length_prefix)
  moreover from d have "d = drop (length x) sep" by simp
  moreover from False assms(2) have "length x \<in> set [1..<n]" by (cases x) auto
  ultimately show ?thesis using assms(3) by (auto simp: clean_start_def list_all_iff)
qed

lemma split_sep_append:
  assumes "clean_start sep n" and "n \<le> length sep" and "0 < n" and "\<not> sublist (take n sep) x"
  shows "split_from sep acc (x @ sep @ r) = (acc @ x) # split_from sep [] r"
  using assms(4)
proof (induction x arbitrary: acc)
  case Nil
  from assms(2,3) obtain c w where s: "sep = c # w" by (cases sep) auto
  then have "prefix sep (c # w @ r)" by (metis append_Cons prefixI)
  with s show ?case by simp
next
  case (Cons c x)
  have "\<not> prefix sep ((c # x) @ sep @ r)"
    using early_occurrence[of sep "c # x" r n] assms(1,2) Cons.prems by (auto dest: prefix_imp_sublist)
  moreover from Cons.prems have "\<not> sublist (take n sep) x" by (auto simp: sublist_Cons_right)
  ultimately show ?case using Cons.IH[of "acc @ [c]"] by simp
qed

lemma split_sep_none: "\<not> sublist sep x \<Longrightarrow> split_from sep acc x = [acc @ x]"
proof (induction x arbitrary: acc)
  case (Cons c x)
  then have "\<not> prefix sep (c # x)" "\<not> sublist sep x" by (auto simp: sublist_Cons_right)
  with Cons.IH[of "acc @ [c]"] show ?case by simp
qed simp

lemma split_join_sep:
  assumes "clean_start sep n" and "n \<le> length sep" and "0 < n"
  shows "xs \<noteq> [] \<Longrightarrow> \<forall>x \<in> set xs. \<not> sublist (take n sep) x \<Longrightarrow> split (join sep xs) sep = xs"
proof (induction xs)
  case (Cons x xs)
  have ne: "sep \<noteq> []" using assms(2,3) by auto
  show ?case
  proof (cases xs)
    case Nil
    have "sublist (take n sep) sep" by (simp add: prefix_imp_sublist take_is_prefix)
    with Cons.prems Nil have "\<not> sublist sep x" using sublist_order.order.trans by auto
    with Nil ne show ?thesis by (simp add: split_def split_sep_none)
  next
    case (Cons y ys)
    with Cons.IH Cons.prems ne show ?thesis by (simp add: split_def split_sep_append[OF assms])
  qed
qed simp

lemma clean_placeholder: "clean_start SCRIPT_END_PLACEHOLDER 12"
  unfolding clean_start_def SCRIPT_END_PLACEHOLDER_def by code_simp

text \<open>What hides the end tags of scripts can be undone, unless the text has the placeholder's beginning.\<close>

lemma script_end_restored:
  assumes "\<not> js_includes c ''__SCRIPT_END''"
  shows "replace_all SCRIPT_END_PLACEHOLDER ''</script>'' (replace_all ''</script>'' SCRIPT_END_PLACEHOLDER c) = c"
proof -
  have t: "take 12 SCRIPT_END_PLACEHOLDER = ''__SCRIPT_END''" "12 \<le> length SCRIPT_END_PLACEHOLDER"
    unfolding SCRIPT_END_PLACEHOLDER_def by code_simp+
  have "\<not> sublist (take 12 SCRIPT_END_PLACEHOLDER) x" if "x \<in> set (split c ''</script>'')" for x
  proof
    assume "sublist (take 12 SCRIPT_END_PLACEHOLDER) x"
    moreover have "sublist x (join ''</script>'' (split c ''</script>''))" using that by (rule join_part_sublist)
    ultimately have "sublist (take 12 SCRIPT_END_PLACEHOLDER) c" unfolding join_split using sublist_order.order.trans by blast
    with assms show False by (simp add: js_includes_sublist t(1))
  qed
  then have "split (join SCRIPT_END_PLACEHOLDER (split c ''</script>'')) SCRIPT_END_PLACEHOLDER = split c ''</script>''"
    by (intro split_join_sep[OF clean_placeholder t(2)]) simp_all
  then show ?thesis by (simp add: replace_all_def join_split)
qed

section \<open>Removing an indentation\<close>

lemma matches_Lit: "matches (Lit w) (l, s, g) = (if prefix w s then [(rev w @ l, drop (length w) s, g)] else [])"
proof (induction w arbitrary: l s rule: Lit.induct)
  case (2 c)
  then show ?case by (cases s) (simp_all add: Lit.simps)
next
  case (3 c d w)
  then show ?case by (cases s) (simp_all add: Lit.simps)
qed (simp add: Lit.simps)

definition no_terminator :: "string \<Rightarrow> bool" where
  "no_terminator x \<longleftrightarrow> (\<forall>c \<in> set x. line_char c)"

lemma newline_terminates [simp]: "\<not> line_char newline"
  by (simp add: line_char_def code_of_def)

lemma rest_of_line:
  "no_terminator x \<Longrightarrow> t = [] \<or> hd t = newline \<Longrightarrow>
     takeWhile line_char (x @ t) = x \<and> dropWhile line_char (x @ t) = t"
  by (cases t) (auto simp: no_terminator_def takeWhile_append2 dropWhile_append2)

lemma match_indented:
  assumes "no_terminator x" and "t = [] \<or> hd t = newline" and "0 < k" and "ch \<noteq> newline" and "nl \<in> {[], [newline]}"
  shows "\<exists>m. m \<noteq> [] \<and> match_here (indentation_regex ch k) l (nl @ replicate k ch @ x @ t) = Some (m, [(1, x)], t)"
proof -
  let ?s = "replicate k ch @ x @ t"
  have line: "\<exists>ms. matches (Seq (Lit (replicate k ch)) (Group 1 (Star (Class line_char)))) (l', ?s, []) =
      (rev x @ rev (replicate k ch) @ l', t, [(1, x)]) # ms" for l'
  proof -
    obtain ms where "matches (Star (Class line_char)) (rev (replicate k ch) @ l', x @ t, []) =
        (rev x @ rev (replicate k ch) @ l', t, []) # ms"
      using matches_Star_Class[of line_char "rev (replicate k ch) @ l'" "x @ t" "[]"] rest_of_line[OF assms(1,2)] by auto
    then show ?thesis by (simp add: matches_Lit)
  qed
  from assms(3,4) obtain r where r: "?s = ch # r" by (cases k) auto
  have "\<exists>l' ms. matches (indentation_regex ch k) (l, nl @ ?s, []) = (l', t, [(1, x)]) # ms"
  proof (cases "nl = []")
    case True
    from line[of l] assms(4) r show ?thesis
      by (simp add: indentation_regex_def Opt_def True) force
  next
    case False
    with assms(5) have nl: "nl = [newline]" by simp
    from line[of "newline # l"] show ?thesis by (simp add: indentation_regex_def Opt_def nl) force
  qed
  then obtain l' ms where ms: "matches (indentation_regex ch k) (l, nl @ ?s, []) = (l', t, [(1, x)]) # ms" by blast
  have "take (length (nl @ ?s) - length t) (nl @ ?s) \<noteq> []" using assms(3) by simp
  with ms show ?thesis by (auto simp: match_here_def)
qed

lemma match_unindented:
  assumes "0 < k" and "ch \<noteq> newline" and "t = [] \<or> hd t \<noteq> ch"
  shows "match_here (indentation_regex ch k) l (newline # t) = None"
proof -
  have "\<not> prefix (replicate k ch) t" "\<not> prefix (replicate k ch) (newline # t)"
    using assms by (cases k; cases t; auto)+
  then show ?thesis by (simp add: match_here_def indentation_regex_def Opt_def matches_Lit)
qed

text \<open>A line of the text: the indentation and the rest, or empty.\<close>

fun indented :: "char \<Rightarrow> nat \<Rightarrow> string option \<Rightarrow> string" where
  "indented ch k None = []"
| "indented ch k (Some x) = replicate k ch @ x"

fun unindented :: "string option \<Rightarrow> string" where
  "unindented None = []"
| "unindented (Some x) = x"

definition good_line :: "string option \<Rightarrow> bool" where
  "good_line x \<longleftrightarrow> (case x of None \<Rightarrow> True | Some y \<Rightarrow> no_terminator y)"

lemma dedent_lines:
  assumes "0 < k" and "ch \<noteq> newline" and "\<forall>x \<in> set xs. good_line x"
  shows "replace_from (indentation_regex ch k) (\<lambda>g. newline # capture g 1) l (concat (map (\<lambda>x. newline # indented ch k x) xs)) =
     concat (map (\<lambda>x. newline # unindented x) xs)"
  using assms(3)
proof (induction xs arbitrary: l)
  case Nil
  from assms(1,2) have "matches (indentation_regex ch k) (l, [], []) = []"
    by (cases k) (auto simp: indentation_regex_def Opt_def matches_Lit)
  then show ?case by (simp add: match_here_def)
next
  case (Cons x xs)
  let ?t = "concat (map (\<lambda>x. newline # indented ch k x) xs)"
  have t: "?t = [] \<or> hd ?t = newline" by (cases xs) simp_all
  show ?case
  proof (cases x)
    case None
    from t assms(2) have "?t = [] \<or> hd ?t \<noteq> ch" by auto
    from match_unindented[OF assms(1,2) this, of l] Cons show ?thesis by (simp add: None)
  next
    case (Some y)
    with Cons.prems have "no_terminator y" by (simp add: good_line_def)
    from match_indented[OF this t assms(1,2), of "[newline]" l] obtain m where
      m: "m \<noteq> []" "match_here (indentation_regex ch k) l (newline # replicate k ch @ y @ ?t) = Some (m, [(1, y)], ?t)" by auto
    with Cons show ?thesis by (simp add: Some capture_def)
  qed
qed

lemma replace_all_none: "\<not> js_includes s x \<Longrightarrow> x \<noteq> [] \<Longrightarrow> replace_all x y s = s"
  by (simp add: replace_all_def split_def split_sep_none js_includes_sublist)

lemma dedent_block:
  assumes "0 < k" and "ch \<noteq> newline" and "no_terminator x" and "\<forall>y \<in> set ys. good_line y" and "nl \<in> {[], [newline]}"
  shows "dedent ch k (nl @ replicate k ch @ x @ concat (map (\<lambda>y. newline # indented ch k y) ys)) =
     newline # x @ concat (map (\<lambda>y. newline # unindented y) ys)"
proof -
  let ?t = "concat (map (\<lambda>y. newline # indented ch k y) ys)"
  have t: "?t = [] \<or> hd ?t = newline" by (cases ys) simp_all
  from match_indented[OF assms(3) t assms(1,2,5), of "[]"] obtain m where
    m: "m \<noteq> []" "match_here (indentation_regex ch k) [] (nl @ replicate k ch @ x @ ?t) = Some (m, [(1, x)], ?t)" by blast
  moreover obtain c r where "nl @ replicate k ch @ x @ ?t = c # r" using assms(1) by (cases k; cases nl) auto
  ultimately show ?thesis
    using dedent_lines[OF assms(1,2,4)] by (simp add: dedent_def regex_replace_def capture_def)
qed

lemma takeWhile_replicate:
  "P ch \<Longrightarrow> x \<noteq> [] \<Longrightarrow> \<not> P (hd x) \<Longrightarrow> takeWhile P (replicate k ch @ x @ t) = replicate k ch"
  by (cases x) (simp, induction k, simp_all)

lemma getMarkdownFromSlide_block:
  fixes ys k ch
  defines "t \<equiv> concat (map (\<lambda>y. newline # indented ch k y) ys)"
  assumes "ch = tab \<and> 0 < k \<and> hd x \<noteq> tab \<or> ch = CHR '' '' \<and> 1 < k \<and> \<not> is_space (hd x)"
    and "x \<noteq> []" and "no_terminator x" and "\<forall>y \<in> set ys. good_line y" and "nl \<in> {[], [newline]}"
    and "\<not> js_includes (nl @ replicate k ch @ x @ t) SCRIPT_END_PLACEHOLDER"
  shows "getMarkdownFromSlide (nl @ replicate k ch @ x @ t) = newline # x @ concat (map (\<lambda>y. newline # unindented y) ys)"
proof -
  from assms(2) have k: "0 < k" "ch \<noteq> newline" by (auto simp: tab_def)
  have "after_newline (nl @ replicate k ch @ x @ t) = replicate k ch @ x @ t"
    using assms(6) k by (cases k) (auto simp: after_newline_def)
  moreover have "tab \<noteq> CHR '' ''" "is_space CHR '' ''" by (simp_all add: tab_def is_space_def code_of_def)
  ultimately have "ch = tab \<and> leadingTabs (nl @ replicate k ch @ x @ t) = k \<or>
      ch = CHR '' '' \<and> leadingTabs (nl @ replicate k ch @ x @ t) = 0 \<and> leadingWs (nl @ replicate k ch @ x @ t) = k \<and> 1 < k"
    using assms(2,3) k takeWhile_replicate[of "\<lambda>c. c = tab" ch x k t] takeWhile_replicate[of is_space ch x k t]
    by (cases k) (auto simp: leadingTabs_def leadingWs_def)
  moreover from assms(7) have "replace_all SCRIPT_END_PLACEHOLDER ''</script>'' (nl @ replicate k ch @ x @ t) = nl @ replicate k ch @ x @ t"
    by (intro replace_all_none) (simp_all add: SCRIPT_END_PLACEHOLDER_def)
  ultimately show ?thesis
    using dedent_block[OF k assms(4-6)] k by (auto simp: getMarkdownFromSlide_def t_def)
qed

text \<open>
  What the two expressions do besides: the indentation is also removed inside a line that does not begin with it, which
  breaks the line there; and a blank line before the text counts as indentation, which is then not found.
\<close>

lemma indentation_inside_a_line:
  "getMarkdownFromSlide (''  first'' @ [newline] @ ''a  b'') = [newline] @ ''first'' @ [newline] @ ''a'' @ [newline] @ ''b''"
  by code_simp

lemma blank_lines_count: "getMarkdownFromSlide ([newline, newline] @ ''  first'') = [newline, newline] @ ''  first''"
  by code_simp

section \<open>Escaping\<close>

text \<open>How a text is read back by an HTML parser that knows the five references.\<close>

function html_decode :: "string \<Rightarrow> string" where
  "html_decode [] = []"
| "html_decode (c # s) =
     (case find (\<lambda>(ch, e). prefix e (c # s)) HTML_ESCAPE_MAP of
        None \<Rightarrow> c # html_decode s
      | Some (ch, e) \<Rightarrow> ch # html_decode (drop (length e) (c # s)))"
  by pat_completeness auto
termination
  by (relation "measure length") (auto simp: HTML_ESCAPE_MAP_def split: if_splits)

lemma escape_char_cases:
  "escape_char c = [c] \<and> c \<notin> set ''&<>'' \<and> c \<noteq> CHR 0x22 \<and> c \<noteq> CHR 0x27 \<or> (c, escape_char c) \<in> set HTML_ESCAPE_MAP"
  by (auto simp: escape_char_def HTML_ESCAPE_MAP_def)

lemma html_decode_escape_char: "html_decode (escape_char c @ s) = c # html_decode s"
  using escape_char_cases[of c] by (elim disjE conjE) (auto simp: HTML_ESCAPE_MAP_def)

lemma html_decode_escape: "html_decode (escapeForHTML s) = s"
  by (induction s) (simp_all add: escapeForHTML_def html_decode_escape_char)

lemma escaped_chars: "c \<in> set (escapeForHTML s) \<Longrightarrow> c \<notin> {CHR ''<'', CHR ''>'', CHR 0x22, CHR 0x27}"
proof -
  assume "c \<in> set (escapeForHTML s)"
  then obtain d where "c \<in> set (escape_char d)" by (auto simp: escapeForHTML_def)
  then show ?thesis using escape_char_cases[of d] by (auto simp: HTML_ESCAPE_MAP_def)
qed

section \<open>Line numbers of a code block\<close>

lemma matches_Star_none: "s = [] \<or> \<not> p (hd s) \<Longrightarrow> matches (Star (Class p)) (l, s, g) = [(l, s, g)]"
  by (cases s) (simp_all add: matches.simps(5))

lemma matches_none: "\<forall>w s'. s = w @ s' \<longrightarrow> \<not> rmatch r l w s' \<Longrightarrow> matches r (l, s, []) = []"
  using match_here_None[of r l s] by (auto simp: match_here_def split: list.splits)

text \<open>A bracket with line numbers and nothing before them; no colon follows, so there is no offset.\<close>

lemma line_number_match:
  assumes "\<forall>c \<in> set x. number_char c" and "x = [] \<or> \<not> is_space (hd x)"
  shows "match_here CODE_LINE_NUMBER_REGEX l (CHR ''['' # x @ CHR '']'' # r) = Some (CHR ''['' # x @ '']'', [(3, x)], r)"
proof -
  let ?s = "x @ CHR '']'' # r" and ?l = "CHR ''['' # l"
  let ?offset = "Group 1 (Seq (Group 2 (Star (Class is_digit))) (Class (\<lambda>c. c = CHR '':'')))"
  have close: "\<not> number_char CHR '']''" "\<not> is_space CHR '']''"
    by (simp_all add: number_char_def js_defs)
  have hd: "?s = [] \<or> \<not> is_space (hd ?s)" using assms(2) close by (cases x) auto
  have "\<not> rmatch (Seq (Group 2 (Star (Class is_digit))) (Class (\<lambda>c. c = CHR '':''))) ?l w s'" if "?s = w @ s'" for w s'
  proof
    assume "rmatch (Seq (Group 2 (Star (Class is_digit))) (Class (\<lambda>c. c = CHR '':''))) ?l w s'"
    then obtain u where u: "w = u @ '':''" "\<forall>c \<in> set u. is_digit c" by (auto simp: rmatch_Seq)
    with that have eq: "x @ CHR '']'' # r = u @ CHR '':'' # s'" by simp
    have "CHR '':'' \<notin> set x" using assms(1) by (auto simp: number_char_def js_defs)
    moreover have "CHR '']'' \<notin> set u" using u(2) by (auto simp: js_defs)
    ultimately show False using eq by (auto simp: append_eq_append_conv2 Cons_eq_append_conv append_eq_Cons_conv)
  qed
  then have "matches (Seq (Group 2 (Star (Class is_digit))) (Class (\<lambda>c. c = CHR '':''))) (?l, ?s, []) = []"
    by (intro matches_none) blast
  then have none: "matches (Opt ?offset) (?l, ?s, []) = [(?l, ?s, [])]" by (simp add: Opt_def)
  have "takeWhile number_char ?s = x" "dropWhile number_char ?s = CHR '']'' # r"
    using assms(1) close by (simp_all add: takeWhile_append2 dropWhile_append2)
  then obtain ms where "matches (Star (Class number_char)) (?l, ?s, []) = (rev x @ ?l, CHR '']'' # r, []) # ms"
    using matches_Star_Class[of number_char ?l ?s "[]"] by auto
  then have "\<exists>l' ms. matches CODE_LINE_NUMBER_REGEX (l, CHR ''['' # ?s, []) = (l', r, [(3, x)]) # ms"
    using none matches_Star_none[where p = is_space, OF hd] by (simp add: CODE_LINE_NUMBER_REGEX_def)
  then show ?thesis by (auto simp: match_here_def)
qed

lemma search_first: "match_here r [] (c # s) = Some (m, g, s') \<Longrightarrow> search_from r [] (c # s) = Some ([], m, g, s')"
  by simp

lemma search_after:
  "\<forall>c \<in> set u. c \<noteq> CHR ''['' \<Longrightarrow>
     search_from CODE_LINE_NUMBER_REGEX l (u @ s) = search_from CODE_LINE_NUMBER_REGEX (rev u @ l) s"
proof (induction u arbitrary: l)
  case (Cons c u)
  then have "match_here CODE_LINE_NUMBER_REGEX l (c # u @ s) = None"
    by (simp add: match_here_def CODE_LINE_NUMBER_REGEX_def)
  with Cons show ?case by simp
qed simp

lemma render_code_numbers:
  assumes "\<forall>c \<in> set lang. c \<noteq> CHR ''[''" and "\<forall>c \<in> set x. number_char c" and "x = [] \<or> \<not> is_space (hd x)"
  shows "render_code code (Some (lang @ ''['' @ x @ '']'')) =
     ''<pre><code '' @ attribute_text ''data-line-numbers'' (trim x) @ ''  '' @ attribute_text ''class'' (trim lang) @
       ''>'' @ escapeForHTML code @ ''</code></pre>''"
proof -
  from line_number_match[OF assms(2,3), of "rev lang" "[]"]
  have "search_from CODE_LINE_NUMBER_REGEX (rev lang) (CHR ''['' # x @ '']'') = Some (lang, CHR ''['' # x @ '']'', [(3, x)], [])" by simp
  with search_after[OF assms(1), of "[]" "CHR ''['' # x @ '']''"]
  have "search CODE_LINE_NUMBER_REGEX (lang @ ''['' @ x @ '']'') = Some (lang, CHR ''['' # x @ '']'', [(3, x)], [])"
    by (simp add: search_def)
  then show ?thesis by (simp add: render_code_def capture_def)
qed

lemma trim_id: "\<forall>c \<in> set x. \<not> is_space c \<Longrightarrow> trim x = x"
proof -
  assume x: "\<forall>c \<in> set x. \<not> is_space c"
  then have "dropWhile is_space y = y" if "set y \<subseteq> set x" for y using that by (cases y) auto
  then show ?thesis by (simp add: trim_def)
qed

lemma serialized_chars:
  assumes "\<forall>hs \<in> set groups. wf_step hs"
  shows "\<forall>c \<in> set (serializeHighlightSteps groups). number_char c \<and> \<not> is_space c"
proof
  fix c assume c: "c \<in> set (serializeHighlightSteps groups)"
  from serialized_char[OF assms c] have "is_digit c \<or> c \<in> {CHR ''|'', CHR '','', CHR ''-''}" .
  moreover have "\<not> is_space d" if "d \<in> {CHR ''|'', CHR '','', CHR ''-''}" for d using that by (auto simp: js_defs)
  ultimately show "number_char c \<and> \<not> is_space c" using digit_facts[of c] by (auto simp only: number_char_def)
qed

section \<open>The properties\<close>

text \<open>
  The Markdown of a section reaches the parser as written: a text that neither begins like the placeholder of script
  end tags nor is indented is what \<^verbatim>\<open>getMarkdownFromSlide\<close> reads from the template that hides its script end tags.
\<close>

lemma slide_text_roundtrip:
  assumes "\<not> js_includes content ''__SCRIPT_END''" and "content = [] \<or> \<not> is_space (hd content)"
  shows "getMarkdownFromSlide (replace_all ''</script>'' SCRIPT_END_PLACEHOLDER content) = content"
proof -
  have "\<not> is_space newline \<Longrightarrow> False" "is_space tab" by (simp_all add: is_space_def code_of_def tab_def)
  with assms(2) have "leadingTabs content = 0" "leadingWs content = 0"
    by (cases content; auto simp: leadingTabs_def leadingWs_def after_newline_def)+
  then show ?thesis by (simp add: getMarkdownFromSlide_def script_end_restored[OF assms(1)])
qed

lemma slide_text_roundtrip_example:
  "getMarkdownFromSlide (replace_all ''</script>'' SCRIPT_END_PLACEHOLDER ''a </script> b'') = ''a </script> b''"
proof (rule slide_text_roundtrip)
  show "\<not> js_includes ''a </script> b'' ''__SCRIPT_END''" by code_simp
  show "''a </script> b'' = [] \<or> \<not> is_space (hd ''a </script> b'')" by code_simp
qed

text \<open>
  An indented text loses exactly its indentation: when every line that is not empty begins with the tabs or spaces of
  the first one, each line comes out without them, and the text starts on a new line.
\<close>

lemma indentation_removed:
  assumes "ch = tab \<and> 0 < k \<and> hd x \<noteq> tab \<or> ch = CHR '' '' \<and> 1 < k \<and> \<not> is_space (hd x)"
    and "x \<noteq> []" and "no_terminator x" and "\<forall>y \<in> set ys. good_line y" and "nl \<in> {[], [newline]}"
    and "\<not> js_includes (nl @ replicate k ch @ x @ concat (map (\<lambda>y. newline # indented ch k y) ys)) SCRIPT_END_PLACEHOLDER"
  shows "getMarkdownFromSlide (nl @ replicate k ch @ x @ concat (map (\<lambda>y. newline # indented ch k y) ys)) =
     newline # x @ concat (map (\<lambda>y. newline # unindented y) ys)"
  using assms by (rule getMarkdownFromSlide_block)

lemma indentation_removed_example:
  "getMarkdownFromSlide ([newline] @ ''  a'' @ [newline, newline] @ ''    b'') = [newline] @ ''a'' @ [newline, newline] @ ''  b''"
proof -
  have "\<not> is_space CHR ''a''" "no_terminator ''a''" "no_terminator ''  b''"
    by (simp_all add: is_space_def no_terminator_def line_char_def code_of_def)
  moreover have "\<not> js_includes ([newline] @ ''  a'' @ [newline, newline] @ ''    b'') SCRIPT_END_PLACEHOLDER"
    unfolding SCRIPT_END_PLACEHOLDER_def by code_simp
  ultimately show ?thesis
    using indentation_removed[of "CHR '' ''" 2 "''a''" "[None, Some ''  b'']" "[newline]"]
    by (simp add: good_line_def numeral_2_eq_2)
qed

text \<open>
  Escaping is undone by the HTML parser and leaves nothing for it to interpret: the escaped text has no angle
  bracket or quotation mark and decodes to the text.
\<close>

lemma escape_decodes:
  "html_decode (escapeForHTML code) = code \<and>
     list_all (\<lambda>c. c \<notin> {CHR ''<'', CHR ''>'', CHR 0x22, CHR 0x27}) (escapeForHTML code)"
  using html_decode_escape escaped_chars by (auto simp: list_all_iff)

text \<open>
  C27: the two plugins agree on line numbers: steps written in brackets after the language of a code block become the
  attribute of the block, and the code plugin reads these steps from it.
\<close>

theorem line_numbers_reach_highlight:
  assumes "groups \<noteq> []" and "\<forall>hs \<in> set groups. wf_step hs" and "\<forall>c \<in> set lang. c \<noteq> CHR ''[''"
  shows "\<exists>attribute.
     render_code code (Some (lang @ ''['' @ serializeHighlightSteps groups @ '']'')) =
       ''<pre><code '' @ attribute_text ''data-line-numbers'' attribute @ ''  '' @ attribute_text ''class'' (trim lang) @
       ''>'' @ escapeForHTML code @ ''</code></pre>'' \<and>
     deserializeHighlightSteps attribute = groups"
proof -
  from serialized_chars[OF assms(2)] have chars: "\<forall>c \<in> set (serializeHighlightSteps groups). number_char c"
    "\<forall>c \<in> set (serializeHighlightSteps groups). \<not> is_space c" by auto
  then have "serializeHighlightSteps groups = [] \<or> \<not> is_space (hd (serializeHighlightSteps groups))"
    by (cases "serializeHighlightSteps groups") auto
  from render_code_numbers[OF assms(3) chars(1) this] show ?thesis
    by (auto simp: trim_id[OF chars(2)] deserialize_serialize[OF assms(1,2)])
qed

theorem line_numbers_reach_highlight_witness:
  "\<exists>attribute. render_code ''a<b'' (Some (''js [1,4-8]'')) =
       ''<pre><code '' @ attribute_text ''data-line-numbers'' attribute @ ''  '' @ attribute_text ''class'' ''js'' @
       ''>'' @ escapeForHTML ''a<b'' @ ''</code></pre>'' \<and>
     deserializeHighlightSteps attribute = [[Single (Some 1), Range (Some 4) 8]]"
proof -
  have "serializeHighlightSteps [[Single (Some 1), Range (Some 4) 8]] = ''1,4-8''" "trim ''js '' = ''js''" by code_simp+
  with line_numbers_reach_highlight[of "[[Single (Some 1), Range (Some 4) 8]]" "''js ''" "''a<b''"] show ?thesis by simp
qed

end
