(* ===== verification/MarkdownLoad.thy ===== *)
theory MarkdownLoad
  imports MarkdownText
begin

text \<open>
  How the slides' Markdown plugin replaces the sections of a presentation
  (\<^verbatim>\<open>src/slides/plugin/markdown/plugin.js\<close>, \<^verbatim>\<open>processSlides\<close> and \<^verbatim>\<open>loadExternalMarkdown\<close>): a section with its own text
  at once, one with an address when its file has been answered, in whatever order the answers come.
\<close>

section \<open>Sections\<close>

text \<open>The attributes \<^verbatim>\<open>data-markdown\<close>, the separators' and all others, and the text.\<close>

record md_section =
  data_markdown :: string
  own_text :: string
  data_separator :: "regex option"
  data_separator_vertical :: "regex option"
  data_separator_notes :: "regex option"
  section_attributes :: "(string \<times> string) list"

definition section_options :: "md_section \<Rightarrow> options" where
  "section_options s =
     \<lparr>separator = data_separator s, verticalSeparator = data_separator_vertical s,
      notesSeparator = data_separator_notes s, attributes = getForwardedAttributes (section_attributes s)\<rparr>"

text \<open>
  What stands at the place of a section: the section, waiting for its file; the HTML it was replaced with; or the section
  still, because its replacement threw or because the loop ended before it.
\<close>

datatype place = Waiting md_section | Replaced string | Failed md_section thrown | Untouched md_section

fun place_of :: "md_section \<Rightarrow> thrown + string \<Rightarrow> place" where
  "place_of s (Inl t) = Failed s t"
| "place_of s (Inr html) = Replaced html"

definition replace_section :: "(string \<Rightarrow> string) \<Rightarrow> options \<Rightarrow> md_section \<Rightarrow> string \<Rightarrow> place option" where
  "replace_section marked markdownConfig s text' =
     map_option (place_of s) (slidify marked markdownConfig text' (section_options s))"

text \<open>
  The loop of \<^verbatim>\<open>processSlides\<close>; \<open>None\<close> when a text is never done. A throw ends it, and the sections after it stay as
  they are.
\<close>

fun process_sections :: "(string \<Rightarrow> string) \<Rightarrow> options \<Rightarrow> md_section list \<Rightarrow> (place list \<times> thrown option) option" where
  "process_sections marked markdownConfig [] = Some ([], None)"
| "process_sections marked markdownConfig (s # ss) =
     (case (if data_markdown s \<noteq> [] then Some (Waiting s)
            else replace_section marked markdownConfig s (getMarkdownFromSlide (own_text s))) of
        None \<Rightarrow> None
      | Some (Failed s' t) \<Rightarrow> Some (Failed s' t # map Untouched ss, Some t)
      | Some p \<Rightarrow> map_option (\<lambda>(ps, e). (p # ps, e)) (process_sections marked markdownConfig ss))"

section \<open>Answers\<close>

text \<open>
  A promise is settled with one value, so the second argument of its handlers, the address, is undefined.
\<close>

definition alert_section :: "jprim \<Rightarrow> nat option \<Rightarrow> string" where
  "alert_section address status' =
     ''<section data-state='' @ quoted ''alert'' @ ''>ERROR: The attempt to fetch '' @ to_string address @
     '' failed with HTTP status '' @ (case status' of None \<Rightarrow> ''undefined'' | Some n \<Rightarrow> nat_to_string n) @ ''.Check your browser'' @ [CHR 0x27] @
     ''s JavaScript console for more details.'' @
     ''<p>Remember that you need to serve the presentation HTML from a HTTP server.</p></section>''"

definition loaded :: "nat option \<Rightarrow> bool" where
  "loaded status' \<longleftrightarrow> (case status' of None \<Rightarrow> False | Some n \<Rightarrow> (200 \<le> n \<and> n < 300) \<or> n = 0)"

definition answered :: "(string \<Rightarrow> string) \<Rightarrow> options \<Rightarrow> md_section \<Rightarrow> nat option \<Rightarrow> string \<Rightarrow> place option" where
  "answered marked markdownConfig s status' responseText =
     (if loaded status' then replace_section marked markdownConfig s responseText
      else Some (Replaced (alert_section Undefined status')))"

text \<open>
  A file is answered, with its status and text. An exception of \<^verbatim>\<open>send\<close> is an answer of status 0 without text. An
  exception of \<^verbatim>\<open>open\<close>, for an address that is none, rejects the promise with the exception, whose status is undefined.
\<close>

datatype load_event = Answered nat "nat option" string

inductive load_step :: "(string \<Rightarrow> string) \<Rightarrow> options \<Rightarrow> place list \<Rightarrow> load_event \<Rightarrow> place list \<Rightarrow> bool"
  for marked :: "string \<Rightarrow> string" and markdownConfig :: options where
  answer: "i < length ps \<Longrightarrow> ps ! i = Waiting s \<Longrightarrow> answered marked markdownConfig s status' responseText = Some p \<Longrightarrow>
    load_step marked markdownConfig ps (Answered i status' responseText) (ps[i := p])"

inductive_simps load_step_iff: "load_step marked markdownConfig ps (Answered i status' responseText) qs"

text \<open>\<^verbatim>\<open>Promise.all\<close>: the slides are converted once every file has replaced its section.\<close>

fun is_replaced :: "place \<Rightarrow> bool" where
  "is_replaced (Replaced h) = True"
| "is_replaced p = False"

definition resolved :: "place list \<Rightarrow> bool" where
  "resolved ps \<longleftrightarrow> list_all is_replaced ps"

section \<open>The order of the answers\<close>

definition answers :: "load_event list \<Rightarrow> nat \<Rightarrow> (nat option \<times> string) option" where
  "answers es = map_of (map (\<lambda>e. case e of Answered i st x \<Rightarrow> (i, (st, x))) es)"

lemma answers_Cons: "answers (Answered i st x # es) = (answers es)(i \<mapsto> (st, x))"
  by (simp add: answers_def)

text \<open>What becomes of a place, given what its file is answered with, if it is.\<close>

definition final_place ::
    "(string \<Rightarrow> string) \<Rightarrow> options \<Rightarrow> place \<Rightarrow> (nat option \<times> string) option \<Rightarrow> place option" where
  "final_place marked markdownConfig p a =
     (case p of
        Waiting s \<Rightarrow> (case a of None \<Rightarrow> Some p | Some (st, x) \<Rightarrow> answered marked markdownConfig s st x)
      | _ \<Rightarrow> Some p)"

lemma not_waiting: "answered marked markdownConfig s st x = Some p \<Longrightarrow> p \<noteq> Waiting s'"
  by (auto simp: answered_def replace_section_def split: if_splits elim: place_of.elims)

lemma load_steps_places:
  "steps (load_step marked markdownConfig) ps es qs \<Longrightarrow>
     length qs = length ps \<and> (\<forall>i < length ps. final_place marked markdownConfig (ps ! i) (answers es i) = Some (qs ! i))"
proof (induction rule: steps.induct)
  case (steps_Nil ps)
  then show ?case by (simp add: answers_def final_place_def split: place.splits)
next
  case (steps_Cons ps e ps' es qs)
  obtain i st x where e: "e = Answered i st x" by (cases e)
  from steps_Cons(1) obtain s p where s: "i < length ps" "ps ! i = Waiting s"
    "answered marked markdownConfig s st x = Some p" "ps' = ps[i := p]" unfolding e by (auto simp: load_step_iff)
  have "final_place marked markdownConfig (ps ! j) (answers (e # es) j) = Some (qs ! j)" if "j < length ps" for j
  proof (cases "j = i")
    case True
    with steps_Cons(3) s have "final_place marked markdownConfig p (answers es i) = Some (qs ! i)" by auto
    then have "qs ! i = p" using not_waiting[OF s(3)] by (auto simp: final_place_def split: place.splits)
    with True s show ?thesis by (simp add: e answers_Cons final_place_def)
  next
    case False
    with steps_Cons(3) s that show ?thesis by (auto simp: e answers_Cons)
  qed
  with steps_Cons(3) s(4) show ?case by simp
qed

text \<open>
  The order in which the files of a presentation arrive does not matter: two runs from the same sections in which
  every file gets the same answer end with the same page, and so both or neither let the slides be converted.
\<close>

lemma load_order_irrelevant:
  assumes "steps (load_step marked markdownConfig) ps es qs" and "steps (load_step marked markdownConfig) ps es' qs'"
    and "answers es = answers es'"
  shows "qs = qs' \<and> resolved qs = resolved qs'"
proof -
  from load_steps_places[OF assms(1)] load_steps_places[OF assms(2)] assms(3) have "qs = qs'"
    by (auto intro: nth_equalityI)
  then show ?thesis by simp
qed

definition file_section :: "string \<Rightarrow> md_section" where
  "file_section address =
     \<lparr>data_markdown = address, own_text = '''', data_separator = None, data_separator_vertical = None,
      data_separator_notes = None, section_attributes = [(''data-markdown'', address), (''class'', ''x'')]\<rparr>"

lemma load_order_irrelevant_example:
  "\<exists>qs. steps (load_step id no_options) [Waiting (file_section ''a.md''), Waiting (file_section ''b.md'')]
       [Answered 0 (Some 404) '''', Answered 1 (Some 500) ''''] qs \<and>
     steps (load_step id no_options) [Waiting (file_section ''a.md''), Waiting (file_section ''b.md'')]
       [Answered 1 (Some 500) '''', Answered 0 (Some 404) ''''] qs \<and> resolved qs"
proof -
  let ?ps = "[Waiting (file_section ''a.md''), Waiting (file_section ''b.md'')]"
  let ?es = "[Answered 0 (Some 404) '''', Answered 1 (Some 500) '''']" and ?es' = "[Answered 1 (Some 500) '''', Answered 0 (Some 404) '''']"
  let ?q = "[Replaced (alert_section Undefined (Some 404)), Replaced (alert_section Undefined (Some 500))]"
  have r1: "steps (load_step id no_options) ?ps ?es ?q" and r2: "\<exists>q. steps (load_step id no_options) ?ps ?es' q"
    by (simp_all add: steps_Cons_iff load_step_iff answered_def loaded_def)
  from r2 obtain q where q: "steps (load_step id no_options) ?ps ?es' q" ..
  have "answers ?es = answers ?es'" by (auto simp: answers_def fun_eq_iff)
  from load_order_irrelevant[OF r1 q this] r1 q show ?thesis by (auto simp: resolved_def)
qed

text \<open>
  A file that cannot be loaded is replaced by an alert that names \<^verbatim>\<open>undefined\<close> in place of the address, whatever file
  it was; the alert counts as a replacement, so the rest of the presentation is converted.
\<close>

lemma failed_load_names_nothing:
  assumes "i < length ps" and "ps ! i = Waiting s" and "\<not> loaded st"
  shows "\<exists>html. load_step marked markdownConfig ps (Answered i st x) (ps[i := Replaced html]) \<and>
     starts_with html (''<section data-state='' @ quoted ''alert'' @ ''>ERROR: The attempt to fetch undefined failed'') \<and>
     html = alert_section Undefined st"
proof -
  have "starts_with (alert_section Undefined st)
      (''<section data-state='' @ quoted ''alert'' @ ''>ERROR: The attempt to fetch undefined failed'')"
    by (simp add: alert_section_def starts_with_def quoted_def)
  with assms show ?thesis by (auto simp: load_step_iff answered_def)
qed

lemma failed_load_names_nothing_example:
  "\<exists>html. load_step id no_options [Waiting (file_section ''a.md'')] (Answered 0 (Some 404) '''') [Replaced html] \<and>
     starts_with html (''<section data-state='' @ quoted ''alert'' @ ''>ERROR: The attempt to fetch undefined failed'')"
  using failed_load_names_nothing[of 0 "[Waiting (file_section ''a.md'')]" "file_section ''a.md''" "Some 404" id no_options "''''"]
  by (auto simp: loaded_def)

end
