(* ===== verification/MarkdownAttributes.thy ===== *)
theory MarkdownAttributes
  imports MarkdownLoad
begin

text \<open>
  How the slides' Markdown plugin turns the comments of a converted slide into attributes
  (\<^verbatim>\<open>src/slides/plugin/markdown/plugin.js\<close>, \<^verbatim>\<open>addAttributeInElement\<close>, \<^verbatim>\<open>addAttributes\<close> and \<^verbatim>\<open>convertSlides\<close>). The nodes of
  the document are numbered; a store holds the attributes of the elements and the texts of the comments, the tree
  itself is not changed by the walk. Parameters are the browser's test of an attribute name and its making of nodes
  from \<^verbatim>\<open>marked\<close>'s HTML.
\<close>

section \<open>The document\<close>

text \<open>An element has its number, its \<^verbatim>\<open>nodeName\<close> and its children.\<close>

datatype dom_node = Element nat string "dom_node list" | Comment nat | Text string

record document =
  element_attributes :: "nat \<Rightarrow> (string \<times> string) list"
  comment_text :: "nat \<Rightarrow> string"

text \<open>An operation leaves a document and perhaps throws.\<close>

type_synonym effect = "document \<times> thrown option"

fun put_attribute :: "string \<Rightarrow> string \<Rightarrow> (string \<times> string) list \<Rightarrow> (string \<times> string) list" where
  "put_attribute k v [] = [(k, v)]"
| "put_attribute k v ((k', v') # kvs) = (if k' = k then (k, v) # kvs else (k', v') # put_attribute k v kvs)"

definition lower_case :: "string \<Rightarrow> string" where
  "lower_case s = map (\<lambda>c. if is_upper c then char_of (code_of c + 32) else c) s"

text \<open>
  \<^verbatim>\<open>elementTarget.setAttribute(name, value)\<close>: a name the browser does not accept throws. The target may be \<^verbatim>\<open>null\<close>.
\<close>

definition set_attribute :: "(string \<Rightarrow> bool) \<Rightarrow> nat option \<Rightarrow> string \<Rightarrow> string \<Rightarrow> document \<Rightarrow> effect" where
  "set_attribute valid_name target name value d =
     (case target of
        None \<Rightarrow> (d, Some (read_error ''null'' ''setAttribute''))
      | Some i \<Rightarrow>
          if \<not> valid_name name then (d, Some (ErrorObject ''InvalidCharacterError''))
          else (d\<lparr>element_attributes := (element_attributes d)
                  (i := put_attribute (lower_case name) value (element_attributes d i))\<rparr>, None))"

section \<open>The attributes in a comment\<close>

text \<open>\<^verbatim>\<open>\.element\s*?(.+?)$\<close> and \<^verbatim>\<open>\.slide:\s*?(\S.+?)$\<close>\<close>

definition DEFAULT_ELEMENT_ATTRIBUTES_SEPARATOR :: regex where
  "DEFAULT_ELEMENT_ATTRIBUTES_SEPARATOR =
     Seq (Lit ''.element'') (Seq (Lazy (Class is_space)) (Seq (Group 1 (LazyPlus (Class line_char))) AtEnd))"

definition DEFAULT_SLIDE_ATTRIBUTES_SEPARATOR :: regex where
  "DEFAULT_SLIDE_ATTRIBUTES_SEPARATOR =
     Seq (Lit ''.slide:'') (Seq (Lazy (Class is_space))
       (Seq (Group 1 (Seq (Class (\<lambda>c. \<not> is_space c)) (LazyPlus (Class line_char)))) AtEnd))"

text \<open>\<^verbatim>\<open>([^"= ]+?)="([^"]+?)"|(data-[^"= ]+?)(?=[" ])\<close>\<close>

definition quote :: char where
  "quote = CHR 0x22"

definition name_char :: "char \<Rightarrow> bool" where
  "name_char c \<longleftrightarrow> c \<noteq> quote \<and> c \<noteq> CHR ''='' \<and> c \<noteq> CHR '' ''"

definition value_char :: "char \<Rightarrow> bool" where
  "value_char c \<longleftrightarrow> c \<noteq> quote"

definition markdownClassRegex :: regex where
  "markdownClassRegex =
     Alt (Seq (Group 1 (LazyPlus (Class name_char)))
           (Seq (Lit [CHR ''='', quote]) (Seq (Group 2 (LazyPlus (Class value_char))) (Lit [quote]))))
         (Seq (Group 3 (Seq (Lit ''data-'') (LazyPlus (Class name_char))))
           (Ahead (Class (\<lambda>c. c = quote \<or> c = CHR '' ''))))"

text \<open>
  The captures of all the matches, as the loop over \<^verbatim>\<open>exec\<close> meets them. Where a match is empty, the loop would find it
  for ever; \<open>markdownClassRegex\<close> has no empty match.
\<close>

function exec_all :: "regex \<Rightarrow> string \<Rightarrow> string \<Rightarrow> captures list" where
  "exec_all r l s =
     (case search_from r l s of
        None \<Rightarrow> []
      | Some (u, m, g, s') \<Rightarrow> if m = [] then [] else g # exec_all r (rev m @ rev u) s')"
  by pat_completeness auto
termination
  by (relation "measure (\<lambda>(r, l, s). length s)") (auto dest!: search_from_Some)

declare exec_all.simps [simp del]

fun set_all :: "(string \<Rightarrow> bool) \<Rightarrow> nat option \<Rightarrow> captures list \<Rightarrow> document \<Rightarrow> effect" where
  "set_all valid_name target [] d = (d, None)"
| "set_all valid_name target (g # gs) d =
     (let value = (case map_of g 2 of None \<Rightarrow> [] | Some v \<Rightarrow> v) in
      case (if value \<noteq> [] then set_attribute valid_name target (capture g 1) value d
            else set_attribute valid_name target (capture g 3) [] d) of
        (d', Some t) \<Rightarrow> (d', Some t)
      | (d', None) \<Rightarrow> set_all valid_name target gs d')"

text \<open>The second component says whether the comment had the pattern.\<close>

definition addAttributeInElement ::
    "(string \<Rightarrow> bool) \<Rightarrow> nat \<Rightarrow> nat option \<Rightarrow> regex \<Rightarrow> document \<Rightarrow> effect \<times> bool" where
  "addAttributeInElement valid_name node elementTarget separator' d =
     (case search (multiline separator') (comment_text d node) of
        None \<Rightarrow> ((d, None), False)
      | Some (u, m, g, s') \<Rightarrow>
          (set_all valid_name elementTarget (exec_all markdownClassRegex [] (capture g 1))
             (d\<lparr>comment_text := (comment_text d)(node := u @ s')\<rparr>), True))"

section \<open>The walk over a slide\<close>

fun node_name :: "dom_node \<Rightarrow> string" where
  "node_name (Element i n cs) = n"
| "node_name (Comment i) = ''#comment''"
| "node_name (Text s) = ''#text''"

fun element_number :: "dom_node \<Rightarrow> nat option" where
  "element_number (Element i n cs) = Some i"
| "element_number _ = None"

text \<open>The nearest earlier sibling that is an element and no line break; \<open>before\<close> holds the siblings, nearest first.\<close>

fun previous_element :: "nat option \<Rightarrow> dom_node list \<Rightarrow> nat option" where
  "previous_element previousParent [] = previousParent"
| "previous_element previousParent (c # cs) =
     (if element_number c \<noteq> None \<and> node_name c \<noteq> ''BR'' then element_number c
      else previous_element previousParent cs)"

text \<open>\<open>separators\<close> are those of an element and of a slide, \<open>section'\<close> is the current section.\<close>

fun addAttributes :: "(string \<Rightarrow> bool) \<Rightarrow> regex \<times> regex \<Rightarrow> nat option \<Rightarrow> dom_node \<Rightarrow> nat option \<Rightarrow> document \<Rightarrow> effect"
  and add_children :: "(string \<Rightarrow> bool) \<Rightarrow> regex \<times> regex \<Rightarrow> nat option \<Rightarrow> nat option \<Rightarrow> dom_node list \<Rightarrow>
      dom_node list \<Rightarrow> document \<Rightarrow> effect" where
  "addAttributes valid_name separators section' (Element i n cs) previousElement d =
     add_children valid_name separators section' (Some i) [] cs d"
| "addAttributes valid_name separators section' (Comment i) previousElement d =
     (case addAttributeInElement valid_name i previousElement (fst separators) d of
        (result', True) \<Rightarrow> result'
      | (result', False) \<Rightarrow> fst (addAttributeInElement valid_name i section' (snd separators) (fst result')))"
| "addAttributes valid_name separators section' (Text s) previousElement d = (d, None)"
| "add_children valid_name separators section' previousParent before [] d = (d, None)"
| "add_children valid_name separators section' previousParent before (c # cs) d =
     (let previous = (if node_name c = ''section'' then element_number c else previous_element previousParent before);
          parentSection = (if node_name c = ''section'' then element_number c else section')
      in case addAttributes valid_name separators parentSection c previous d of
           (d', Some t) \<Rightarrow> (d', Some t)
         | (d', None) \<Rightarrow> add_children valid_name separators section' previous (c # before) cs d')"

section \<open>Converting the slides\<close>

text \<open>
  A slide: its number and children, its text and the separators its own and its parent's attributes give (an empty
  attribute counts as none), the notes it holds, and whether it is marked as converted.
\<close>

record md_slide =
  slide_number :: nat
  slide_children :: "dom_node list"
  slide_text :: string
  own_separators :: "regex option \<times> regex option"
  parent_separators :: "regex option \<times> regex option"
  slide_notes :: "dom_node option"
  parsed :: bool

definition slide_separators :: "md_slide \<Rightarrow> regex \<times> regex" where
  "slide_separators s =
     (or_default (or_else (fst (own_separators s)) (fst (parent_separators s))) DEFAULT_ELEMENT_ATTRIBUTES_SEPARATOR,
      or_default (or_else (snd (own_separators s)) (snd (parent_separators s))) DEFAULT_SLIDE_ATTRIBUTES_SEPARATOR)"

text \<open>\<open>inner_html\<close> makes the nodes of a text, converted by \<^verbatim>\<open>marked\<close>, in a document.\<close>

type_synonym inner_html = "string \<Rightarrow> document \<Rightarrow> dom_node list \<times> document"

definition convert_slide :: "(string \<Rightarrow> bool) \<Rightarrow> inner_html \<Rightarrow> md_slide \<Rightarrow> document \<Rightarrow> md_slide \<times> effect" where
  "convert_slide valid_name html s d =
     (let (nodes, d1) = html (getMarkdownFromSlide (slide_text s)) d;
          s1 = s\<lparr>parsed := True, slide_children := nodes\<rparr>
      in case addAttributes valid_name (slide_separators s) (Some (slide_number s))
                (Element (slide_number s) ''SECTION'' nodes) None d1 of
           (d2, Some t) \<Rightarrow> (s1, d2, Some t)
         | (d2, None) \<Rightarrow>
             (s1\<lparr>slide_children := nodes @ (case slide_notes s of None \<Rightarrow> [] | Some aside \<Rightarrow> [aside])\<rparr>, d2, None))"

fun convertSlides :: "(string \<Rightarrow> bool) \<Rightarrow> inner_html \<Rightarrow> md_slide list \<Rightarrow> document \<Rightarrow> md_slide list \<times> effect" where
  "convertSlides valid_name html [] d = ([], d, None)"
| "convertSlides valid_name html (s # ss) d =
     (if parsed s then (case convertSlides valid_name html ss d of (ss', e) \<Rightarrow> (s # ss', e))
      else case convert_slide valid_name html s d of
        (s', d', Some t) \<Rightarrow> (s' # ss, d', Some t)
      | (s', d', None) \<Rightarrow> (case convertSlides valid_name html ss d' of (ss', e) \<Rightarrow> (s' # ss', e)))"

text \<open>
  The renderer \<^verbatim>\<open>init\<close> gives to \<^verbatim>\<open>marked\<close>: the presentation's own or else one with the plugin's code blocks; with
  \<^verbatim>\<open>animateLists\<close>, list items are fragments either way.
\<close>

record renderer =
  code_html :: "string \<Rightarrow> string option \<Rightarrow> string"
  listitem_html :: "string \<Rightarrow> string"

definition init_renderer :: "renderer \<Rightarrow> renderer option \<Rightarrow> bool \<Rightarrow> renderer" where
  "init_renderer marked_renderer own animateLists =
     (let r = (case own of None \<Rightarrow> marked_renderer\<lparr>code_html := render_code\<rparr> | Some r \<Rightarrow> r) in
      if animateLists then r\<lparr>listitem_html := (\<lambda>x. ''<li class='' @ quoted ''fragment'' @ ''>'' @ x @ ''</li>'')\<rparr>
      else r)"

section \<open>Lazy repetitions\<close>

lemma rmatch_Lazy_imp: "rmatch r l w s \<Longrightarrow> r = Lazy (Class p) \<Longrightarrow> \<forall>c \<in> set w. p c"
  by (induction rule: rmatch.induct) auto

lemma rmatch_LazyPlus_imp: "rmatch (LazyPlus (Class p)) l w s \<Longrightarrow> w \<noteq> [] \<and> (\<forall>c \<in> set w. p c)"
  using rmatch_Lazy_imp[OF _ refl] by (fastforce simp: LazyPlus_def rmatch_Seq)

text \<open>
  What follows a lazy repetition is tried after every prefix, the shortest first; so its first success is after \<open>x\<close>
  when it fails after every proper prefix of \<open>x\<close>.
\<close>

lemma lazy_scan:
  assumes "\<forall>c \<in> set x. p c" and "K (rev x @ l, s, g) = M # ms"
    and "\<And>y z. x = y @ z \<Longrightarrow> z \<noteq> [] \<Longrightarrow> K (rev y @ l, z @ s, g) = []"
  shows "\<exists>ms'. concat (map K (matches (Lazy (Class p)) (l, x @ s, g))) = M # ms'"
  using assms
proof (induction x arbitrary: l)
  case Nil
  then show ?case by (subst matches.simps(12)) simp
next
  case (Cons c x)
  have "K (l, c # x @ s, g) = []" using Cons.prems(3)[of "[]" "c # x"] by simp
  moreover have "\<exists>ms'. concat (map K (matches (Lazy (Class p)) (c # l, x @ s, g))) = M # ms'"
  proof (rule Cons.IH)
    show "K (rev y @ c # l, z @ s, g) = []" if "x = y @ z" "z \<noteq> []" for y z
      using Cons.prems(3)[of "c # y" z] that by simp
  qed (use Cons.prems in auto)
  ultimately show ?case using Cons.prems(1) by (subst matches.simps(12)) simp
qed

lemma lazy_plus_scan:
  assumes "x \<noteq> []" and "\<forall>c \<in> set x. p c" and "K (rev x @ l, s, g) = M # ms"
    and "\<And>y z. x = y @ z \<Longrightarrow> y \<noteq> [] \<Longrightarrow> z \<noteq> [] \<Longrightarrow> K (rev y @ l, z @ s, g) = []"
  shows "\<exists>ms'. concat (map K (matches (LazyPlus (Class p)) (l, x @ s, g))) = M # ms'"
proof -
  from assms(1) obtain c x' where x: "x = c # x'" by (cases x) auto
  have "\<exists>ms'. concat (map K (matches (Lazy (Class p)) (c # l, x' @ s, g))) = M # ms'"
  proof (rule lazy_scan)
    show "K (rev y @ c # l, z @ s, g) = []" if "x' = y @ z" "z \<noteq> []" for y z
      using assms(4)[of "c # y" z] that by (simp add: x)
  qed (use assms in \<open>auto simp: x\<close>)
  then show ?thesis using assms(2) by (simp add: LazyPlus_def x)
qed

section \<open>Attributes as they are written\<close>

datatype comment_attribute = Valued string string | Bare string

fun written_attribute :: "comment_attribute \<Rightarrow> string" where
  "written_attribute (Valued k v) = k @ ''='' @ quoted v"
| "written_attribute (Bare n) = ''data-'' @ n"

definition written_attributes :: "comment_attribute list \<Rightarrow> string" where
  "written_attributes as = concat (map (\<lambda>a. written_attribute a @ '' '') as)"

definition plain_char :: "char \<Rightarrow> bool" where
  "plain_char c \<longleftrightarrow> line_char c \<and> value_char c"

fun wf_attribute :: "comment_attribute \<Rightarrow> bool" where
  "wf_attribute (Valued k v) =
     (k \<noteq> [] \<and> list_all name_char k \<and> list_all plain_char k \<and> v \<noteq> [] \<and> list_all plain_char v)"
| "wf_attribute (Bare n) = (n \<noteq> [] \<and> list_all name_char n \<and> list_all plain_char n)"

fun captured :: "comment_attribute \<Rightarrow> captures" where
  "captured (Valued k v) = [(2, v), (1, k)]"
| "captured (Bare n) = [(3, ''data-'' @ n)]"

lemma quote_chars [simp]: "\<not> name_char quote" "\<not> value_char quote" "\<not> name_char CHR ''=''" "\<not> name_char CHR '' ''"
  by (simp_all add: name_char_def value_char_def)

lemma valued_match:
  assumes "k \<noteq> []" and "\<forall>c \<in> set k. name_char c" and "v \<noteq> []" and "\<forall>c \<in> set v. value_char c"
  shows "match_here markdownClassRegex l (k @ ''='' @ quoted v @ r) =
     Some (k @ ''='' @ quoted v, captured (Valued k v), r)"
proof -
  let ?val = "Seq (Group 2 (LazyPlus (Class value_char))) (Lit [quote])"
  let ?s1 = "CHR ''='' # quote # v @ quote # r" and ?s2 = "v @ quote # r"
  let ?l2 = "quote # CHR ''='' # rev k @ l" and ?g = "[(1, k)]"
  let ?fin = "(quote # rev v @ ?l2, r, (2, v) # ?g)"
  have "\<exists>ms. matches ?val (?l2, ?s2, ?g) = ?fin # ms"
    using lazy_plus_scan[where p = value_char and x = v and l = ?l2 and s = "quote # r" and g = ?g and M = ?fin and ms = "[]" and
        K = "\<lambda>st. matches (Lit [quote]) ((\<lambda>(l, s, g). (l, s, (2, take (length ?s2 - length s) ?s2) # g)) st)"] assms(3,4)
    by (force simp: matches_Lit comp_def neq_Nil_conv)
  then obtain ms where tail: "matches ?val (?l2, ?s2, ?g) = ?fin # ms" ..
  let ?rest = "Seq (Lit [CHR ''='', quote]) ?val"
  have "\<exists>ms. matches (Seq (Group 1 (LazyPlus (Class name_char))) ?rest) (l, k @ ?s1, []) = ?fin # ms"
    using lazy_plus_scan[where p = name_char and x = k and l = l and s = ?s1 and g = "[]" and M = ?fin and ms = ms and
        K = "\<lambda>st. matches ?rest ((\<lambda>(l, s, g). (l, s, (1, take (length (k @ ?s1) - length s) (k @ ?s1)) # g)) st)"] assms(1,2) tail
    by (force simp: matches_Lit comp_def neq_Nil_conv)
  then show ?thesis by (auto simp: match_here_def markdownClassRegex_def quoted_def quote_def numeral_3_eq_3)
qed

lemma name_prefix:
  assumes "k @ c # q = x @ d # r" and "\<forall>c \<in> set k. name_char c" and "\<forall>c \<in> set x. name_char c"
    and "\<not> name_char c" and "\<not> name_char d"
  shows "c = d"
  using assms by (auto simp: append_eq_append_conv2 Cons_eq_append_conv append_eq_Cons_conv)

lemma no_value:
  assumes "\<forall>c \<in> set x. name_char c" and "\<not> name_char d" and "d \<noteq> CHR ''=''" and "x @ d # r = w @ s"
  shows "\<not> rmatch (Seq (Group 1 (LazyPlus (Class name_char))) (Seq (Lit [CHR ''='', quote]) b)) l w s"
proof
  assume "rmatch (Seq (Group 1 (LazyPlus (Class name_char))) (Seq (Lit [CHR ''='', quote]) b)) l w s"
  then obtain k q where "w = k @ CHR ''='' # q" "\<forall>c \<in> set k. name_char c"
    by (fastforce simp: rmatch_Seq dest: rmatch_LazyPlus_imp)
  with assms name_prefix[of k "CHR ''=''" "q @ s" x d r] show False by simp
qed

lemma bare_scan:
  assumes "n \<noteq> []" and "\<forall>c \<in> set n. name_char c"
  shows "\<exists>ms. matches (Seq (Group 3 (Seq (Lit p) (LazyPlus (Class name_char)))) (Ahead (Class (\<lambda>c. c = quote \<or> c = CHR '' ''))))
      (l, p @ n @ CHR '' '' # r, []) = (rev n @ rev p @ l, CHR '' '' # r, [(3, p @ n)]) # ms"
proof -
  let ?s = "CHR '' '' # r" and ?l = "rev p @ l"
  let ?ahead = "Ahead (Class (\<lambda>c. c = quote \<or> c = CHR '' ''))"
  let ?fin = "(rev n @ ?l, ?s, [(3, p @ n)])"
  let ?K = "\<lambda>st. matches ?ahead ((\<lambda>(l, s, g). (l, s, (3, take (length (p @ n @ ?s) - length s) (p @ n @ ?s)) # g)) st)"
  have "\<exists>ms. concat (map ?K (matches (LazyPlus (Class name_char)) (?l, n @ ?s, []))) = ?fin # ms"
  proof (rule lazy_plus_scan[OF assms])
    show "?K (rev n @ ?l, ?s, []) = ?fin # []" by simp
    show "?K (rev y @ ?l, z @ ?s, []) = []" if "n = y @ z" "y \<noteq> []" "z \<noteq> []" for y z
      using that assms(2) by (cases z) (auto simp: name_char_def)
  qed
  then show ?thesis by (simp add: matches_Lit comp_def)
qed

lemma bare_match:
  assumes "n \<noteq> []" and "\<forall>c \<in> set n. name_char c"
  shows "match_here markdownClassRegex l (''data-'' @ n @ CHR '' '' # r) =
     Some (''data-'' @ n, captured (Bare n), CHR '' '' # r)"
proof -
  define p where "p = ''data-''"
  have x: "\<forall>c \<in> set (p @ n). name_char c" using assms(2) by (simp add: p_def name_char_def quote_def)
  have "matches (Seq (Group 1 (LazyPlus (Class name_char)))
      (Seq (Lit [CHR ''='', quote]) (Seq (Group 2 (LazyPlus (Class value_char))) (Lit [quote]))))
      (l, p @ n @ CHR '' '' # r, []) = []"
    using no_value[OF x, of "CHR '' ''" r] by (intro matches_none) auto
  moreover obtain ms where "matches (Seq (Group 3 (Seq (Lit p) (LazyPlus (Class name_char))))
      (Ahead (Class (\<lambda>c. c = quote \<or> c = CHR '' ''))))
      (l, p @ n @ CHR '' '' # r, []) = (rev n @ rev p @ l, CHR '' '' # r, [(3, p @ n)]) # ms"
    using bare_scan[OF assms] by blast
  ultimately have "match_here markdownClassRegex l (p @ n @ CHR '' '' # r) = Some (p @ n, [(3, p @ n)], CHR '' '' # r)"
    by (simp add: match_here_def markdownClassRegex_def p_def[symmetric] del: matches.simps(3,6,13))
  then show ?thesis by (simp add: p_def)
qed

lemma written_match:
  assumes "wf_attribute a"
  shows "match_here markdownClassRegex l (written_attribute a @ CHR '' '' # r) = Some (written_attribute a, captured a, CHR '' '' # r)"
  using assms valued_match[of _ _ l "CHR '' '' # r"] bare_match[of _ l r]
  by (cases a) (simp_all add: list_all_iff plain_char_def)

lemma class_regex_skips:
  assumes "\<not> name_char c \<or> c \<noteq> CHR ''d'' \<and> (s = [] \<or> \<not> name_char (hd s) \<and> hd s \<noteq> CHR ''='')"
  shows "match_here markdownClassRegex l (c # s) = None"
proof (rule match_here_None[THEN iffD2], intro allI impI notI)
  fix w s' assume eq: "c # s = w @ s'" and m: "rmatch markdownClassRegex l w s'"
  show False
  proof (cases "\<exists>k q. w = k @ CHR ''='' # q \<and> k \<noteq> [] \<and> (\<forall>c \<in> set k. name_char c)")
    case True
    then obtain k q where k: "w = k @ CHR ''='' # q" "k \<noteq> []" "\<forall>c \<in> set k. name_char c" by blast
    then obtain k' where "k = c # k'" "s = k' @ CHR ''='' # q @ s'" using eq by (cases k) auto
    with assms k show False by (cases k') auto
  next
    case False
    with m obtain q where "w = ''data-'' @ q"
      by (fastforce simp: markdownClassRegex_def rmatch_Seq dest: rmatch_LazyPlus_imp)
    with eq assms show False by (auto simp: name_char_def quote_def)
  qed
qed

lemma exec_all_skip:
  "match_here r l (c # s) = None \<Longrightarrow> exec_all r l (c # s) = exec_all r (c # l) s"
  by (simp add: exec_all.simps[of r l] exec_all.simps[of r "c # l"])

lemma exec_all_found:
  "match_here r l (c # s) = Some (m, g, s') \<Longrightarrow> m \<noteq> [] \<Longrightarrow> exec_all r l (c # s) = g # exec_all r (rev m @ l) s'"
  by (simp add: exec_all.simps[of r l])

text \<open>The loop over the matches reads the attributes back as they were written, whatever stands before them.\<close>

lemma written_attributes_read:
  "list_all wf_attribute xs \<Longrightarrow> exec_all markdownClassRegex l (written_attributes xs) = map captured xs"
proof (induction xs arbitrary: l)
  case Nil
  have "match_here markdownClassRegex l [] = None"
    by (auto simp: match_here_None markdownClassRegex_def rmatch_Seq dest!: rmatch_LazyPlus_imp)
  then show ?case by (simp add: written_attributes_def exec_all.simps)
next
  case (Cons a xs)
  let ?r = "written_attributes xs"
  from Cons.prems have a: "written_attribute a \<noteq> []" by (cases a) auto
  then obtain c t where t: "written_attribute a = c # t" by (cases "written_attribute a") auto
  have "exec_all markdownClassRegex l (written_attribute a @ CHR '' '' # ?r) =
      captured a # exec_all markdownClassRegex (rev (written_attribute a) @ l) (CHR '' '' # ?r)"
    using exec_all_found[of markdownClassRegex l c "t @ CHR '' '' # ?r"] written_match[of a l ?r] Cons.prems a
    by (simp add: t)
  also have "\<dots> = captured a # map captured xs"
    using Cons by (simp add: exec_all_skip class_regex_skips)
  finally show ?case by (simp add: written_attributes_def)
qed

section \<open>The comment of an element\<close>

lemma separator_skips:
  "CHR ''.'' \<notin> set u \<Longrightarrow>
     search_from (multiline DEFAULT_ELEMENT_ATTRIBUTES_SEPARATOR) l (u @ s) =
     search_from (multiline DEFAULT_ELEMENT_ATTRIBUTES_SEPARATOR) (rev u @ l) s"
proof (induction u arbitrary: l)
  case (Cons c u)
  then have "match_here (multiline DEFAULT_ELEMENT_ATTRIBUTES_SEPARATOR) l (c # u @ s) = None"
    by (auto simp: match_here_None DEFAULT_ELEMENT_ATTRIBUTES_SEPARATOR_def Lit.simps rmatch_Seq)
  with Cons show ?case by simp
qed simp

lemma classes_match:
  assumes "x \<noteq> []" and "\<forall>c \<in> set x. line_char c" and "line_edge t"
  shows "\<exists>ms. matches (Seq (Lit p) (Seq (Lazy (Class is_space)) (Seq (Group 1 (LazyPlus (Class line_char))) LineEnd)))
      (l, p @ x @ t, []) = (rev x @ rev p @ l, t, [(1, x)]) # ms"
proof -
  let ?l = "rev p @ l" and ?fin = "(rev x @ rev p @ l, t, [(1, x)])"
  let ?K = "\<lambda>st. matches LineEnd ((\<lambda>(l, s, g). (l, s, (1, take (length (x @ t) - length s) (x @ t)) # g)) st)"
  have "\<exists>ms. concat (map ?K (matches (LazyPlus (Class line_char)) (?l, x @ t, []))) = ?fin # ms"
  proof (rule lazy_plus_scan[OF assms(1,2)])
    show "?K (rev x @ ?l, t, []) = ?fin # []" using assms(3) by simp
    show "?K (rev y @ ?l, z @ t, []) = []" if "x = y @ z" "y \<noteq> []" "z \<noteq> []" for y z
      using that assms(2) by (cases z) (auto simp: line_edge_def line_char_def)
  qed
  then have "\<exists>ms. matches (Seq (Group 1 (LazyPlus (Class line_char))) LineEnd) (?l, x @ t, []) = ?fin # ms"
    by (simp add: comp_def)
  then show ?thesis by (auto simp: matches_Lit matches.simps(12)[of "Class is_space"])
qed

lemma element_comment_found:
  assumes "CHR ''.'' \<notin> set u" and "x \<noteq> []" and "\<forall>c \<in> set x. line_char c" and "line_edge t"
  shows "search (multiline DEFAULT_ELEMENT_ATTRIBUTES_SEPARATOR) (u @ ''.element'' @ x @ t) =
     Some (u, ''.element'' @ x, [(1, x)], t)"
proof -
  define p where "p = ''.element''"
  obtain ms where "matches (Seq (Lit p) (Seq (Lazy (Class is_space)) (Seq (Group 1 (LazyPlus (Class line_char))) LineEnd)))
      (rev u, p @ x @ t, []) = (rev x @ rev p @ rev u, t, [(1, x)]) # ms"
    using classes_match[OF assms(2-4)] by blast
  then have m: "match_here (multiline DEFAULT_ELEMENT_ATTRIBUTES_SEPARATOR) (rev u) (p @ x @ t) = Some (p @ x, [(1, x)], t)"
    by (simp add: match_here_def DEFAULT_ELEMENT_ATTRIBUTES_SEPARATOR_def LazyPlus_def multiline_Lit p_def[symmetric]
        del: matches.simps(3,6,12))
  moreover obtain c y where "p @ x @ t = c # y" by (simp add: p_def)
  ultimately have "search_from (multiline DEFAULT_ELEMENT_ATTRIBUTES_SEPARATOR) (rev u) (p @ x @ t) = Some (u, p @ x, [(1, x)], t)"
    by simp
  with separator_skips[OF assms(1), of "[]"] show ?thesis by (simp add: search_def p_def)
qed

text \<open>The attributes of an element after those of a comment.\<close>

fun put_written :: "comment_attribute \<Rightarrow> (string \<times> string) list \<Rightarrow> (string \<times> string) list" where
  "put_written (Valued k v) kvs = put_attribute (lower_case k) v kvs"
| "put_written (Bare n) kvs = put_attribute (lower_case (''data-'' @ n)) [] kvs"

fun written_name :: "comment_attribute \<Rightarrow> string" where
  "written_name (Valued k v) = k"
| "written_name (Bare n) = ''data-'' @ n"

lemma set_all_written:
  assumes "list_all wf_attribute xs" and "list_all (\<lambda>a. valid_name (written_name a)) xs"
  shows "set_all valid_name (Some i) (map captured xs) d =
     (d\<lparr>element_attributes := (element_attributes d)(i := fold put_written xs (element_attributes d i))\<rparr>, None)"
  using assms
proof (induction xs arbitrary: d)
  case (Cons a xs)
  define d' where "d' = d\<lparr>element_attributes := (element_attributes d)(i := put_written a (element_attributes d i))\<rparr>"
  have "set_all valid_name (Some i) (map captured (a # xs)) d = set_all valid_name (Some i) (map captured xs) d'"
    using Cons.prems by (cases a) (simp_all add: set_attribute_def capture_def d'_def)
  also have "\<dots> = (d'\<lparr>element_attributes := (element_attributes d')(i := fold put_written xs (element_attributes d' i))\<rparr>, None)"
    using Cons.prems by (intro Cons.IH) simp_all
  also have "\<dots> = (d\<lparr>element_attributes := (element_attributes d)(i := fold put_written (a # xs) (element_attributes d i))\<rparr>, None)"
    unfolding d'_def by (cases d) simp
  finally show ?case .
qed simp

lemma written_line_chars: "list_all wf_attribute xs \<Longrightarrow> c \<in> set (written_attributes xs) \<Longrightarrow> line_char c"
proof (induction xs)
  case (Cons a xs)
  then show ?case
    by (cases a) (auto simp: written_attributes_def quoted_def list_all_iff plain_char_def line_char_def js_defs)
qed (simp add: written_attributes_def)

text \<open>
  C34: a comment \<open>.element: ...\<close> gives an element the attributes written in it: whatever well-formed
  list of attributes, with values or bare \<open>data-\<close> names, is written after the mark, the element gets exactly
  these, in this order and over those it has, no other element is changed, and the text from the mark to the end of its line is cut out
  of the comment.
\<close>

theorem comment_sets_attributes:
  assumes "comment_text d node = before @ ''.element: '' @ written_attributes xs @ after"
    and "CHR ''.'' \<notin> set before" and "line_edge after"
    and "list_all wf_attribute xs" and "list_all (\<lambda>a. valid_name (written_name a)) xs"
  shows "addAttributes valid_name (DEFAULT_ELEMENT_ATTRIBUTES_SEPARATOR, slide) sec (Comment node) (Some i) d =
     (d\<lparr>comment_text := (comment_text d)(node := before @ after),
        element_attributes := (element_attributes d)(i := fold put_written xs (element_attributes d i))\<rparr>, None)"
proof -
  let ?x = "'': '' @ written_attributes xs"
  have "\<forall>c \<in> set ?x. line_char c" using written_line_chars[OF assms(4)] by (auto simp: line_char_def js_defs)
  from element_comment_found[OF assms(2) _ this assms(3)]
  have "search (multiline DEFAULT_ELEMENT_ATTRIBUTES_SEPARATOR) (comment_text d node) =
      Some (before, ''.element'' @ ?x, [(1, ?x)], after)" by (simp add: assms(1))
  moreover have "exec_all markdownClassRegex [] ?x = map captured xs"
    using written_attributes_read[OF assms(4)] by (simp add: exec_all_skip class_regex_skips name_char_def)
  ultimately show ?thesis
    using set_all_written[OF assms(4,5)] by (simp add: addAttributeInElement_def capture_def)
qed

definition comment_example :: document where
  "comment_example = \<lparr>element_attributes = (\<lambda>i. if i = 1 then [(''class'', ''a'')] else []),
     comment_text = (\<lambda>i. '' .element: class='' @ quoted ''fragment'' @ '' data-fade '')\<rparr>"

theorem comment_sets_attributes_witness:
  "let (d, e) = addAttributes (\<lambda>n. n \<noteq> []) (DEFAULT_ELEMENT_ATTRIBUTES_SEPARATOR, DEFAULT_SLIDE_ATTRIBUTES_SEPARATOR) None
       (Comment 2) (Some 1) comment_example
   in e = None \<and> comment_text d 2 = '' '' \<and>
      element_attributes d 1 = [(''class'', ''fragment''), (''data-fade'', '''')] \<and> element_attributes d 0 = []"
proof -
  let ?xs = "[Valued ''class'' ''fragment'', Bare ''fade'']"
  have "comment_text comment_example 2 = '' '' @ ''.element: '' @ written_attributes ?xs @ []"
    by (simp add: comment_example_def written_attributes_def quoted_def)
  moreover have "list_all wf_attribute ?xs" by (simp add: name_char_def plain_char_def line_char_def value_char_def quote_def js_defs)
  ultimately show ?thesis
    by (subst comment_sets_attributes[where before = "'' ''" and xs = ?xs and after = "[]"])
       (simp_all add: line_edge_def comment_example_def lower_case_def js_defs)
qed

section \<open>The attributes a slide asks for\<close>

text \<open>
  The attributes that the comments of a slide ask for, in the order of the walk, each with its target, its name and
  its value: what the walk would set if nothing were ever refused. \<open>texts\<close> gives the text of each comment.
\<close>

type_synonym setting = "nat option \<times> string \<times> string"

definition setting_of :: "nat option \<Rightarrow> captures \<Rightarrow> setting" where
  "setting_of target g =
     (let value = (case map_of g 2 of None \<Rightarrow> [] | Some v \<Rightarrow> v) in
      (target, if value \<noteq> [] then (capture g 1, value) else (capture g 3, [])))"

definition comment_settings :: "regex \<Rightarrow> nat option \<Rightarrow> string \<Rightarrow> setting list option" where
  "comment_settings separator' target s =
     (case search (multiline separator') s of
        None \<Rightarrow> None
      | Some (u, m, g, s') \<Rightarrow> Some (map (setting_of target) (exec_all markdownClassRegex [] (capture g 1))))"

fun node_settings :: "regex \<times> regex \<Rightarrow> nat option \<Rightarrow> dom_node \<Rightarrow> nat option \<Rightarrow> (nat \<Rightarrow> string) \<Rightarrow> setting list"
  and child_settings :: "regex \<times> regex \<Rightarrow> nat option \<Rightarrow> nat option \<Rightarrow> dom_node list \<Rightarrow> dom_node list \<Rightarrow>
      (nat \<Rightarrow> string) \<Rightarrow> setting list" where
  "node_settings separators section' (Element i n cs) previousElement texts =
     child_settings separators section' (Some i) [] cs texts"
| "node_settings separators section' (Comment i) previousElement texts =
     (case comment_settings (fst separators) previousElement (texts i) of
        Some xs \<Rightarrow> xs
      | None \<Rightarrow> (case comment_settings (snd separators) section' (texts i) of Some xs \<Rightarrow> xs | None \<Rightarrow> []))"
| "node_settings separators section' (Text s) previousElement texts = []"
| "child_settings separators section' previousParent before [] texts = []"
| "child_settings separators section' previousParent before (c # cs) texts =
     (let previous = (if node_name c = ''section'' then element_number c else previous_element previousParent before);
          parentSection = (if node_name c = ''section'' then element_number c else section')
      in node_settings separators parentSection c previous texts @
           child_settings separators section' previous (c # before) cs texts)"

fun comments_of :: "dom_node \<Rightarrow> nat list" where
  "comments_of (Element i n cs) = concat (map comments_of cs)"
| "comments_of (Comment i) = [i]"
| "comments_of (Text s) = []"

text \<open>An attribute is refused when it has no target or the browser does not accept its name.\<close>

definition refused :: "(string \<Rightarrow> bool) \<Rightarrow> setting \<Rightarrow> bool" where
  "refused valid_name x \<longleftrightarrow> fst x = None \<or> \<not> valid_name (fst (snd x))"

definition refusal_error :: "setting \<Rightarrow> thrown" where
  "refusal_error x =
     (if fst x = None then read_error ''null'' ''setAttribute'' else ErrorObject ''InvalidCharacterError'')"

type_synonym attributes = "nat \<Rightarrow> (string \<times> string) list"

definition put_setting :: "setting \<Rightarrow> attributes \<Rightarrow> attributes" where
  "put_setting x as =
     (case x of
        (None, name, value) \<Rightarrow> as
      | (Some i, name, value) \<Rightarrow> as(i := put_attribute (lower_case name) value (as i)))"

text \<open>All attributes up to the first that is refused are set; the error is that one's.\<close>

definition settings_effect :: "(string \<Rightarrow> bool) \<Rightarrow> setting list \<Rightarrow> attributes \<Rightarrow> attributes \<times> thrown option" where
  "settings_effect valid_name xs as =
     (fold put_setting (takeWhile (\<lambda>x. \<not> refused valid_name x) xs) as,
      map_option refusal_error (find (refused valid_name) xs))"

lemma settings_effect_simps [simp]:
  "settings_effect valid_name [] as = (as, None)"
  "settings_effect valid_name (x # xs) as =
     (if refused valid_name x then (as, Some (refusal_error x)) else settings_effect valid_name xs (put_setting x as))"
  by (simp_all add: settings_effect_def)

lemma settings_effect_append:
  "settings_effect valid_name (xs @ ys) as =
     (case settings_effect valid_name xs as of
        (as', Some t) \<Rightarrow> (as', Some t)
      | (as', None) \<Rightarrow> settings_effect valid_name ys as')"
  by (induction xs arbitrary: as) auto

lemma settings_effect_error:
  "snd (settings_effect valid_name xs as) = map_option refusal_error (find (refused valid_name) xs)"
  by (simp add: settings_effect_def)

text \<open>A document after a list of settings, whatever became of the texts of the comments numbered \<open>is\<close>.\<close>

definition has_effect :: "(string \<Rightarrow> bool) \<Rightarrow> setting list \<Rightarrow> nat list \<Rightarrow> document \<Rightarrow> effect \<Rightarrow> bool" where
  "has_effect valid_name xs is d r \<longleftrightarrow>
     (element_attributes (fst r), snd r) = settings_effect valid_name xs (element_attributes d) \<and>
     (\<forall>i. i \<notin> set is \<longrightarrow> comment_text (fst r) i = comment_text d i)"

lemma set_all_effect: "has_effect valid_name (map (setting_of target) gs) [] d (set_all valid_name target gs d)"
proof (induction gs arbitrary: d)
  case Nil
  show ?case by (simp add: has_effect_def)
next
  case (Cons g gs)
  show ?case
    using Cons.IH
    by (cases target)
       (auto simp: has_effect_def set_attribute_def setting_of_def refused_def refusal_error_def put_setting_def Let_def)
qed

lemma comment_effect:
  "case comment_settings separator' target (comment_text d i) of
     None \<Rightarrow> addAttributeInElement valid_name i target separator' d = ((d, None), False)
   | Some xs \<Rightarrow> snd (addAttributeInElement valid_name i target separator' d) \<and>
       has_effect valid_name xs [i] d (fst (addAttributeInElement valid_name i target separator' d))"
  using set_all_effect
  by (fastforce simp: addAttributeInElement_def comment_settings_def has_effect_def split: option.splits prod.splits)

lemma has_effect_seq:
  assumes "has_effect valid_name xs is d (d', e)"
    and "case e of Some t \<Rightarrow> r = (d', e) | None \<Rightarrow> has_effect valid_name ys js d' r"
  shows "has_effect valid_name (xs @ ys) (is @ js) d r"
  using assms by (cases e) (auto simp: has_effect_def settings_effect_append split: prod.splits option.splits)

lemma walk_effect:
  "distinct (comments_of x) \<Longrightarrow> \<forall>i \<in> set (comments_of x). comment_text d i = texts i \<Longrightarrow>
     has_effect valid_name (node_settings separators section' x previousElement texts) (comments_of x) d
       (addAttributes valid_name separators section' x previousElement d)"
  "distinct (concat (map comments_of cs)) \<Longrightarrow> \<forall>i \<in> set (concat (map comments_of cs)). comment_text d i = texts i \<Longrightarrow>
     has_effect valid_name (child_settings separators section' previousParent before cs texts) (concat (map comments_of cs)) d
       (add_children valid_name separators section' previousParent before cs d)"
proof (induction valid_name separators section' x previousElement d and valid_name separators section' previousParent before cs d
    rule: addAttributes_add_children.induct)
  case (2 valid_name separators section' i previousElement d)
  show ?case
    using 2 comment_effect[where separator' = "fst separators" and target = previousElement and d = d and i = i and valid_name = valid_name]
      comment_effect[where separator' = "snd separators" and target = section' and d = d and i = i and valid_name = valid_name]
    by (auto simp: has_effect_def split: option.splits prod.splits bool.splits)
next
  case (5 valid_name separators section' previousParent before c cs d)
  define previous where "previous = (if node_name c = ''section'' then element_number c else previous_element previousParent before)"
  define sec where "sec = (if node_name c = ''section'' then element_number c else section')"
  obtain d' e where r: "addAttributes valid_name separators sec c previous d = (d', e)" by fastforce
  have one: "has_effect valid_name (node_settings separators sec c previous texts) (comments_of c) d (d', e)"
    using 5(1)[OF previous_def sec_def] 5(3,4) by (simp add: r)
  have "case e of Some t \<Rightarrow> add_children valid_name separators section' previousParent before (c # cs) d = (d', e)
     | None \<Rightarrow> has_effect valid_name (child_settings separators section' previous (c # before) cs texts)
         (concat (map comments_of cs)) d' (add_children valid_name separators section' previousParent before (c # cs) d)"
  proof (cases e)
    case None
    have "\<forall>i \<in> set (concat (map comments_of cs)). comment_text d' i = texts i"
      using one 5(3,4) by (fastforce simp: has_effect_def)
    then show ?thesis
      using 5(2)[OF previous_def sec_def r[symmetric] None] 5(3) r None
      by (simp add: previous_def[symmetric] sec_def[symmetric] Let_def)
  qed (simp add: r previous_def[symmetric] sec_def[symmetric] Let_def)
  from has_effect_seq[OF one this] show ?case
    by (simp add: previous_def[symmetric] sec_def[symmetric] Let_def)
qed (simp_all add: has_effect_def)

section \<open>Conversion\<close>

text \<open>The slide as it is converted, with its notes or, when an attribute was refused, without.\<close>

definition converted :: "dom_node list \<Rightarrow> bool \<Rightarrow> md_slide \<Rightarrow> md_slide" where
  "converted nodes with_notes' s =
     s\<lparr>parsed := True, slide_children := nodes @
       (if with_notes' then (case slide_notes s of None \<Rightarrow> [] | Some aside \<Rightarrow> [aside]) else [])\<rparr>"

text \<open>
  The nodes made of a slide's Markdown, the attributes they have from the start, and those their comments ask for;
  the slides, the document and the error after a conversion.
\<close>

definition slide_nodes :: "inner_html \<Rightarrow> md_slide \<Rightarrow> document \<Rightarrow> dom_node list" where
  "slide_nodes html s d = fst (html (getMarkdownFromSlide (slide_text s)) d)"

definition first_attributes :: "inner_html \<Rightarrow> md_slide \<Rightarrow> document \<Rightarrow> attributes" where
  "first_attributes html s d = element_attributes (snd (html (getMarkdownFromSlide (slide_text s)) d))"

definition asked_settings :: "inner_html \<Rightarrow> md_slide \<Rightarrow> document \<Rightarrow> setting list" where
  "asked_settings html s d =
     node_settings (slide_separators s) (Some (slide_number s)) (Element (slide_number s) ''SECTION'' (slide_nodes html s d))
       None (comment_text (snd (html (getMarkdownFromSlide (slide_text s)) d)))"

definition slides_after :: "(string \<Rightarrow> bool) \<Rightarrow> inner_html \<Rightarrow> md_slide list \<Rightarrow> document \<Rightarrow> md_slide list" where
  "slides_after valid_name html ss d = fst (convertSlides valid_name html ss d)"

definition document_after :: "(string \<Rightarrow> bool) \<Rightarrow> inner_html \<Rightarrow> md_slide list \<Rightarrow> document \<Rightarrow> document" where
  "document_after valid_name html ss d = fst (snd (convertSlides valid_name html ss d))"

definition conversion_error :: "(string \<Rightarrow> bool) \<Rightarrow> inner_html \<Rightarrow> md_slide list \<Rightarrow> document \<Rightarrow> thrown option" where
  "conversion_error valid_name html ss d = snd (snd (convertSlides valid_name html ss d))"

lemmas conversion_defs = slides_after_def document_after_def conversion_error_def

text \<open>No comment of a slide's nodes occurs in them twice.\<close>

definition makes_nodes :: "inner_html \<Rightarrow> bool" where
  "makes_nodes html \<longleftrightarrow> (\<forall>x d. distinct (concat (map comments_of (fst (html x d)))))"

lemma convert_slide_effect:
  assumes "makes_nodes html" and "convert_slide valid_name html s d = (s', d', e)"
  shows "s' = converted (slide_nodes html s d) (e = None) s"
    and "(element_attributes d', e) = settings_effect valid_name (asked_settings html s d) (first_attributes html s d)"
proof -
  obtain nodes d1 where h: "html (getMarkdownFromSlide (slide_text s)) d = (nodes, d1)" by fastforce
  let ?x = "Element (slide_number s) ''SECTION'' nodes"
  have nodes: "slide_nodes html s d = nodes" by (simp add: slide_nodes_def h)
  have "distinct (comments_of ?x)" using assms(1) by (simp add: makes_nodes_def) (metis fst_conv h)
  from walk_effect(1)[OF this, of d1 "comment_text d1" valid_name "slide_separators s" "Some (slide_number s)" None]
  have "has_effect valid_name (asked_settings html s d) (comments_of ?x) d1
      (addAttributes valid_name (slide_separators s) (Some (slide_number s)) ?x None d1)"
    by (simp add: asked_settings_def slide_nodes_def h)
  with assms(2) show "s' = converted (slide_nodes html s d) (e = None) s"
    and "(element_attributes d', e) = settings_effect valid_name (asked_settings html s d) (first_attributes html s d)"
    unfolding nodes
    by (auto simp: convert_slide_def h has_effect_def converted_def first_attributes_def split: prod.splits option.splits)
qed

lemma convertSlides_append:
  "convertSlides valid_name html (xs @ ys) d =
     (case convertSlides valid_name html xs d of
        (xs', d', Some t) \<Rightarrow> (xs' @ ys, d', Some t)
      | (xs', d', None) \<Rightarrow> (case convertSlides valid_name html ys d' of (ys', e) \<Rightarrow> (xs' @ ys', e)))"
  by (induction xs arbitrary: d) (auto split: prod.splits option.splits)

lemma convertSlides_parsed_same:
  "convertSlides valid_name html ss d = (ts, r) \<Longrightarrow> list_all2 (\<lambda>s t. parsed s \<longrightarrow> t = s) ss ts"
  by (induction ss arbitrary: d ts r) (auto split: prod.splits option.splits if_splits simp: list_all2_refl)

lemma convertSlides_length: "length (fst (convertSlides valid_name html ss d)) = length ss"
  by (cases "convertSlides valid_name html ss d") (use convertSlides_parsed_same in \<open>fastforce dest: list_all2_lengthD\<close>)

lemma converted_all:
  "convertSlides valid_name html ss d = (ts, d', None) \<Longrightarrow> list_all parsed ts"
proof (induction ss arbitrary: d ts)
  case (Cons s ss)
  then show ?case
    by (auto simp: convert_slide_def split: prod.splits option.splits if_splits)
qed simp

lemma all_parsed_same: "list_all parsed ss \<Longrightarrow> convertSlides valid_name html ss d = (ss, d, None)"
  by (induction ss) simp_all

text \<open>The slide a conversion has come to.\<close>

lemma slide_reached:
  assumes "makes_nodes html" and "conversion_error valid_name html pre d = None" and "\<not> parsed s"
  defines "d' \<equiv> document_after valid_name html pre d"
  shows "slides_after valid_name html (pre @ s # post) d ! length pre =
      converted (slide_nodes html s d') (find (refused valid_name) (asked_settings html s d') = None) s"
    and "element_attributes (document_after valid_name html (pre @ [s]) d) =
      fst (settings_effect valid_name (asked_settings html s d') (first_attributes html s d'))"
    and "find (refused valid_name) (asked_settings html s d') = Some x \<Longrightarrow>
      convertSlides valid_name html (pre @ s # post) d =
        (slides_after valid_name html pre d @ converted (slide_nodes html s d') False s # post,
         document_after valid_name html (pre @ [s]) d, Some (refusal_error x))"
    and "find (refused valid_name) (asked_settings html s d') = None \<Longrightarrow> conversion_error valid_name html (pre @ [s]) d = None"
proof -
  obtain pre' where p: "convertSlides valid_name html pre d = (pre', d', None)"
    using assms(2) by (cases "convertSlides valid_name html pre d") (auto simp: conversion_defs d'_def)
  then have len: "length pre' = length pre" using convertSlides_length[of valid_name html pre d] by simp
  obtain s' d2 e where c: "convert_slide valid_name html s d' = (s', d2, e)" by (metis prod_cases3)
  note effect = convert_slide_effect[OF assms(1) c]
  have e: "e = map_option refusal_error (find (refused valid_name) (asked_settings html s d'))"
    using arg_cong[OF effect(2), of snd] by (simp add: settings_effect_error)
  show "slides_after valid_name html (pre @ s # post) d ! length pre =
      converted (slide_nodes html s d') (find (refused valid_name) (asked_settings html s d') = None) s"
    using effect(1) e assms(3) by (auto simp: slides_after_def convertSlides_append p c nth_append len split: prod.splits option.splits)
  show "element_attributes (document_after valid_name html (pre @ [s]) d) =
      fst (settings_effect valid_name (asked_settings html s d') (first_attributes html s d'))"
    using arg_cong[OF effect(2), of fst] assms(3) by (cases e) (simp_all add: document_after_def convertSlides_append p c)
  show "convertSlides valid_name html (pre @ s # post) d =
        (slides_after valid_name html pre d @ converted (slide_nodes html s d') False s # post,
         document_after valid_name html (pre @ [s]) d, Some (refusal_error x))"
    if "find (refused valid_name) (asked_settings html s d') = Some x"
    using effect(1) e that assms(3) by (simp add: conversion_defs convertSlides_append p c)
  show "conversion_error valid_name html (pre @ [s]) d = None"
    if "find (refused valid_name) (asked_settings html s d') = None"
    using e that assms(3) by (simp add: conversion_defs convertSlides_append p c)
qed

lemma error_prefix: "conversion_error valid_name html (xs @ ys) d = None \<Longrightarrow> conversion_error valid_name html xs d = None"
  by (auto simp: conversion_error_def convertSlides_append split: prod.splits option.splits)

lemma parsed_step: "parsed s \<Longrightarrow> conversion_error valid_name html (xs @ [s]) d = conversion_error valid_name html xs d"
  by (auto simp: conversion_error_def convertSlides_append split: prod.splits option.splits)

text \<open>Every slide still to be converted asks only for attributes the browser accepts.\<close>

definition none_refused :: "(string \<Rightarrow> bool) \<Rightarrow> inner_html \<Rightarrow> md_slide list \<Rightarrow> document \<Rightarrow> bool" where
  "none_refused valid_name html ss d \<longleftrightarrow>
     (\<forall>pre s post. ss = pre @ s # post \<and> \<not> parsed s \<longrightarrow>
        find (refused valid_name) (asked_settings html s (document_after valid_name html pre d)) = None)"

lemma no_error_iff:
  assumes "makes_nodes html"
  shows "conversion_error valid_name html ss d = None \<longleftrightarrow> none_refused valid_name html ss d"
proof (induction ss rule: rev_induct)
  case Nil
  show ?case by (simp add: conversion_error_def none_refused_def)
next
  case (snoc s ss)
  have split': "none_refused valid_name html (ss @ [s]) d \<longleftrightarrow> none_refused valid_name html ss d \<and>
      (\<not> parsed s \<longrightarrow> find (refused valid_name) (asked_settings html s (document_after valid_name html ss d)) = None)"
    by (fastforce simp: none_refused_def append_eq_append_conv2 append_eq_Cons_conv Cons_eq_append_conv)
  show ?case
  proof (cases "conversion_error valid_name html ss d = None")
    case True
    show ?thesis
    proof (cases "parsed s")
      case False
      let ?f = "find (refused valid_name) (asked_settings html s (document_after valid_name html ss d))"
      have "conversion_error valid_name html (ss @ [s]) d = None \<longleftrightarrow> ?f = None"
        using slide_reached(3)[OF assms True False, of _ "[]"] slide_reached(4)[OF assms True False]
        by (cases ?f) (auto simp: conversion_error_def)
      then show ?thesis using True False snoc split' by simp
    qed (use True snoc split' in \<open>simp add: parsed_step\<close>)
  next
    case False
    then show ?thesis using error_prefix[of valid_name html ss "[s]" d] snoc split' by metis
  qed
qed

text \<open>
  C35: the first attribute the browser refuses, asked for by a comment of a slide, ends the conversion of the
  presentation: its error is the conversion's, every attribute asked for before it is set and none after it, the slide it
  is in is marked as converted but loses its notes, the slides before it are converted and those after it keep their
  Markdown. The conversion succeeds exactly when no slide still to be converted asks for such an attribute; then every
  slide is converted, with its notes and the attributes it asks for, and converting again changes nothing. Slides
  converted before are left alone. Assumed of the browser is only that no comment stands twice among the nodes it makes.
\<close>

theorem refused_attribute_ends_conversion:
  assumes "makes_nodes html"
  shows "(\<forall>pre s post. ss = pre @ s # post \<and> \<not> parsed s \<and> conversion_error valid_name html pre d = None \<longrightarrow>
        (let d' = document_after valid_name html pre d; asked = asked_settings html s d' in
         element_attributes (document_after valid_name html (pre @ [s]) d) =
           fst (settings_effect valid_name asked (first_attributes html s d')) \<and>
         (case find (refused valid_name) asked of
            None \<Rightarrow> slides_after valid_name html ss d ! length pre = converted (slide_nodes html s d') True s
          | Some x \<Rightarrow> convertSlides valid_name html ss d =
              (slides_after valid_name html pre d @ converted (slide_nodes html s d') False s # post,
               document_after valid_name html (pre @ [s]) d, Some (refusal_error x))))) \<and>
     (conversion_error valid_name html ss d = None \<longleftrightarrow> none_refused valid_name html ss d) \<and>
     (none_refused valid_name html ss d \<longrightarrow>
        convertSlides valid_name html (slides_after valid_name html ss d) (document_after valid_name html ss d) =
          (slides_after valid_name html ss d, document_after valid_name html ss d, None)) \<and>
     (\<forall>i < length ss. parsed (ss ! i) \<longrightarrow> slides_after valid_name html ss d ! i = ss ! i)"
proof (intro conjI)
  show "\<forall>pre s post. ss = pre @ s # post \<and> \<not> parsed s \<and> conversion_error valid_name html pre d = None \<longrightarrow>
        (let d' = document_after valid_name html pre d; asked = asked_settings html s d' in
         element_attributes (document_after valid_name html (pre @ [s]) d) =
           fst (settings_effect valid_name asked (first_attributes html s d')) \<and>
         (case find (refused valid_name) asked of
            None \<Rightarrow> slides_after valid_name html ss d ! length pre = converted (slide_nodes html s d') True s
          | Some x \<Rightarrow> convertSlides valid_name html ss d =
              (slides_after valid_name html pre d @ converted (slide_nodes html s d') False s # post,
               document_after valid_name html (pre @ [s]) d, Some (refusal_error x))))"
    using slide_reached[OF assms] by (auto simp: Let_def split: option.split)
  show "conversion_error valid_name html ss d = None \<longleftrightarrow> none_refused valid_name html ss d"
    by (rule no_error_iff[OF assms])
  show "none_refused valid_name html ss d \<longrightarrow>
        convertSlides valid_name html (slides_after valid_name html ss d) (document_after valid_name html ss d) =
          (slides_after valid_name html ss d, document_after valid_name html ss d, None)"
    unfolding no_error_iff[OF assms, symmetric]
    by (cases "convertSlides valid_name html ss d") (auto simp: conversion_defs intro: all_parsed_same converted_all)
  show "\<forall>i < length ss. parsed (ss ! i) \<longrightarrow> slides_after valid_name html ss d ! i = ss ! i"
    by (cases "convertSlides valid_name html ss d")
       (use convertSlides_parsed_same in \<open>fastforce simp: slides_after_def dest: list_all2_nthD\<close>)
qed

text \<open>Two slides, of which the first has a comment with an attribute whose name begins with a digit, between two others.\<close>

definition refused_slide :: md_slide where
  "refused_slide =
     \<lparr>slide_number = 0, slide_children = [], slide_text = ''x'', own_separators = (None, None),
      parent_separators = (None, None), slide_notes = Some (Element 9 ''ASIDE'' []), parsed = False\<rparr>"

definition refused_example :: "md_slide list" where
  "refused_example = [refused_slide, refused_slide\<lparr>slide_number := 3\<rparr>]"

definition refused_html :: inner_html where
  "refused_html text' d =
     ([Element 1 ''P'' [], Comment 2], 
      d\<lparr>comment_text := (\<lambda>i. '' .element: id='' @ quoted ''c'' @ '' 1a='' @ quoted ''b'' @ '' data-x '')\<rparr>)"

definition starts_with_letter :: "string \<Rightarrow> bool" where
  "starts_with_letter n = (case n of [] \<Rightarrow> False | c # cs \<Rightarrow> is_lower c \<or> is_upper c)"

theorem refused_attribute_ends_conversion_witness:
  "makes_nodes refused_html \<and>
   find (refused starts_with_letter) (asked_settings refused_html refused_slide comment_example) =
     Some (Some 1, ''1a'', ''b'') \<and>
   (case convertSlides starts_with_letter refused_html refused_example comment_example of
     (ts, d, e) \<Rightarrow> e = Some (ErrorObject ''InvalidCharacterError'') \<and>
       ts = [converted [Element 1 ''P'' [], Comment 2] False refused_slide, refused_slide\<lparr>slide_number := 3\<rparr>] \<and>
       element_attributes d 1 = [(''class'', ''a''), (''id'', ''c'')])"
proof -
  let ?asked = "asked_settings refused_html refused_slide comment_example"
  let ?after = "document_after starts_with_letter refused_html [refused_slide] comment_example"
  have nodes: "makes_nodes refused_html" by (simp add: makes_nodes_def refused_html_def)
  have start: "refused_example = [] @ refused_slide # [refused_slide\<lparr>slide_number := 3\<rparr>] \<and> \<not> parsed refused_slide \<and>
      conversion_error starts_with_letter refused_html [] comment_example = None"
    by (simp add: refused_example_def refused_slide_def conversion_error_def)
  have asked: "?asked = [(Some 1, ''id'', ''c''), (Some 1, ''1a'', ''b''), (Some 1, ''data-x'', [])]" by code_simp
  have names: "refused starts_with_letter (Some 1, ''1a'', ''b'')" "\<not> refused starts_with_letter (Some 1, ''id'', ''c'')"
    by code_simp+
  have first: "first_attributes refused_html refused_slide comment_example 1 = [(''class'', ''a'')]" by code_simp
  from refused_attribute_ends_conversion[OF nodes, THEN conjunct1, rule_format, OF start]
  have r: "convertSlides starts_with_letter refused_html refused_example comment_example =
        ([converted (slide_nodes refused_html refused_slide comment_example) False refused_slide, refused_slide\<lparr>slide_number := 3\<rparr>],
         ?after, Some (refusal_error (Some 1, ''1a'', ''b'')))"
    and a: "element_attributes ?after = put_setting (Some 1, ''id'', ''c'') (first_attributes refused_html refused_slide comment_example)"
    using start by (simp_all add: slides_after_def[of _ _ "[]"] document_after_def[of _ _ "[]"] Let_def asked names del: One_nat_def)
  have "element_attributes ?after 1 = [(''class'', ''a''), (''id'', ''c'')]"
    unfolding a by (simp add: put_setting_def first lower_case_def js_defs del: One_nat_def)
  then show ?thesis
    by (simp add: r nodes asked names refusal_error_def slide_nodes_def refused_html_def del: One_nat_def)
qed

text \<open>
  A comment inside a section within a slide: in an HTML document its name is \<open>SECTION\<close>, which the comparison with \<open>section\<close>
  does not see, so its attributes go to the slide.
\<close>

definition nested_example :: document where
  "nested_example = \<lparr>element_attributes = (\<lambda>i. []), comment_text = (\<lambda>i. '' .slide: class='' @ quoted ''dark'' @ '' '')\<rparr>"

lemma nested_section_not_seen:
  "case addAttributes (\<lambda>n. True) (DEFAULT_ELEMENT_ATTRIBUTES_SEPARATOR, DEFAULT_SLIDE_ATTRIBUTES_SEPARATOR) (Some 0)
     (Element 0 ''SECTION'' [Element 1 ''SECTION'' [Comment 2]]) None nested_example of
     (d, e) \<Rightarrow> element_attributes d 0 = [(''class'', ''dark'')] \<and> element_attributes d 1 = []"
  by code_simp

end
