(* ===== verification/MarkdownInit.thy ===== *)
theory MarkdownInit
  imports MarkdownAttributes
begin

text \<open>
  The start of the slides' Markdown plugin (\<^verbatim>\<open>src/slides/plugin/markdown/plugin.js\<close>, \<^verbatim>\<open>init\<close>): the sections are replaced, those
  with an address when their files arrive, and then the slides are converted; the promise it returns is what the presentation
  waits for.
\<close>

section \<open>The plugin\<close>

text \<open>
  What the plugin finds in the page: \<^verbatim>\<open>marked\<close>, the options of the presentation, the browser's test of an attribute name, its
  making of nodes, and the slides that stand in the page when the sections have been replaced.
\<close>

record markdown_env =
  marked_text :: "string \<Rightarrow> string"
  presentation_options :: options
  valid_attribute :: "string \<Rightarrow> bool"
  nodes_of :: inner_html
  slides_of :: "place list \<Rightarrow> md_slide list \<times> document"

datatype promise = Pending | Fulfilled | RejectedWith thrown

record markdown_plugin =
  places :: "place list"
  promise_state :: promise
  conversion :: "(md_slide list \<times> document) option"

text \<open>
  \<^verbatim>\<open>processSlides(\<dots>).then(convertSlides)\<close>: the conversion runs once, when every section has been replaced. A replacement that throws
  in the loop rejects the promise; one that throws when its file has arrived leaves it pending, for \<^verbatim>\<open>Promise.all\<close> is then
  rejected, which nothing handles.
\<close>

definition convert_page :: "markdown_env \<Rightarrow> markdown_plugin \<Rightarrow> markdown_plugin" where
  "convert_page env p =
     (let (ss, d) = slides_of env (places p) in
      case convertSlides (valid_attribute env) (nodes_of env) ss d of
        (ts, d', e) \<Rightarrow> p\<lparr>conversion := Some (ts, d'),
          promise_state := (case e of None \<Rightarrow> Fulfilled | Some t \<Rightarrow> RejectedWith t)\<rparr>)"

definition settle :: "markdown_env \<Rightarrow> markdown_plugin \<Rightarrow> markdown_plugin" where
  "settle env p = (if promise_state p = Pending \<and> resolved (places p) then convert_page env p else p)"

definition markdown_init :: "markdown_env \<Rightarrow> md_section list \<Rightarrow> markdown_plugin option" where
  "markdown_init env ss =
     map_option (\<lambda>(ps, e). settle env \<lparr>places = ps, promise_state = (case e of None \<Rightarrow> Pending | Some t \<Rightarrow> RejectedWith t),
                                      conversion = None\<rparr>)
       (process_sections (marked_text env) (presentation_options env) ss)"

inductive markdown_step :: "markdown_env \<Rightarrow> markdown_plugin \<Rightarrow> load_event \<Rightarrow> markdown_plugin \<Rightarrow> bool" for env :: markdown_env where
  file_arrives: "load_step (marked_text env) (presentation_options env) (places p) e ps \<Longrightarrow>
    markdown_step env p e (settle env (p\<lparr>places := ps\<rparr>))"

inductive_simps markdown_step_iff: "markdown_step env p e q"

section \<open>Replacing\<close>

text \<open>Separators that match no empty text, with which cutting always ends.\<close>

definition separable :: "markdown_env \<Rightarrow> md_section \<Rightarrow> bool" where
  "separable env s \<longleftrightarrow> never_empty (separator_regex (getSlidifyOptions (presentation_options env) (section_options s)))"

lemma replace_separable:
  "separable env s \<Longrightarrow> \<exists>h. replace_section (marked_text env) (presentation_options env) s x = Some (Replaced h)"
  using slide_loop_cut stack_all_groups[where st = "[]"]
  by (simp add: separable_def replace_section_def slidify_def Let_def)

lemma answered_separable:
  "separable env s \<Longrightarrow> \<exists>h. answered (marked_text env) (presentation_options env) s st x = Some (Replaced h)"
  using replace_separable by (simp add: answered_def)

fun is_waiting :: "place \<Rightarrow> bool" where
  "is_waiting (Waiting s) = True"
| "is_waiting p = False"

definition files_missing :: "place list \<Rightarrow> nat" where
  "files_missing ps = length (filter is_waiting ps)"

fun good_place :: "markdown_env \<Rightarrow> place \<Rightarrow> bool" where
  "good_place env (Waiting s) = separable env s"
| "good_place env (Replaced h) = True"
| "good_place env p = False"

lemma process_separable:
  "list_all (separable env) ss \<Longrightarrow> \<exists>ps. process_sections (marked_text env) (presentation_options env) ss = Some (ps, None) \<and>
     list_all (good_place env) ps \<and> files_missing ps = length (filter (\<lambda>s. data_markdown s \<noteq> []) ss)"
proof (induction ss)
  case (Cons s ss)
  then obtain ps where "process_sections (marked_text env) (presentation_options env) ss = Some (ps, None)"
    "list_all (good_place env) ps" "files_missing ps = length (filter (\<lambda>s. data_markdown s \<noteq> []) ss)" "separable env s" by auto
  with replace_separable[of env s "getMarkdownFromSlide (own_text s)"] show ?case by (auto simp: files_missing_def)
qed (simp add: files_missing_def)

lemma resolved_iff: "list_all (good_place env) ps \<Longrightarrow> resolved ps \<longleftrightarrow> files_missing ps = 0"
proof (induction ps)
  case (Cons p ps)
  then show ?case by (cases p) (auto simp: resolved_def files_missing_def)
qed (simp add: resolved_def files_missing_def)

lemma missing_update:
  "i < length ps \<Longrightarrow> is_waiting (ps ! i) \<Longrightarrow> files_missing ps = Suc (files_missing (ps[i := Replaced h]))"
proof (induction ps arbitrary: i)
  case (Cons p ps)
  then show ?case by (cases i) (auto simp: files_missing_def)
qed simp

section \<open>The state between two answers\<close>

definition at_rest :: "markdown_env \<Rightarrow> place list \<Rightarrow> markdown_plugin" where
  "at_rest env ps = settle env \<lparr>places = ps, promise_state = Pending, conversion = None\<rparr>"

lemma places_at_rest [simp]: "places (at_rest env ps) = ps"
  by (simp add: at_rest_def settle_def convert_page_def split: prod.splits)

lemma at_rest_pending:
  "list_all (good_place env) ps \<Longrightarrow> promise_state (at_rest env ps) = Pending \<longleftrightarrow> files_missing ps \<noteq> 0"
  by (auto simp: resolved_iff at_rest_def settle_def convert_page_def split: prod.splits option.splits)

lemma at_rest_converted:
  "list_all (good_place env) ps \<Longrightarrow> files_missing ps = 0 \<Longrightarrow>
     (case slides_of env ps of (ss, d) \<Rightarrow> case convertSlides (valid_attribute env) (nodes_of env) ss d of
        (ts, d', e) \<Rightarrow> conversion (at_rest env ps) = Some (ts, d') \<and>
          promise_state (at_rest env ps) = (case e of None \<Rightarrow> Fulfilled | Some t \<Rightarrow> RejectedWith t))"
  by (simp add: resolved_iff at_rest_def settle_def convert_page_def split: prod.splits)

lemma init_at_rest:
  assumes "list_all (separable env) ss"
  shows "\<exists>ps. markdown_init env ss = Some (at_rest env ps) \<and> list_all (good_place env) ps \<and>
     files_missing ps = length (filter (\<lambda>s. data_markdown s \<noteq> []) ss)"
  using process_separable[OF assms] by (auto simp: markdown_init_def at_rest_def)

lemma load_good:
  assumes "load_step (marked_text env) (presentation_options env) ps e qs" and "list_all (good_place env) ps"
  shows "list_all (good_place env) qs \<and> files_missing ps = Suc (files_missing qs)"
proof -
  obtain i st x where e: "e = Answered i st x" by (cases e)
  from assms(1) obtain s p where s: "i < length ps" "ps ! i = Waiting s"
    "answered (marked_text env) (presentation_options env) s st x = Some p" "qs = ps[i := p]" unfolding e by (auto simp: load_step_iff)
  from assms(2) s(1) have "good_place env (ps ! i)" by (simp add: list_all_length)
  with s answered_separable[of env s st x] obtain h where "p = Replaced h" by auto
  with s assms(2) missing_update[of i ps h] show ?thesis by (auto simp: list_all_length nth_list_update)
qed

lemma step_at_rest:
  assumes "markdown_step env (at_rest env ps) e q" and "list_all (good_place env) ps"
  shows "\<exists>qs. q = at_rest env qs \<and> load_step (marked_text env) (presentation_options env) ps e qs"
proof -
  from assms(1) obtain qs where qs: "load_step (marked_text env) (presentation_options env) ps e qs"
    "q = settle env ((at_rest env ps)\<lparr>places := qs\<rparr>)" by (auto simp: markdown_step_iff)
  from load_good[OF qs(1) assms(2)] resolved_iff[OF assms(2)] have "\<not> resolved ps" by simp
  then show ?thesis using qs by (auto simp: at_rest_def settle_def)
qed

lemma steps_at_rest:
  "steps (markdown_step env) (at_rest env ps) es q \<Longrightarrow> list_all (good_place env) ps \<Longrightarrow>
     \<exists>qs. q = at_rest env qs \<and> list_all (good_place env) qs \<and> length es + files_missing qs = files_missing ps \<and>
       steps (load_step (marked_text env) (presentation_options env)) ps es qs"
proof (induction es arbitrary: ps)
  case (Cons e es)
  then obtain p where p: "markdown_step env (at_rest env ps) e p" "steps (markdown_step env) p es q" by (auto simp: steps_Cons_iff)
  from step_at_rest[OF p(1) Cons.prems(2)] obtain ps' where ps': "p = at_rest env ps'"
    "load_step (marked_text env) (presentation_options env) ps e ps'" by blast
  from load_good[OF ps'(2) Cons.prems(2)] Cons.IH[OF p(2)[unfolded ps'(1)]] ps'(2) show ?case by (auto simp: steps_Cons_iff)
qed auto

section \<open>The property\<close>

text \<open>
  C28: the Markdown plugin comes to its end. With separators that match no empty text, it starts, and however the files arrive, the
  promise is pending exactly while a file is missing, each missing file can still be answered, and when all are answered, whether
  loaded or not, the slides have been converted, once, and the promise has the outcome of the conversion. The order of the answers
  makes no difference.
\<close>

theorem markdown_settles:
  assumes "list_all (separable env) sections"
  shows "\<exists>p. markdown_init env sections = Some p \<and> (\<forall>es q. steps (markdown_step env) p es q \<longrightarrow>
     length es + files_missing (places q) = length (filter (\<lambda>s. data_markdown s \<noteq> []) sections) \<and>
     (promise_state q = Pending \<longleftrightarrow> files_missing (places q) \<noteq> 0) \<and>
     (\<forall>i st x. i < length (places q) \<and> is_waiting (places q ! i) \<longrightarrow> (\<exists>q'. markdown_step env q (Answered i st x) q')) \<and>
     (files_missing (places q) = 0 \<longrightarrow>
       (case slides_of env (places q) of (ss, d) \<Rightarrow> case convertSlides (valid_attribute env) (nodes_of env) ss d of
          (ts, d', e) \<Rightarrow> conversion q = Some (ts, d') \<and>
            promise_state q = (case e of None \<Rightarrow> Fulfilled | Some t \<Rightarrow> RejectedWith t))) \<and>
     (\<forall>es' q'. steps (markdown_step env) p es' q' \<and> answers es' = answers es \<longrightarrow> q' = q))"
proof -
  from init_at_rest[OF assms] obtain ps where ps: "markdown_init env sections = Some (at_rest env ps)"
    "list_all (good_place env) ps" "files_missing ps = length (filter (\<lambda>s. data_markdown s \<noteq> []) sections)" by blast
  show ?thesis
  proof (intro exI[of _ "at_rest env ps"] conjI[OF ps(1)] allI impI, goal_cases)
    case (1 es q)
    from steps_at_rest[OF this ps(2)] obtain qs where q: "q = at_rest env qs" "list_all (good_place env) qs"
      "length es + files_missing qs = files_missing ps" "steps (load_step (marked_text env) (presentation_options env)) ps es qs" by blast
    note rest = at_rest_pending[OF q(2)] at_rest_converted[OF q(2)]
    have "\<exists>q'. markdown_step env q (Answered i st x) q'" if w: "i < length qs \<and> is_waiting (qs ! i)" for i st x
    proof -
      from w obtain s where s: "qs ! i = Waiting s" by (cases "qs ! i") auto
      with w q(2) have "separable env s" by (auto simp: list_all_length)
      from answered_separable[OF this, of st x] s w show ?thesis
        by (auto simp: markdown_step_iff load_step_iff q(1))
    qed
    moreover have "q' = q" if "steps (markdown_step env) (at_rest env ps) es' q'" "answers es' = answers es" for es' q'
    proof -
      from steps_at_rest[OF that(1) ps(2)] obtain qs' where q': "q' = at_rest env qs'"
        "steps (load_step (marked_text env) (presentation_options env)) ps es' qs'" by blast
      from load_order_irrelevant[OF q'(2) q(4) that(2)] q'(1) q(1) show ?thesis by simp
    qed
    ultimately show ?case using q(3) ps(3) rest unfolding q(1) by (intro conjI allI impI) (simp_all, blast?)
  qed
qed

text \<open>Two files, of which one is not found, in the order opposite to that of the page.\<close>

definition markdown_example :: markdown_env where
  "markdown_example = \<lparr>marked_text = id, presentation_options = no_options, valid_attribute = (\<lambda>n. True),
     nodes_of = (\<lambda>x d. ([], d)), slides_of = (\<lambda>ps. (refused_example, comment_example))\<rparr>"

theorem markdown_settles_witness:
  "\<exists>p q. markdown_init markdown_example [file_section ''a.md'', file_section ''b.md''] = Some p \<and>
     steps (markdown_step markdown_example) p [Answered 1 (Some 404) '''', Answered 0 (Some 200) ''x''] q \<and> promise_state q \<noteq> Pending"
proof -
  let ?ss = "[file_section ''a.md'', file_section ''b.md'']"
  have "separable markdown_example (file_section n)" for n
    using never_empty_default by (simp add: separable_def markdown_example_def file_section_def section_options_def
        getSlidifyOptions_def no_options_def separator_regex_def)
  then have "list_all (separable markdown_example) ?ss" by simp
  from markdown_settles[OF this] obtain p where p: "markdown_init markdown_example ?ss = Some p" and
    runs: "\<And>es q. steps (markdown_step markdown_example) p es q \<Longrightarrow> length es + files_missing (places q) = 2 \<and>
      (promise_state q = Pending \<longleftrightarrow> files_missing (places q) \<noteq> 0) \<and>
      (\<forall>i st x. i < length (places q) \<and> is_waiting (places q ! i) \<longrightarrow> (\<exists>q'. markdown_step markdown_example q (Answered i st x) q'))"
    by (auto simp: file_section_def)
  have places: "places p = map Waiting ?ss"
    using p by (auto simp: markdown_init_def settle_def convert_page_def file_section_def split: prod.splits)
  from runs[of "[]" p] have "\<forall>i st x. i < length (places p) \<and> is_waiting (places p ! i) \<longrightarrow>
    (\<exists>q'. markdown_step markdown_example p (Answered i st x) q')" by simp
  then obtain q1 where q1: "markdown_step markdown_example p (Answered 1 (Some 404) '''') q1" unfolding places by force
  then have one: "steps (markdown_step markdown_example) p [Answered 1 (Some 404) ''''] q1" by (simp add: steps_Cons_iff)
  from q1 have "length (places q1) = 2 \<and> is_waiting (places q1 ! 0)"
    by (auto simp: markdown_step_iff load_step_iff places settle_def convert_page_def split: prod.splits)
  with runs[OF one] obtain q where q: "markdown_step markdown_example q1 (Answered 0 (Some 200) ''x'') q" by fastforce
  with q1 have two: "steps (markdown_step markdown_example) p [Answered 1 (Some 404) '''', Answered 0 (Some 200) ''x''] q" by (auto simp: steps_Cons_iff)
  from runs[OF two] p two show ?thesis by auto
qed

end
