(* ===== verification/Zoom.thy ===== *)
theory Zoom
  imports Complex_Main Timers
begin

text \<open>
  The zoom plugin of the slides (\<^verbatim>\<open>src/slides/plugin/zoom/plugin.js\<close>): zooming in on a point, a rectangle or an element,
  zooming out, and panning while the pointer is near an edge of the window. Lengths are exact rationals; the sizes
  of the window and of what is zoomed in on are positive.
\<close>

section \<open>The page\<close>

text \<open>The styles of the body that zooming sets; a style that is empty is \<open>None\<close>. A translation and a factor.\<close>

record body_style =
  transformOrigin :: "(rat \<times> rat) option"
  transform :: "((rat \<times> rat) \<times> rat) option"
  relative :: bool
  style_left :: "rat option"
  style_top :: "rat option"
  style_width :: "rat option"
  style_height :: "rat option"
  style_zoom :: "rat option"

definition plain_style :: body_style where
  "plain_style = \<lparr>transformOrigin = None, transform = None, relative = False, style_left = None, style_top = None,
     style_width = None, style_height = None, style_zoom = None\<rparr>"

record window =
  innerWidth :: rat
  innerHeight :: rat
  scrollX :: rat
  scrollY :: rat

text \<open>
  The variables of the module and the page. \<open>intervals\<close> are the intervals that run; the handles of timeouts and intervals
  come from the same counter, and \<open>-1\<close> is \<open>None\<close>.
\<close>

record zoom =
  level :: rat
  mouseX :: rat
  mouseY :: rat
  panEngageTimeout :: "nat option"
  panUpdateInterval :: "nat option"
  zoom_timers :: timers
  intervals :: "nat list"
  view :: window
  body_css :: body_style
  zoomed_class :: bool

definition zoom_init :: "window \<Rightarrow> zoom" where
  "zoom_init w = \<lparr>level = 1, mouseX = 0, mouseY = 0, panEngageTimeout = None, panUpdateInterval = None,
     zoom_timers = no_timers, intervals = [], view = w, body_css = plain_style, zoomed_class = False\<rparr>"

section \<open>Zooming\<close>

text \<open>\<^verbatim>\<open>magnify\<close>; \<open>supports\<close> is \<^verbatim>\<open>supportsTransforms\<close>, and a width or height of 0 or undefined counts as 1.\<close>

fun or_one :: "rat option \<Rightarrow> rat" where
  "or_one None = 1"
| "or_one (Some w) = (if w = 0 then 1 else w)"

definition magnify_style :: "bool \<Rightarrow> window \<Rightarrow> rat \<Rightarrow> rat \<Rightarrow> rat \<Rightarrow> body_style \<Rightarrow> body_style" where
  "magnify_style supports w x y scale css =
     (if supports then
        (if scale = 1 then css\<lparr>transform := None\<rparr>
         else css\<lparr>transformOrigin := Some (scrollX w, scrollY w), transform := Some ((- x, - y), scale)\<rparr>)
      else
        (if scale = 1 then
           css\<lparr>relative := False, style_left := None, style_top := None, style_width := None, style_height := None, style_zoom := None\<rparr>
         else
           css\<lparr>relative := True, style_left := Some (- (scrollX w + x) / scale), style_top := Some (- (scrollY w + y) / scale),
             style_width := Some (scale * 100), style_height := Some (scale * 100), style_zoom := Some scale\<rparr>))"

definition magnify :: "bool \<Rightarrow> rat \<Rightarrow> rat \<Rightarrow> rat option \<Rightarrow> rat option \<Rightarrow> rat \<Rightarrow> zoom \<Rightarrow> zoom" where
  "magnify supports x y width height scale s =
     (let x' = x - (innerWidth (view s) - or_one width * scale) / 2;
          y' = y - (innerHeight (view s) - or_one height * scale) / 2
      in s\<lparr>body_css := magnify_style supports (view s) x' y' scale (body_css s), level := scale, zoomed_class := scale \<noteq> 1\<rparr>)"

definition clearInterval :: "nat option \<Rightarrow> nat list \<Rightarrow> nat list" where
  "clearInterval i is = filter (\<lambda>j. Some j \<noteq> i) is"

definition stop_timeout :: "nat option \<Rightarrow> timers \<Rightarrow> timers" where
  "stop_timeout i ts = (case i of None \<Rightarrow> ts | Some k \<Rightarrow> clearTimeout k ts)"

text \<open>\<^verbatim>\<open>out\<close>\<close>

definition zoom_out :: "bool \<Rightarrow> zoom \<Rightarrow> zoom" where
  "zoom_out supports s =
     (magnify supports 0 0 None None 1
        (s\<lparr>zoom_timers := stop_timeout (panEngageTimeout s) (zoom_timers s),
          intervals := clearInterval (panUpdateInterval s) (intervals s)\<rparr>))\<lparr>level := 1\<rparr>"

text \<open>The argument of \<^verbatim>\<open>to\<close>; an element is its bounding rectangle: left, top, width, height.\<close>

record zoom_options =
  opt_x :: "rat option"
  opt_y :: "rat option"
  opt_width :: "rat option"
  opt_height :: "rat option"
  opt_scale :: "rat option"
  opt_pan :: "bool option"
  opt_element :: "(rat \<times> rat \<times> rat \<times> rat) option"

definition element_padding :: rat where
  "element_padding = 20"

definition or_zero :: "rat option \<Rightarrow> rat" where
  "or_zero v = (case v of None \<Rightarrow> 0 | Some x \<Rightarrow> x)"

definition with_element :: "zoom_options \<Rightarrow> zoom_options" where
  "with_element p =
     (case opt_element p of
        None \<Rightarrow> p\<lparr>opt_x := Some (or_zero (opt_x p)), opt_y := Some (or_zero (opt_y p))\<rparr>
      | Some (l, t, w, h) \<Rightarrow>
          p\<lparr>opt_x := Some (l - element_padding), opt_y := Some (t - element_padding),
            opt_width := Some (w + element_padding * 2), opt_height := Some (h + element_padding * 2)\<rparr>)"

definition zoom_scale :: "window \<Rightarrow> zoom_options \<Rightarrow> rat option" where
  "zoom_scale w p =
     (case (opt_width p, opt_height p) of
        (Some pw, Some ph) \<Rightarrow> Some (max (min (innerWidth w / pw) (innerHeight w / ph)) 1)
      | _ \<Rightarrow> opt_scale p)"

definition engage_pan :: "zoom \<Rightarrow> zoom" where
  "engage_pan s = (let (i, ts) = setTimeout 800 (zoom_timers s) in s\<lparr>panEngageTimeout := Some i, zoom_timers := ts\<rparr>)"

text \<open>\<^verbatim>\<open>panUpdateInterval = setInterval( pan, 1000 / 60 )\<close>\<close>

definition setInterval :: "zoom \<Rightarrow> zoom" where
  "setInterval s =
     (let i = fresh (zoom_timers s) in
      s\<lparr>panUpdateInterval := Some i, intervals := i # intervals s, zoom_timers := (zoom_timers s)\<lparr>fresh := Suc i\<rparr>\<rparr>)"

definition zoom_to :: "bool \<Rightarrow> zoom_options \<Rightarrow> zoom \<Rightarrow> zoom" where
  "zoom_to supports options s =
     (if level s \<noteq> 1 then zoom_out supports s
      else
        (let p = with_element options in
         case zoom_scale (view s) p of
           None \<Rightarrow> s
         | Some scale \<Rightarrow>
             if scale > 1 then
               (let s1 = magnify supports (or_zero (opt_x p) * scale) (or_zero (opt_y p) * scale) (opt_width p) (opt_height p) scale s
                in if opt_pan p \<noteq> Some False then engage_pan s1 else s1)
             else s))"

section \<open>Panning\<close>

text \<open>\<^verbatim>\<open>window.scroll\<close>; the parameter \<open>clamp\<close> keeps a position within the page. Both scrolls start from the offset read at first.\<close>

definition window_scroll :: "(rat \<times> rat \<Rightarrow> rat \<times> rat) \<Rightarrow> rat \<Rightarrow> rat \<Rightarrow> zoom \<Rightarrow> zoom" where
  "window_scroll clamp x y s =
     s\<lparr>view := (view s)\<lparr>scrollX := fst (clamp (x, y)), scrollY := snd (clamp (x, y))\<rparr>\<rparr>"

definition pan :: "(rat \<times> rat \<Rightarrow> rat \<times> rat) \<Rightarrow> zoom \<Rightarrow> zoom" where
  "pan clamp s =
     (let rangeX = innerWidth (view s) * (12 / 100); rangeY = innerHeight (view s) * (12 / 100);
          x = scrollX (view s); y = scrollY (view s);
          s1 = (if mouseY s < rangeY then window_scroll clamp x (y - (1 - mouseY s / rangeY) * (14 / level s)) s
                else if mouseY s > innerHeight (view s) - rangeY
                then window_scroll clamp x (y + (1 - (innerHeight (view s) - mouseY s) / rangeY) * (14 / level s)) s
                else s)
      in if mouseX s < rangeX then window_scroll clamp (x - (1 - mouseX s / rangeX) * (14 / level s)) y s1
         else if mouseX s > innerWidth (view s) - rangeX
         then window_scroll clamp (x + (1 - (innerWidth (view s) - mouseX s) / rangeX) * (14 / level s)) y s1
         else s1)"

section \<open>Events\<close>

text \<open>
  A click zooms when the modifier key is held and the overview is closed; the configuration's zoom level, if it is set and
  not 0, replaces 2.
\<close>

definition click_options :: "rat option \<Rightarrow> rat \<Rightarrow> rat \<Rightarrow> zoom_options" where
  "click_options zoomLevel x y =
     \<lparr>opt_x = Some x, opt_y = Some y, opt_width = None, opt_height = None,
      opt_scale = Some (if zoomLevel = None \<or> zoomLevel = Some 0 then 2 else or_zero zoomLevel),
      opt_pan = Some False, opt_element = None\<rparr>"

datatype zoom_event =
    MouseDown bool bool rat rat
  | KeyUp nat
  | MouseMove rat rat
  | ZoomTo zoom_options
  | Reset
  | Elapse nat
  | EngageFires nat
  | PanTick nat

text \<open>The parameters: transforms are supported, the browser's clamping, and the configured zoom level.\<close>

inductive zoom_step :: "bool \<Rightarrow> (rat \<times> rat \<Rightarrow> rat \<times> rat) \<Rightarrow> rat option \<Rightarrow> zoom \<Rightarrow> zoom_event \<Rightarrow> zoom \<Rightarrow> bool"
  for supports :: bool and clamp :: "rat \<times> rat \<Rightarrow> rat \<times> rat" and zoomLevel :: "rat option" where
  mouse_down: "zoom_step supports clamp zoomLevel s (MouseDown modifier overview x y)
    (if modifier \<and> \<not> overview then zoom_to supports (click_options zoomLevel x y) s else s)"
| key_up: "zoom_step supports clamp zoomLevel s (KeyUp code) (if level s \<noteq> 1 \<and> code = 27 then zoom_out supports s else s)"
| mouse_move: "zoom_step supports clamp zoomLevel s (MouseMove x y) (if level s \<noteq> 1 then s\<lparr>mouseX := x, mouseY := y\<rparr> else s)"
| api_to: "zoom_step supports clamp zoomLevel s (ZoomTo p) (zoom_to supports p s)"
| api_reset: "zoom_step supports clamp zoomLevel s Reset (zoom_out supports s)"
| zoom_elapse: "zoom_step supports clamp zoomLevel s (Elapse n) (s\<lparr>zoom_timers := elapse n (zoom_timers s)\<rparr>)"
| engage_fires: "due i (zoom_timers s) \<Longrightarrow> zoom_step supports clamp zoomLevel s (EngageFires i)
    (setInterval (s\<lparr>zoom_timers := clearTimeout i (zoom_timers s)\<rparr>))"
| pan_tick: "i \<in> set (intervals s) \<Longrightarrow> zoom_step supports clamp zoomLevel s (PanTick i) (pan clamp s)"

inductive_simps zoom_step_iff:
  "zoom_step supports clamp zoomLevel s (ZoomTo p) t" "zoom_step supports clamp zoomLevel s (Elapse n) t"
  "zoom_step supports clamp zoomLevel s (EngageFires i) t" "zoom_step supports clamp zoomLevel s Reset t"
  "zoom_step supports clamp zoomLevel s (MouseDown modifier overview x y) t"

section \<open>The invariant\<close>

definition style_fits :: "bool \<Rightarrow> zoom \<Rightarrow> bool" where
  "style_fits supports s \<longleftrightarrow>
     zoomed_class s = (level s \<noteq> 1) \<and>
     (if supports then transform (body_css s) = None \<longleftrightarrow> level s = 1 else relative (body_css s) = (level s \<noteq> 1))"

definition panning_fits :: "zoom \<Rightarrow> bool" where
  "panning_fits s \<longleftrightarrow> timers_ok (zoom_timers s) \<and>
     dom (deadline (zoom_timers s)) \<subseteq> set_option (panEngageTimeout s) \<and>
     (intervals s = [] \<or> (\<exists>i. intervals s = [i] \<and> panUpdateInterval s = Some i) \<and> deadline (zoom_timers s) = Map.empty) \<and>
     (level s = 1 \<longrightarrow> deadline (zoom_timers s) = Map.empty \<and> intervals s = [])"

definition zoom_inv :: "bool \<Rightarrow> zoom \<Rightarrow> bool" where
  "zoom_inv supports s \<longleftrightarrow> 1 \<le> level s \<and> style_fits supports s \<and> panning_fits s"

lemma magnify_fields [simp]:
  "level (magnify supports x y w h c s) = c" "zoom_timers (magnify supports x y w h c s) = zoom_timers s"
  "intervals (magnify supports x y w h c s) = intervals s" "panEngageTimeout (magnify supports x y w h c s) = panEngageTimeout s"
  "panUpdateInterval (magnify supports x y w h c s) = panUpdateInterval s" "view (magnify supports x y w h c s) = view s"
  by (simp_all add: magnify_def Let_def)

lemma magnify_style_fits: "style_fits supports (magnify supports x y w h c s)"
  by (simp add: style_fits_def magnify_def magnify_style_def Let_def)

lemma stopped: "panning_fits s \<Longrightarrow> timers_ok (stop_timeout (panEngageTimeout s) (zoom_timers s)) \<and>
     deadline (stop_timeout (panEngageTimeout s) (zoom_timers s)) = Map.empty \<and>
     clearInterval (panUpdateInterval s) (intervals s) = []"
  using browser.stop_only[of "zoom_timers s"]
  by (auto simp: panning_fits_def stop_timeout_def clearInterval_def browser.stop_ok dom_def split: option.splits)

lemma zoom_out_inv: "zoom_inv supports s \<Longrightarrow> zoom_inv supports (zoom_out supports s)"
proof -
  assume "zoom_inv supports s"
  then have "panning_fits s" by (simp add: zoom_inv_def)
  note st = stopped[OF this]
  let ?m = "magnify supports 0 0 None None 1 (s\<lparr>zoom_timers := stop_timeout (panEngageTimeout s) (zoom_timers s),
          intervals := clearInterval (panUpdateInterval s) (intervals s)\<rparr>)"
  have eq: "zoom_out supports s = ?m" by (simp add: zoom_out_def magnify_def Let_def)
  show ?thesis unfolding eq zoom_inv_def using st magnify_style_fits by (simp add: panning_fits_def)
qed

lemma engage_pan_style [simp]: "style_fits supports (engage_pan s) = style_fits supports s" "level (engage_pan s) = level s"
  by (simp_all add: style_fits_def engage_pan_def case_prod_beta)

lemma zoom_to_inv: "zoom_inv supports s \<Longrightarrow> zoom_inv supports (zoom_to supports p s)"
proof -
  assume inv: "zoom_inv supports s"
  have "zoom_inv supports (engage_pan m) \<and> zoom_inv supports m"
    if "level s = 1" "1 < c" "m = magnify supports x y w h c s" for m c x y w h
  proof -
    from inv that(1) have ok: "timers_ok (zoom_timers s)" "deadline (zoom_timers s) = Map.empty" "intervals s = []"
      by (simp_all add: zoom_inv_def panning_fits_def)
    from that(2,3) ok magnify_style_fits[of supports x y w h c s] browser.start_only[OF ok(1,2), of 800] browser.start_ok[OF ok(1), of 800]
    show ?thesis
      by (simp add: zoom_inv_def engage_pan_style) (simp add: panning_fits_def engage_pan_def case_prod_beta)
  qed
  with inv zoom_out_inv[OF inv] show ?thesis
    by (auto simp: zoom_to_def Let_def split: option.splits)
qed

lemma pan_fields [simp]:
  "level (pan clamp s) = level s" "zoom_timers (pan clamp s) = zoom_timers s" "intervals (pan clamp s) = intervals s"
  "panEngageTimeout (pan clamp s) = panEngageTimeout s" "panUpdateInterval (pan clamp s) = panUpdateInterval s"
  "body_css (pan clamp s) = body_css s" "zoomed_class (pan clamp s) = zoomed_class s"
  by (simp_all add: pan_def window_scroll_def Let_def)

lemma zoom_inv_step: "zoom_step supports clamp zoomLevel s e t \<Longrightarrow> zoom_inv supports s \<Longrightarrow> zoom_inv supports t"
proof (induction rule: zoom_step.induct)
  case (engage_fires i s)
  then obtain x where x: "deadline (zoom_timers s) i = Some x" and "dom (deadline (zoom_timers s)) \<subseteq> set_option (panEngageTimeout s)"
    by (auto simp: due_iff zoom_inv_def panning_fits_def)
  moreover from this have "panEngageTimeout s = Some i" by (cases "panEngageTimeout s") auto
  ultimately have d: "dom (deadline (zoom_timers s)) \<subseteq> {i}" "deadline (zoom_timers s) \<noteq> Map.empty" by auto
  from engage_fires(2) d(2) have s: "intervals s = []" "level s \<noteq> 1" "timers_ok (zoom_timers s)"
    by (auto simp: zoom_inv_def panning_fits_def)
  have "deadline (ts\<lparr>fresh := n\<rparr>) = deadline ts" for ts n by (simp add: deadline_def)
  moreover have "timers_ok ts \<Longrightarrow> timers_ok (ts\<lparr>fresh := Suc (fresh ts)\<rparr>)" for ts by (auto simp: timers_ok_def)
  ultimately show ?case
    using engage_fires(2) s browser.stop_only[OF d(1)] browser.stop_ok[OF s(3), of i]
    by (simp add: zoom_inv_def panning_fits_def setInterval_def Let_def style_fits_def)
next
  case (zoom_elapse s n)
  then show ?case by (simp add: zoom_inv_def panning_fits_def style_fits_def browser.service_laws)
qed (auto simp: zoom_out_inv zoom_to_inv, auto simp: zoom_inv_def panning_fits_def style_fits_def)

interpretation zoom_machine: invariant_machine "zoom_step supports clamp zoomLevel" "zoom_init w" "zoom_inv supports"
  for supports clamp zoomLevel w
  by unfold_locales (simp add: zoom_init_def zoom_inv_def style_fits_def panning_fits_def plain_style_def, rule zoom_inv_step)

section \<open>Where things are shown\<close>

text \<open>
  The position in the window of a point of the page under the body's style, when transforms are supported: the factor
  works around the origin, then the translation. A point at a position of the window, before zooming, is on the page at
  that position plus the scroll offset.
\<close>

definition shown_at :: "zoom \<Rightarrow> rat \<times> rat \<Rightarrow> rat \<times> rat" where
  "shown_at s q =
     (case (transform (body_css s), transformOrigin (body_css s)) of
        (Some ((tx, ty), c), Some (ox, oy)) \<Rightarrow>
          (ox + (fst q - ox) * c + tx - scrollX (view s), oy + (snd q - oy) * c + ty - scrollY (view s))
      | _ \<Rightarrow> (fst q - scrollX (view s), snd q - scrollY (view s)))"

definition on_page :: "zoom \<Rightarrow> rat \<Rightarrow> rat \<Rightarrow> rat \<times> rat" where
  "on_page s x y = (x + scrollX (view s), y + scrollY (view s))"

lemma engage_pan_view [simp]: "view (engage_pan s) = view s" "body_css (engage_pan s) = body_css s"
  by (simp_all add: engage_pan_def case_prod_beta)

lemma magnified:
  assumes "c \<noteq> 1"
  shows "shown_at (magnify True (x * c) (y * c) w h c s) (on_page s a b) =
     (innerWidth (view s) / 2 + (a - (x + or_one w / 2)) * c, innerHeight (view s) / 2 + (b - (y + or_one h / 2)) * c)"
  using assms by (simp add: shown_at_def on_page_def magnify_def magnify_style_def Let_def field_simps)

lemma zoomed_in:
  assumes "level s = 1" and "with_element options = p" and "zoom_scale (view s) p = Some c" and "1 < c"
  shows "shown_at (zoom_to True options s) q =
     shown_at (magnify True (or_zero (opt_x p) * c) (or_zero (opt_y p) * c) (opt_width p) (opt_height p) c s) q"
    and "level (zoom_to True options s) = c"
proof -
  let ?m = "magnify True (or_zero (opt_x p) * c) (or_zero (opt_y p) * c) (opt_width p) (opt_height p) c s"
  have "zoom_to True options s = ?m \<or> zoom_to True options s = engage_pan ?m"
    using assms by (auto simp: zoom_to_def Let_def)
  moreover have "shown_at (engage_pan ?m) q = shown_at ?m q" by (simp only: shown_at_def engage_pan_view)
  ultimately show "shown_at (zoom_to True options s) q = shown_at ?m q" and "level (zoom_to True options s) = c"
    by (metis, metis engage_pan_style(2) magnify_fields(1))
qed

section \<open>The properties\<close>

text \<open>
  C29: nothing of a zoom is left behind. Whatever was done, the page is marked and transformed exactly while it is
  zoomed; when it is not, neither the timer that starts panning nor a panning interval is there; and there is never more
  than one interval, which runs only when no timer is left that would start another.
\<close>

theorem zoom_leaves_nothing:
  assumes "steps (zoom_step supports clamp zoomLevel) (zoom_init w) es s"
  shows "1 \<le> level s \<and> zoomed_class s = (level s \<noteq> 1) \<and>
     (if supports then transform (body_css s) = None \<longleftrightarrow> level s = 1 else relative (body_css s) = (level s \<noteq> 1)) \<and>
     (level s = 1 \<longrightarrow> intervals s = [] \<and> deadline (zoom_timers s) = Map.empty) \<and>
     length (intervals s) \<le> 1 \<and> (intervals s \<noteq> [] \<longrightarrow> deadline (zoom_timers s) = Map.empty)"
  using zoom_machine.inv_reachable[OF assms]
  by (auto simp: zoom_inv_def panning_fits_def style_fits_def split: if_splits)

definition example_window :: window where
  "example_window = \<lparr>innerWidth = 1000, innerHeight = 500, scrollX = 0, scrollY = 40\<rparr>"

definition example_zoom :: zoom_options where
  "example_zoom = \<lparr>opt_x = None, opt_y = None, opt_width = None, opt_height = None, opt_scale = None, opt_pan = None,
     opt_element = Some (120, 70, 160, 60)\<rparr>"

theorem zoom_leaves_nothing_witness:
  "\<exists>s. steps (zoom_step True id None) (zoom_init example_window) [ZoomTo example_zoom, Elapse 800, EngageFires 1, Reset] s \<and>
     level s = 1 \<and> intervals s = [] \<and> deadline (zoom_timers s) = Map.empty"
proof -
  obtain s where s: "steps (zoom_step True id None) (zoom_init example_window) [ZoomTo example_zoom, Elapse 800, EngageFires 1, Reset] s"
    "level s = 1"
    by (simp add: steps_Cons_iff zoom_step_iff)
       (simp add: zoom_to_def zoom_init_def with_element_def example_zoom_def zoom_scale_def example_window_def element_padding_def
        engage_pan_def setTimeout_def no_timers_def due_def deadline_def elapse_def zoom_out_def magnify_def Let_def)
  from zoom_leaves_nothing[OF s(1)] s show ?thesis by auto
qed

text \<open>
  C30: zooming shows what was asked for: from the page as it is, zooming in on an element puts the middle of its rectangle
  in the middle of the window, enlarged, and all of the rectangle, with 20 pixels around it, in the window.
\<close>

theorem zoom_shows_element:
  assumes "level s = 1" and "opt_element options = Some (l, t, w, h)"
    and "0 < w" and "0 < h" and "0 < innerWidth (view s)" and "0 < innerHeight (view s)"
    and "w + 40 < innerWidth (view s)" and "h + 40 < innerHeight (view s)"
  shows "let z = zoom_to True options s in 1 < level z \<and>
     shown_at z (on_page s (l + w / 2) (t + h / 2)) = (innerWidth (view s) / 2, innerHeight (view s) / 2) \<and>
     0 \<le> fst (shown_at z (on_page s (l - 20) (t - 20))) \<and> 0 \<le> snd (shown_at z (on_page s (l - 20) (t - 20))) \<and>
     fst (shown_at z (on_page s (l + w + 20) (t + h + 20))) \<le> innerWidth (view s) \<and>
     snd (shown_at z (on_page s (l + w + 20) (t + h + 20))) \<le> innerHeight (view s)"
proof -
  define c where "c = min (innerWidth (view s) / (w + 40)) (innerHeight (view s) / (h + 40))"
  have pos: "0 < w + 40" "0 < h + 40" using assms(3,4) by simp_all
  have c: "1 < c" using assms(7,8) pos by (simp add: c_def)
  have "c \<le> innerWidth (view s) / (w + 40)" "c \<le> innerHeight (view s) / (h + 40)" by (simp_all add: c_def)
  then have fits: "(w + 40) * c \<le> innerWidth (view s)" "(h + 40) * c \<le> innerHeight (view s)"
    using pos by (simp_all add: field_simps)
  let ?p = "with_element options"
  have p: "opt_x ?p = Some (l - 20)" "opt_y ?p = Some (t - 20)" "opt_width ?p = Some (w + 40)" "opt_height ?p = Some (h + 40)"
    by (simp_all add: with_element_def assms(2) element_padding_def)
  then have "zoom_scale (view s) ?p = Some c" using c by (simp add: zoom_scale_def c_def)
  note z = zoomed_in[OF assms(1) refl this c]
  have shown: "shown_at (zoom_to True options s) (on_page s a b) =
      (innerWidth (view s) / 2 + (a - (l + w / 2)) * c, innerHeight (view s) / 2 + (b - (t + h / 2)) * c)" for a b
    using c pos magnified[of c "l - 20" "t - 20" "Some (w + 40)" "Some (h + 40)" s a b]
    unfolding z(1) p by (simp add: or_zero_def algebra_simps)
  show ?thesis using fits c by (simp add: Let_def z(2) shown field_simps)
qed

theorem zoom_shows_element_witness:
  "let z = zoom_to True example_zoom (zoom_init example_window) in
     1 < level z \<and> shown_at z (on_page (zoom_init example_window) 200 100) = (500, 250)"
proof -
  have "level (zoom_init example_window) = 1" "opt_element example_zoom = Some (120, 70, 160, 60)"
    "innerWidth (view (zoom_init example_window)) = 1000" "innerHeight (view (zoom_init example_window)) = 500"
    by (simp_all add: zoom_init_def example_zoom_def example_window_def)
  with zoom_shows_element[of "zoom_init example_window" example_zoom 120 70 160 60] show ?thesis by (simp add: Let_def)
qed

text \<open>
  In a corner only one of the two scrolls lasts: the horizontal one goes back to the vertical offset that was read before
  the vertical one.
\<close>

lemma pan_in_a_corner:
  assumes "mouseX s < innerWidth (view s) * (12 / 100)" and "mouseY s < innerHeight (view s) * (12 / 100)"
  shows "scrollY (view (pan id s)) = scrollY (view s)"
  using assms by (simp add: pan_def window_scroll_def Let_def)

end
