(* ===== verification/Search.thy ===== *)
theory Search
  imports JsRegExp JsValue
begin

text \<open>
  The search plugin of the slides (\<^verbatim>\<open>src/slides/plugin/search/plugin.js\<close>): marking the matches in the document
  (\<^verbatim>\<open>Hilitor\<close>), removing the marks, and stepping through the slides that have one. Parameters are the \<^verbatim>\<open>RegExp\<close>
  constructor, the presentation's \<^verbatim>\<open>getIndices\<close>, and the names that arrays inherit.
\<close>

section \<open>The document\<close>

text \<open>
  An element has its tag, an identity (of which \<^verbatim>\<open>getIndices\<close> makes the place of a slide), and the background that
  marks get. The target of the search is the body.
\<close>

record element_info =
  nodeName :: string
  identity :: nat
  backgroundColor :: string

datatype dom = Text string | Elem element_info "dom list"

definition hiliteTag :: string where
  "hiliteTag = ''EM''"

definition skip_tag :: "string \<Rightarrow> bool" where
  "skip_tag name \<longleftrightarrow> name = hiliteTag \<or> name = ''SCRIPT'' \<or> name = ''FORM''"

definition colors :: "string list" where
  "colors = [''#ff6'', ''#a0ffff'', ''#9f9'', ''#f99'', ''#f6f'']"

text \<open>The variables of a \<^verbatim>\<open>Hilitor\<close>: the colours of the words, the next colour, and the slides found.\<close>

record hilitor =
  wordColor :: "(string \<times> string) list"
  colorIdx :: nat
  matchingSlides :: "(nat \<times> nat) list"

definition new_Hilitor :: hilitor where
  "new_Hilitor = \<lparr>wordColor = [], colorIdx = 0, matchingSlides = []\<rparr>"

definition key_of_word :: "string \<Rightarrow> string" where
  "key_of_word s = map (\<lambda>c. if is_upper c \<or> (192 \<le> code_of c \<and> code_of c \<le> 222 \<and> code_of c \<noteq> 215)
     then char_of (code_of c + 32) else c) s"

text \<open>
  \<^verbatim>\<open>wordColor\<close> is an array: its \<^verbatim>\<open>length\<close> is falsy until an index is set and cannot be set to a colour, and a name that
  arrays inherit is truthy, but no colour, so the style is left empty.
\<close>

definition array_index :: "string \<Rightarrow> bool" where
  "array_index s \<longleftrightarrow> s \<noteq> [] \<and> list_all is_digit s \<and> (hd s = CHR ''0'' \<longrightarrow> s = ''0'') \<and>
     digits_value s < 2 ^ 32 - 1"

definition word_color :: "(string \<Rightarrow> bool) \<Rightarrow> string \<Rightarrow> hilitor \<Rightarrow> thrown + (string \<times> hilitor)" where
  "word_color inherited word h =
     (let key = key_of_word word in
      if key = ''length'' then
        if list_ex (\<lambda>(k, col). array_index k) (wordColor h) then Inr ('''', h) else Inl (ErrorObject ''Invalid array length'')
      else if inherited key then Inr ('''', h)
      else case map_of (wordColor h) key of
        Some col \<Rightarrow> Inr (col, h)
      | None \<Rightarrow>
          (let col = colors ! (colorIdx h mod length colors) in
           Inr (col, h\<lparr>wordColor := (key, col) # wordColor h, colorIdx := colorIdx h + 1\<rparr>)))"

definition add_slide :: "nat \<times> nat \<Rightarrow> hilitor \<Rightarrow> hilitor" where
  "add_slide i h = (if i \<in> set (matchingSlides h) then h else h\<lparr>matchingSlides := matchingSlides h @ [i]\<rparr>)"

definition mark :: "string \<Rightarrow> string \<Rightarrow> dom" where
  "mark col m = Elem \<lparr>nodeName = hiliteTag, identity = 0, backgroundColor = col\<rparr> [Text m]"

text \<open>
  \<^verbatim>\<open>hiliteWords\<close> on the children of a node, from one on: \<open>sec\<close> is the closest section above them. A text with a match
  becomes the text before it, the mark, and the text after it, which comes next but one. What it leaves of the nodes and
  of the \<^verbatim>\<open>Hilitor\<close>, also when it throws; \<open>None\<close> is a search that never ends.
\<close>

type_synonym searched = "dom list \<times> hilitor \<times> thrown option"

partial_function (option) hilite ::
    "(string \<Rightarrow> bool) \<Rightarrow> (nat option \<Rightarrow> nat \<times> nat) \<Rightarrow> regex \<Rightarrow> nat option \<Rightarrow> hilitor \<Rightarrow> dom list \<Rightarrow> searched option" where
  "hilite inherited getIndices r sec h ns =
     (case ns of
        [] \<Rightarrow> Some ([], h, None)
      | Text s # ks \<Rightarrow>
          (case (if s = [] then None else search r s) of
             None \<Rightarrow>
               Option.bind (hilite inherited getIndices r sec h ks) (\<lambda>(ks', h', e). Some (Text s # ks', h', e))
           | Some (u, m, g, v) \<Rightarrow>
               (case word_color inherited m (add_slide (getIndices sec) h) of
                  Inl t \<Rightarrow> Some (Text s # ks, add_slide (getIndices sec) h, Some t)
                | Inr (col, h1) \<Rightarrow>
                    Option.bind (hilite inherited getIndices r sec h1 (Text v # ks)) (\<lambda>(ks', h', e).
                      Some (Text u # mark col m # ks', h', e))))
      | Elem i kids # ks \<Rightarrow>
          Option.bind (if skip_tag (nodeName i) then Some (kids, h, None)
              else hilite inherited getIndices r (if nodeName i = ''SECTION'' then Some (identity i) else sec) h kids)
            (\<lambda>(kids', h1, e). case e of
               Some t \<Rightarrow> Some (Elem i kids' # ks, h1, Some t)
             | None \<Rightarrow> Option.bind (hilite inherited getIndices r sec h1 ks) (\<lambda>(ks', h', e'). Some (Elem i kids' # ks', h', e'))))"

declare hilite.simps [code]

text \<open>
  \<^verbatim>\<open>remove\<close>: the first element with the tag of the marks is replaced by its first child, until there is none; an element
  without a child makes \<^verbatim>\<open>replaceChild\<close> throw, and those after it stay.
\<close>

definition no_child :: thrown where
  "no_child = ErrorObject ''replaceChild: parameter 1 is not of type Node''"

fun remove_marks :: "dom list \<Rightarrow> dom list \<times> thrown option" where
  "remove_marks [] = ([], None)"
| "remove_marks (Text s # ks) = (let (ks', e) = remove_marks ks in (Text s # ks', e))"
| "remove_marks (Elem i [] # ks) =
     (if nodeName i = hiliteTag then (Elem i [] # ks, Some no_child)
      else let (ks', e) = remove_marks ks in (Elem i [] # ks', e))"
| "remove_marks (Elem i (k # kids) # ks) =
     (if nodeName i = hiliteTag then remove_marks (k # ks)
      else case remove_marks (k # kids) of
        (kids', Some t) \<Rightarrow> (Elem i kids' # ks, Some t)
      | (kids', None) \<Rightarrow> let (ks', e) = remove_marks ks in (Elem i kids' # ks', e))"

section \<open>The search box\<close>

text \<open>
  The variables of the plugin, what the box contains, the children of the body, and the slides gone to, the latest last.
  The box is made when it is first needed. A handler leaves a state and perhaps throws.
\<close>

record search_box =
  rendered :: bool
  hasHilitor :: bool
  matchedSlides :: "(nat \<times> nat) list option"
  currentMatchedIndex :: nat
  searchboxDirty :: bool
  shown :: bool
  input_value :: string
  body_nodes :: "dom list"
  visited :: "(nat \<times> nat) list"

type_synonym handled = "search_box \<times> thrown option"

definition search_init :: "dom list \<Rightarrow> search_box" where
  "search_init ns = \<lparr>rendered = False, hasHilitor = False, matchedSlides = None, currentMatchedIndex = 0, searchboxDirty = False,
     shown = False, input_value = '''', body_nodes = ns, visited = []\<rparr>"

definition remove_if :: "search_box \<Rightarrow> handled" where
  "remove_if s = (if hasHilitor s then let (ns, e) = remove_marks (body_nodes s) in (s\<lparr>body_nodes := ns\<rparr>, e) else (s, None))"

definition next_slide :: "search_box \<Rightarrow> search_box" where
  "next_slide s =
     (case matchedSlides s of
        None \<Rightarrow> s
      | Some ms \<Rightarrow>
          (let i = (if ms \<noteq> [] \<and> length ms \<le> currentMatchedIndex s then 0 else currentMatchedIndex s) in
           if length ms > i then s\<lparr>visited := visited s @ [ms ! i], currentMatchedIndex := i + 1\<rparr>
           else s\<lparr>currentMatchedIndex := i\<rparr>))"

text \<open>\<^verbatim>\<open>setRegex\<close>; \<open>compile\<close> is the constructor \<^verbatim>\<open>new RegExp('(' + input + ')', 'i')\<close>, \<open>None\<close> when it throws.\<close>

definition setRegex :: "(string \<Rightarrow> regex option) \<Rightarrow> string \<Rightarrow> regex option" where
  "setRegex compile input = compile (trim input)"

text \<open>\<^verbatim>\<open>apply\<close>.\<close>

definition apply_hilitor ::
    "(string \<Rightarrow> regex option) \<Rightarrow> (string \<Rightarrow> bool) \<Rightarrow> (nat option \<Rightarrow> nat \<times> nat) \<Rightarrow> string \<Rightarrow> dom list \<Rightarrow> searched option" where
  "apply_hilitor compile inherited getIndices input ns =
     (case remove_marks ns of
        (ns', Some t) \<Rightarrow> Some (ns', new_Hilitor, Some t)
      | (ns', None) \<Rightarrow>
          (case setRegex compile input of
             None \<Rightarrow> Some (ns', new_Hilitor, Some (ErrorObject ''Invalid regular expression''))
           | Some r \<Rightarrow> hilite inherited getIndices r None new_Hilitor ns'))"

lemmas hilitor_defs = apply_hilitor_def setRegex_def

definition doSearch ::
    "(string \<Rightarrow> regex option) \<Rightarrow> (string \<Rightarrow> bool) \<Rightarrow> (nat option \<Rightarrow> nat \<times> nat) \<Rightarrow> search_box \<Rightarrow> handled option" where
  "doSearch compile inherited getIndices s =
     (if \<not> searchboxDirty s then Some (next_slide s, None)
      else if input_value s = '''' then
        (case remove_if s of
           (s1, Some t) \<Rightarrow> Some (s1, Some t)
         | (s1, None) \<Rightarrow> Some (next_slide (s1\<lparr>matchedSlides := None\<rparr>), None))
      else
        (case apply_hilitor compile inherited getIndices (input_value s) (body_nodes s) of
           None \<Rightarrow> None
         | Some (ns, h, Some t) \<Rightarrow> Some (s\<lparr>hasHilitor := True, body_nodes := ns\<rparr>, Some t)
         | Some (ns, h, None) \<Rightarrow>
             Some (next_slide (s\<lparr>hasHilitor := True, body_nodes := ns, matchedSlides := Some (matchingSlides h),
                                 currentMatchedIndex := 0\<rparr>), None)))"

text \<open>\<^verbatim>\<open>render\<close> makes the box, and closes it; \<^verbatim>\<open>render_if\<close> is the test at the beginning of the three operations.\<close>

definition hide_box :: "search_box \<Rightarrow> handled" where
  "hide_box s = remove_if (s\<lparr>shown := False\<rparr>)"

definition render_box :: "search_box \<Rightarrow> handled" where
  "render_box s = hide_box (s\<lparr>rendered := True, input_value := ''''\<rparr>)"

definition render_if :: "search_box \<Rightarrow> (search_box \<Rightarrow> handled) \<Rightarrow> handled" where
  "render_if s f =
     (if rendered s then f s else case render_box s of (s1, Some t) \<Rightarrow> (s1, Some t) | (s1, None) \<Rightarrow> f s1)"

definition openSearch :: "search_box \<Rightarrow> handled" where
  "openSearch s = render_if s (\<lambda>s1. (s1\<lparr>shown := True\<rparr>, None))"

definition closeSearch :: "search_box \<Rightarrow> handled" where
  "closeSearch s = render_if s hide_box"

definition toggleSearch :: "search_box \<Rightarrow> handled" where
  "toggleSearch s = render_if s (\<lambda>s1. if \<not> shown s1 then openSearch s1 else closeSearch s1)"

text \<open>
  What happens to the plugin: a key that is not Enter goes up in the box, which then has a new value; the value changes
  without a key, by the mouse; Enter goes up; a key goes down in the document; the presentation calls an operation. The
  first three happen only while the box is shown.
\<close>

datatype search_event = Typed string | Pasted string | EnterKey | KeyDown string bool bool | Open | Close | Toggle

definition search_handle ::
    "(string \<Rightarrow> regex option) \<Rightarrow> (string \<Rightarrow> bool) \<Rightarrow> (nat option \<Rightarrow> nat \<times> nat) \<Rightarrow> search_event \<Rightarrow> search_box \<Rightarrow> handled option" where
  "search_handle compile inherited getIndices e s =
     (case e of
        Typed v \<Rightarrow> Some (s\<lparr>input_value := v, searchboxDirty := True\<rparr>, None)
      | Pasted v \<Rightarrow> Some (s\<lparr>input_value := v\<rparr>, None)
      | EnterKey \<Rightarrow>
          (case doSearch compile inherited getIndices s of
             None \<Rightarrow> None
           | Some (s1, Some t) \<Rightarrow> Some (s1, Some t)
           | Some (s1, None) \<Rightarrow> Some (s1\<lparr>searchboxDirty := False\<rparr>, None))
      | KeyDown key ctrlKey metaKey \<Rightarrow>
          Some (if key = ''F'' \<and> (ctrlKey \<or> metaKey) then toggleSearch s else (s, None))
      | Open \<Rightarrow> Some (openSearch s)
      | Close \<Rightarrow> Some (closeSearch s)
      | Toggle \<Rightarrow> Some (toggleSearch s))"

fun reaches_box :: "search_event \<Rightarrow> bool" where
  "reaches_box (Typed v) = True"
| "reaches_box (Pasted v) = True"
| "reaches_box EnterKey = True"
| "reaches_box e = False"

inductive search_step ::
    "(string \<Rightarrow> regex option) \<Rightarrow> (string \<Rightarrow> bool) \<Rightarrow> (nat option \<Rightarrow> nat \<times> nat) \<Rightarrow> search_box \<Rightarrow> search_event \<Rightarrow> search_box \<Rightarrow> bool"
  for compile :: "string \<Rightarrow> regex option" and inherited :: "string \<Rightarrow> bool" and getIndices :: "nat option \<Rightarrow> nat \<times> nat" where
  search_event: "(reaches_box e \<Longrightarrow> rendered s \<and> shown s) \<Longrightarrow> search_handle compile inherited getIndices e s = Some (t, error) \<Longrightarrow>
    search_step compile inherited getIndices s e t"

section \<open>What a search finds\<close>

fun node_size :: "dom \<Rightarrow> nat" where
  "node_size (Text s) = Suc (length s)"
| "node_size (Elem e kids) = Suc (sum_list (map node_size kids))"

abbreviation nodes_size :: "dom list \<Rightarrow> nat" where
  "nodes_size ns \<equiv> sum_list (map node_size ns)"

definition has_match :: "regex \<Rightarrow> string \<Rightarrow> bool" where
  "has_match r s \<longleftrightarrow> s \<noteq> [] \<and> search r s \<noteq> None"

text \<open>The sections of the texts that have a match, outside the elements that are skipped.\<close>

fun found :: "regex \<Rightarrow> nat option \<Rightarrow> dom \<Rightarrow> nat option list" where
  "found r sec (Text s) = (if has_match r s then [sec] else [])"
| "found r sec (Elem e kids) =
     (if skip_tag (nodeName e) then []
      else concat (map (found r (if nodeName e = ''SECTION'' then Some (identity e) else sec)) kids))"

text \<open>Two documents are alike when they differ only in how texts are cut.\<close>

definition add_text :: "string \<Rightarrow> dom list \<Rightarrow> dom list" where
  "add_text s ns = (if s = [] then ns else case ns of Text t # ks \<Rightarrow> Text (s @ t) # ks | _ \<Rightarrow> Text s # ns)"

fun merged :: "dom list \<Rightarrow> dom list" where
  "merged [] = []"
| "merged (Text s # ks) = add_text s (merged ks)"
| "merged (Elem e kids # ks) = Elem e (merged kids) # merged ks"

fun no_marks :: "dom \<Rightarrow> bool" where
  "no_marks (Text s) = True"
| "no_marks (Elem e kids) = (nodeName e \<noteq> hiliteTag \<and> list_all no_marks kids)"

lemma add_text_twice: "add_text u (add_text v ns) = add_text (u @ v) ns"
  by (auto simp: add_text_def split: list.splits dom.splits)

lemma remove_marks_Elem:
  "nodeName i \<noteq> hiliteTag \<Longrightarrow> remove_marks (Elem i kids # ks) =
     (case remove_marks kids of
        (kids', Some t) \<Rightarrow> (Elem i kids' # ks, Some t)
      | (kids', None) \<Rightarrow> let (ks', e) = remove_marks ks in (Elem i kids' # ks', e))"
  by (cases kids) (simp_all add: Let_def split: prod.splits option.splits)

lemma remove_marks_none: "list_all no_marks ns \<Longrightarrow> remove_marks ns = (ns, None)"
  by (induction ns rule: remove_marks.induct) auto

lemma remove_marks_all: "remove_marks ns = (ns', None) \<Longrightarrow> list_all no_marks ns'"
proof (induction ns arbitrary: ns' rule: remove_marks.induct)
  case (4 i k kids ks)
  then show ?case by (auto split: if_splits prod.splits option.splits simp: Let_def)
qed (auto split: if_splits prod.splits simp: Let_def)

lemma remove_mark: "remove_marks (mark col m # ks) = remove_marks (Text m # ks)"
  by (simp add: mark_def)

text \<open>Removing the marks of \<open>ns'\<close> gives \<open>ns\<close> back, up to how its texts are cut.\<close>

definition restores :: "dom list \<Rightarrow> dom list \<Rightarrow> bool" where
  "restores ns' ns \<longleftrightarrow> snd (remove_marks ns') = None \<and> merged (fst (remove_marks ns')) = merged ns"

lemma restores_Nil: "restores [] []"
  by (simp add: restores_def)

lemma restores_Text: "restores ks' ks \<Longrightarrow> restores (Text s # ks') (Text s # ks)"
  by (simp add: restores_def case_prod_beta)

lemma restores_match:
  "restores ks' (Text v # ks) \<Longrightarrow> restores (Text u # mark col m # ks') (Text (u @ m @ v) # ks)"
  by (simp add: restores_def remove_mark add_text_twice case_prod_beta)

lemma restores_Elem:
  "nodeName i \<noteq> hiliteTag \<Longrightarrow> restores kids' kids \<Longrightarrow> restores ks' ks \<Longrightarrow> restores (Elem i kids' # ks') (Elem i kids # ks)"
  by (cases "remove_marks kids'") (simp add: restores_def remove_marks_Elem case_prod_beta)

lemma restores_refl: "list_all no_marks ns \<Longrightarrow> restores ns ns"
  by (simp add: restores_def remove_marks_none)

text \<open>Whatever a search does before it ends or throws can be undone.\<close>

lemma hilite_restores:
  assumes "hilite inherited getIndices r sec h ns = Some q"
  shows "list_all no_marks ns \<longrightarrow> restores (fst q) ns"
proof (rule hilite.raw_induct[where P = "\<lambda>inherited getIndices r sec h ns q. list_all no_marks ns \<longrightarrow> restores (fst q) ns",
    OF _ assms], goal_cases)
  case (1 f inherited getIndices r sec h ns q)
  note IH = 1(1) and eq = 1(2)
  show ?case
  proof
    assume nm: "list_all no_marks ns"
    consider (nil) "ns = []" | (plain) s ks where "ns = Text s # ks" "(if s = [] then None else search r s) = None"
      | (match) s ks u m g v where "ns = Text s # ks" "(if s = [] then None else search r s) = Some (u, m, g, v)"
      | (elem) i kids ks where "ns = Elem i kids # ks"
      by (metis dom.exhaust list.exhaust not_None_eq prod_cases4)
    then show "restores (fst q) ns"
    proof cases
      case nil
      with eq show ?thesis by (auto simp: restores_Nil)
    next
      case plain
      with eq obtain p where p: "f inherited getIndices r sec h ks = Some p" "fst q = Text s # fst p"
        by (auto simp: plain split: bind_splits)
      from IH[OF p(1)] nm show ?thesis by (simp add: plain p(2) restores_Text)
    next
      case match
      then have s: "s = u @ m @ v" using search_Some by (fastforce split: if_splits)
      show ?thesis
      proof (cases "word_color inherited m (add_slide (getIndices sec) h)")
        case (Inl t)
        with eq match nm show ?thesis by (auto simp: restores_refl)
      next
        case (Inr w)
        with eq match obtain p col where p: "f inherited getIndices r sec (snd w) (Text v # ks) = Some p"
          "fst q = Text u # mark col m # fst p" by (cases w) (auto split: bind_splits)
        from IH[OF p(1)] nm show ?thesis by (simp add: match(1) p(2) s restores_match)
      qed
    next
      case elem
      let ?sec = "if nodeName i = ''SECTION'' then Some (identity i) else sec"
      let ?kids = "if skip_tag (nodeName i) then Some (kids, h, None) else f inherited getIndices r ?sec h kids"
      from nm have plain: "nodeName i \<noteq> hiliteTag" "list_all no_marks kids" "list_all no_marks ks" by (simp_all add: elem)
      from eq obtain kids' h1 e where k: "?kids = Some (kids', h1, e)" by (auto simp: elem split: bind_splits)
      with IH[of inherited getIndices r ?sec h kids "(kids', h1, e)"] plain(2) have "restores kids' kids"
        by (auto simp: restores_refl split: if_splits)
      moreover have "\<exists>ks'. fst q = Elem i kids' # ks' \<and> restores ks' ks"
      proof (cases e)
        case None
        with eq k obtain p where "f inherited getIndices r sec h1 ks = Some p" "fst q = Elem i kids' # fst p"
          by (auto simp: elem split: bind_splits)
        with IH[of inherited getIndices r sec h1 ks p] plain(3) show ?thesis by blast
      next
        case (Some t)
        with eq k plain(3) show ?thesis by (auto simp: elem restores_refl)
      qed
      ultimately show ?thesis using plain(1) by (auto simp: elem restores_Elem)
    qed
  qed
qed

text \<open>What a search must do on the nodes \<open>ns\<close>, given what is found there.\<close>

definition search_result :: "(nat option \<Rightarrow> nat \<times> nat) \<Rightarrow> nat option list \<Rightarrow> hilitor \<Rightarrow> searched \<Rightarrow> bool" where
  "search_result getIndices fs h q \<longleftrightarrow>
     (case q of (ns', h', e) \<Rightarrow>
        (case e of
           Some t \<Rightarrow> t = ErrorObject ''Invalid array length''
         | None \<Rightarrow>
             set (matchingSlides h') = set (matchingSlides h) \<union> getIndices ` set fs \<and>
             (distinct (matchingSlides h) \<longrightarrow> distinct (matchingSlides h'))))"

lemma word_color_cases:
  "(\<exists>t. word_color inherited m h = Inl t \<and> t = ErrorObject ''Invalid array length'' \<and> key_of_word m = ''length'') \<or>
   (\<exists>col h'. word_color inherited m h = Inr (col, h') \<and> matchingSlides h' = matchingSlides h)"
  by (auto simp: word_color_def Let_def split: option.splits)

lemma add_slide_facts:
  "set (matchingSlides (add_slide i h)) = insert i (set (matchingSlides h))"
  "distinct (matchingSlides h) \<Longrightarrow> distinct (matchingSlides (add_slide i h))"
  by (auto simp: add_slide_def)

lemma search_result_seq:
  assumes "search_result getIndices fs h (ns1, h1, None)" and "search_result getIndices gs h1 q"
    and "set xs = set fs \<union> set gs"
  shows "search_result getIndices xs h (ns2, snd q)"
  using assms by (cases q) (auto simp: search_result_def image_Un split: option.splits)

lemma search_result_cong:
  "search_result getIndices fs h q \<Longrightarrow> snd q' = snd q \<Longrightarrow> search_result getIndices fs h q'"
  by (cases q; cases q') (simp add: search_result_def)

lemma hilite_finds:
  assumes "never_empty r"
  shows "\<exists>q. hilite inherited getIndices r sec h ns = Some q \<and> search_result getIndices (concat (map (found r sec) ns)) h q"
proof (induction ns arbitrary: sec h rule: measure_induct_rule[where f = nodes_size])
  case (less ns)
  consider (nil) "ns = []" | (plain) s ks where "ns = Text s # ks" "\<not> has_match r s"
    | (match) s ks where "ns = Text s # ks" "has_match r s" | (elem) i kids ks where "ns = Elem i kids # ks"
    by (metis dom.exhaust list.exhaust)
  then show ?case
  proof cases
    case nil
    then show ?thesis by (simp add: hilite.simps search_result_def)
  next
    case plain
    from less[of ks sec h] plain(1) obtain ks' p where
      q: "hilite inherited getIndices r sec h ks = Some (ks', p)" "search_result getIndices (concat (map (found r sec) ks)) h (ks', p)" by auto
    from plain(2) have none: "(if s = [] then None else search r s) = None" by (cases "search r s") (auto simp: has_match_def)
    from search_result_cong[OF q(2)] plain(2) show ?thesis
      by (subst hilite.simps) (cases p, simp add: plain(1) none q(1))
  next
    case match
    then obtain u m g v where s: "search r s = Some (u, m, g, v)" "s \<noteq> []" by (auto simp: has_match_def)
    from search_Some[OF s(1)] assms have m: "s = u @ m @ v" "m \<noteq> []" by (auto simp: never_empty_def)
    let ?h = "add_slide (getIndices sec) h"
    show ?thesis
    proof (cases "word_color inherited m ?h")
      case (Inl t)
      with word_color_cases[of inherited m ?h] show ?thesis
        by (subst hilite.simps) (auto simp: match(1) s search_result_def)
    next
      case (Inr p)
      with word_color_cases[of inherited m ?h] obtain col h1 where
        p: "p = (col, h1)" "matchingSlides h1 = matchingSlides ?h" by auto
      have here: "search_result getIndices [sec] h ([], h1, None)"
        using add_slide_facts[where i = "getIndices sec" and h = h] by (simp add: search_result_def p(2))
      from less[of "Text v # ks" sec h1] match(1) m obtain ks' q where
        q: "hilite inherited getIndices r sec h1 (Text v # ks) = Some (ks', q)"
           "search_result getIndices (concat (map (found r sec) (Text v # ks))) h1 (ks', q)" by auto
      have "set (concat (map (found r sec) ns)) = set [sec] \<union> set (concat (map (found r sec) (Text v # ks)))"
        using match by auto
      from search_result_seq[OF here q(2) this] show ?thesis
        by (subst hilite.simps) (cases q, simp add: match(1) s Inr p(1) q(1))
    qed
  next
    case elem
    let ?sec = "if nodeName i = ''SECTION'' then Some (identity i) else sec"
    let ?kids = "if skip_tag (nodeName i) then Some (kids, h, None) else hilite inherited getIndices r ?sec h kids"
    have "\<exists>q. ?kids = Some q \<and> search_result getIndices (found r sec (Elem i kids)) h q"
    proof (cases "skip_tag (nodeName i)")
      case True
      then show ?thesis by (simp add: search_result_def)
    next
      case False
      then have "found r sec (Elem i kids) = concat (map (found r ?sec) kids)" by simp
      with False less[of kids ?sec h] elem show ?thesis by simp
    qed
    then obtain kids' h1 e where q: "?kids = Some (kids', h1, e)" "search_result getIndices (found r sec (Elem i kids)) h (kids', h1, e)"
      by (metis prod_cases3)
    show ?thesis
    proof (cases e)
      case (Some t)
      with q show ?thesis by (subst hilite.simps) (simp add: elem search_result_def)
    next
      case None
      from less[of ks sec h1] elem obtain ks' p where
        q': "hilite inherited getIndices r sec h1 ks = Some (ks', p)" "search_result getIndices (concat (map (found r sec) ks)) h1 (ks', p)" by auto
      have "set (concat (map (found r sec) ns)) = set (found r sec (Elem i kids)) \<union> set (concat (map (found r sec) ks))"
        by (simp add: elem)
      from search_result_seq[OF q(2)[unfolded None] q'(2) this] show ?thesis
        by (subst hilite.simps) (cases p, simp add: elem q(1) None q'(1))
    qed
  qed
qed

section \<open>The properties\<close>

text \<open>
  C31: a search finds the slides it should and can be undone: with an expression that matches no empty text, on a document
  without emphasis of its own, it ends; removing the marks gives the document back, up to how its texts are cut; and unless
  it throws for the word \<^verbatim>\<open>length\<close>, the slides it steps through are, each once, those of the texts with a match.
\<close>

theorem search_finds_and_restores:
  assumes "compile (trim input) = Some r" and "never_empty r" and "list_all no_marks ns"
  shows "\<exists>ns' h e. apply_hilitor compile inherited getIndices input ns = Some (ns', h, e) \<and> restores ns' ns \<and>
     (case e of
        Some t \<Rightarrow> t = ErrorObject ''Invalid array length''
      | None \<Rightarrow> set (matchingSlides h) = getIndices ` set (concat (map (found r None) ns)) \<and> distinct (matchingSlides h))"
proof -
  from hilite_finds[OF assms(2)] obtain ns' h e where
    q: "hilite inherited getIndices r None new_Hilitor ns = Some (ns', h, e)"
    "search_result getIndices (concat (map (found r None) ns)) new_Hilitor (ns', h, e)" by (metis prod_cases3)
  from hilite_restores[OF q(1)] q assms(1,3) show ?thesis
    by (auto simp: hilitor_defs remove_marks_none search_result_def new_Hilitor_def split: option.splits)
qed

definition section_node :: "nat \<Rightarrow> dom list \<Rightarrow> dom" where
  "section_node i ks = Elem \<lparr>nodeName = ''SECTION'', identity = i, backgroundColor = ''''\<rparr> ks"

definition indices_example :: "nat option \<Rightarrow> nat \<times> nat" where
  "indices_example i = (case i of None \<Rightarrow> (0, 0) | Some k \<Rightarrow> (k, 0))"

definition compile_example :: "string \<Rightarrow> regex option" where
  "compile_example s = Some (Lit s)"

theorem search_finds_and_restores_witness:
  "\<exists>ns h. apply_hilitor compile_example (\<lambda>_. False) indices_example '' b ''
       [section_node 1 [Text ''abc''], section_node 2 [Text ''xyz'']] = Some (ns, h, None) \<and> set (matchingSlides h) = {(1, 0)} \<and>
     merged (fst (remove_marks ns)) = [section_node 1 [Text ''abc''], section_node 2 [Text ''xyz'']]"
proof -
  let ?ns = "[section_node 1 [Text ''abc''], section_node 2 [Text ''xyz'']]"
  have t: "compile_example (trim '' b '') = Some (Lit ''b'')" by code_simp
  have ne: "never_empty (Lit ''b'')" by (simp add: never_empty_def)
  have nm: "list_all no_marks ?ns" by (simp add: section_node_def hiliteTag_def)
  have s: "has_match (Lit ''b'') ''abc''" "\<not> has_match (Lit ''b'') ''xyz''" by code_simp+
  have "hilite (\<lambda>_. False) indices_example (Lit ''b'') None new_Hilitor ?ns =
      Some ([section_node 1 [Text ''a'', mark ''#ff6'' ''b'', Text ''c''], section_node 2 [Text ''xyz'']],
        \<lparr>wordColor = [(''b'', ''#ff6'')], colorIdx = 1, matchingSlides = [(1, 0)]\<rparr>, None)" by code_simp
  then have "\<exists>p h. apply_hilitor compile_example (\<lambda>_. False) indices_example '' b '' ?ns = Some (p, h, None)"
    unfolding hilitor_defs remove_marks_none[OF nm] t by simp
  with search_finds_and_restores[where compile = compile_example and input = "'' b ''" and inherited = "\<lambda>_. False" and
      getIndices = indices_example, OF t ne nm] s show ?thesis
    by (auto simp: section_node_def skip_tag_def hiliteTag_def indices_example_def restores_def add_text_def)
qed

section \<open>The document during a session\<close>

definition search_inv :: "dom list \<Rightarrow> search_box \<Rightarrow> bool" where
  "search_inv ns s \<longleftrightarrow>
     restores (body_nodes s) ns \<and>
     (\<not> shown s \<or> \<not> hasHilitor s \<longrightarrow> list_all no_marks (body_nodes s)) \<and>
     (\<not> rendered s \<longrightarrow> \<not> shown s \<and> \<not> hasHilitor s)"

lemma remove_if_inv:
  assumes "restores (body_nodes s) ns" and "\<not> hasHilitor s \<longrightarrow> list_all no_marks (body_nodes s)"
  shows "\<exists>ns'. remove_if s = (s\<lparr>body_nodes := ns'\<rparr>, None) \<and> list_all no_marks ns' \<and> restores ns' ns"
proof (cases "hasHilitor s")
  case True
  obtain ns' e where m: "remove_marks (body_nodes s) = (ns', e)" by fastforce
  with assms have "e = None" "merged ns' = merged ns" by (simp_all add: restores_def)
  with m remove_marks_all[of "body_nodes s" ns'] True show ?thesis
    by (intro exI[of _ ns']) (simp add: remove_if_def restores_def remove_marks_none)
next
  case False
  with assms show ?thesis by (auto simp: remove_if_def intro!: exI[of _ "body_nodes s"])
qed

lemma hide_box_inv:
  assumes "search_inv ns s" and "rendered s"
  shows "\<exists>t. hide_box s = (t, None) \<and> search_inv ns t \<and> rendered t \<and> \<not> shown t"
proof -
  obtain ns' where "hide_box s = (s\<lparr>shown := False, body_nodes := ns'\<rparr>, None)" "list_all no_marks ns'" "restores ns' ns"
    using remove_if_inv[of "s\<lparr>shown := False\<rparr>" ns] assms(1) by (auto simp: hide_box_def search_inv_def)
  with assms show ?thesis by (simp add: search_inv_def)
qed

lemma render_if_inv:
  assumes "search_inv ns s" and "\<And>s1. search_inv ns s1 \<Longrightarrow> rendered s1 \<Longrightarrow> \<exists>t. f s1 = (t, None) \<and> search_inv ns t \<and> P t"
  shows "\<exists>t. render_if s f = (t, None) \<and> search_inv ns t \<and> P t"
proof (cases "rendered s")
  case False
  with assms(1) have "search_inv ns (s\<lparr>rendered := True, input_value := ''''\<rparr>)" by (simp add: search_inv_def)
  from hide_box_inv[OF this] obtain s1 where "render_box s = (s1, None)" "search_inv ns s1" "rendered s1"
    by (auto simp: render_box_def)
  with assms(2)[of s1] False show ?thesis by (simp add: render_if_def)
qed (use assms in \<open>simp add: render_if_def\<close>)

lemma open_close_inv:
  assumes "search_inv ns s"
  shows "\<exists>t. openSearch s = (t, None) \<and> search_inv ns t \<and> shown t"
    and "\<exists>t. closeSearch s = (t, None) \<and> search_inv ns t \<and> \<not> shown t"
proof -
  show "\<exists>t. openSearch s = (t, None) \<and> search_inv ns t \<and> shown t"
    unfolding openSearch_def by (rule render_if_inv[OF assms]) (auto simp: search_inv_def)
  show "\<exists>t. closeSearch s = (t, None) \<and> search_inv ns t \<and> \<not> shown t"
    unfolding closeSearch_def using hide_box_inv by (intro render_if_inv[OF assms]) blast
qed

lemma toggle_inv:
  assumes "search_inv ns s"
  shows "\<exists>t. toggleSearch s = (t, None) \<and> search_inv ns t"
proof -
  have "\<exists>t. (if \<not> shown s1 then openSearch s1 else closeSearch s1) = (t, None) \<and> search_inv ns t \<and> True"
    if "search_inv ns s1" "rendered s1" for s1
    using open_close_inv[OF that(1)] by auto
  from render_if_inv[OF assms this] show ?thesis by (simp add: toggleSearch_def)
qed

lemma next_slide_inv: "search_inv ns (next_slide s) = search_inv ns s"
  by (simp add: search_inv_def next_slide_def Let_def split: option.splits)

lemma apply_restores:
  assumes "restores ns' ns" and "apply_hilitor compile inherited getIndices input ns' = Some (ns1, h, e)"
  shows "restores ns1 ns"
proof -
  obtain ns'' where m: "remove_marks ns' = (ns'', None)" "merged ns'' = merged ns"
    using assms(1) by (metis restores_def prod.collapse)
  note plain = remove_marks_all[OF m(1)]
  show ?thesis
  proof (cases "compile (trim input)")
    case None
    with assms(2) m plain show ?thesis by (simp add: hilitor_defs restores_def remove_marks_none)
  next
    case (Some r)
    with assms(2) m have "hilite inherited getIndices r None new_Hilitor ns'' = Some (ns1, h, e)"
      by (simp add: hilitor_defs)
    from hilite_restores[OF this] plain m(2) show ?thesis by (simp add: restores_def)
  qed
qed

lemma doSearch_inv:
  assumes "search_inv ns s" and "rendered s" and "shown s" and "doSearch compile inherited getIndices s = Some (t, e)"
  shows "search_inv ns t"
proof (cases "searchboxDirty s")
  case False
  with assms next_slide_inv show ?thesis by (auto simp: doSearch_def)
next
  case dirty: True
  show ?thesis
  proof (cases "input_value s = ''''")
    case True
    from remove_if_inv[of s ns] assms(1) obtain ns' where "remove_if s = (s\<lparr>body_nodes := ns'\<rparr>, None)"
      "list_all no_marks ns'" "restores ns' ns" by (auto simp: search_inv_def)
    with assms dirty True next_slide_inv[of ns "s\<lparr>body_nodes := ns', matchedSlides := None\<rparr>"] show ?thesis
      by (simp add: doSearch_def) (simp add: search_inv_def)
  next
    case False
    with assms(4) dirty obtain ns1 h e1 where
      a: "apply_hilitor compile inherited getIndices (input_value s) (body_nodes s) = Some (ns1, h, e1)"
      by (auto simp: doSearch_def split: option.splits)
    have "restores ns1 ns" using apply_restores[OF _ a] assms(1) by (simp add: search_inv_def)
    with assms dirty False a show ?thesis
      by (cases e1) (auto simp: doSearch_def next_slide_inv, auto simp: search_inv_def)
  qed
qed

lemma search_inv_step: "search_step compile inherited getIndices s e t \<Longrightarrow> search_inv ns s \<Longrightarrow> search_inv ns t"
proof (induction rule: search_step.induct)
  case (search_event e s t error)
  have ops: "search_inv ns (fst (openSearch s))" "search_inv ns (fst (closeSearch s))" "search_inv ns (fst (toggleSearch s))"
    using open_close_inv[OF search_event.prems] toggle_inv[OF search_event.prems] by auto
  show ?case
  proof (cases e)
    case EnterKey
    with search_event obtain s1 e1 where d: "doSearch compile inherited getIndices s = Some (s1, e1)"
      and t: "t = s1 \<or> t = s1\<lparr>searchboxDirty := False\<rparr>"
      by (auto simp: search_handle_def split: option.splits)
    have "search_inv ns s1" using doSearch_inv[OF _ _ _ d] search_event EnterKey by simp
    with t show ?thesis by (auto simp: search_inv_def)
  next
    case (KeyDown key ctrl meta)
    with search_event.hyps(2) have "t = fst (toggleSearch s) \<or> t = s" by (auto simp: search_handle_def split: if_splits)
    with ops search_event.prems show ?thesis by auto
  next
    case (Typed v)
    with search_event show ?thesis by (auto simp: search_handle_def search_inv_def)
  next
    case (Pasted v)
    with search_event show ?thesis by (auto simp: search_handle_def search_inv_def)
  qed (use search_event.hyps(2) ops in \<open>simp_all add: search_handle_def\<close>)
qed

lemma search_inv_init: "list_all no_marks ns \<Longrightarrow> search_inv ns (search_init ns)"
  by (simp add: search_inv_def search_init_def restores_refl)

text \<open>
  C32: a session with the search leaves the document as it was. After any events, searches that throw included, removing the
  marks gives the document back, up to how its texts are cut; while the box is closed there is no mark in it; and
  opening and closing the box never throw.
\<close>

theorem search_keeps_document:
  assumes "list_all no_marks ns" and "steps (search_step compile inherited getIndices) (search_init ns) es s"
  shows "restores (body_nodes s) ns \<and>
     (\<not> shown s \<longrightarrow> list_all no_marks (body_nodes s) \<and> merged (body_nodes s) = merged ns) \<and>
     snd (openSearch s) = None \<and> snd (closeSearch s) = None \<and> snd (toggleSearch s) = None"
proof -
  have inv: "search_inv ns s"
    using steps_preserve[where P = "search_inv ns" and Q = "\<lambda>_. True", OF _ assms(2)] search_inv_step
      search_inv_init[OF assms(1)] by blast
  then have "\<not> shown s \<Longrightarrow> merged (body_nodes s) = merged ns"
    using remove_marks_none[of "body_nodes s"] by (simp add: search_inv_def restores_def)
  with inv open_close_inv[OF inv] toggle_inv[OF inv] show ?thesis by (auto simp: search_inv_def)
qed

theorem search_keeps_document_witness:
  "\<exists>s t. steps (search_step compile_example (\<lambda>_. False) indices_example) (search_init [Text ''abc''])
       [KeyDown ''F'' True False, Typed ''b'', EnterKey, Toggle] s \<and>
     body_nodes s = [Text ''a'', Text ''b'', Text ''c''] \<and> merged (body_nodes s) = merged [Text ''abc'']"
proof -
  let ?ev = "[KeyDown ''F'' True False, Typed ''b'', EnterKey, Toggle]"
  let ?handle = "search_handle compile_example (\<lambda>_. False) indices_example"
  let ?step = "search_step compile_example (\<lambda>_. False) indices_example"
  have nm: "list_all no_marks [Text ''abc'']" by simp
  define run where "run = (\<lambda>e s. case ?handle e s of Some (t, x) \<Rightarrow> t | None \<Rightarrow> s)"
  define s1 where "s1 = run (KeyDown ''F'' True False) (search_init [Text ''abc''])"
  define s2 where "s2 = run (Typed ''b'') s1"
  define s3 where "s3 = run EnterKey s2"
  define s4 where "s4 = run Toggle s3"
  note defs = s4_def s3_def s2_def s1_def run_def
  have ok: "?handle (KeyDown ''F'' True False) (search_init [Text ''abc'']) = Some (s1, None)"
    "?handle (Typed ''b'') s1 = Some (s2, None)" "?handle EnterKey s2 = Some (s3, None)" "?handle Toggle s3 = Some (s4, None)"
    "rendered s1 \<and> shown s1" "rendered s2 \<and> shown s2" "body_nodes s4 = [Text ''a'', Text ''b'', Text ''c'']" "\<not> shown s4"
    unfolding defs by code_simp+
  then have "?step (search_init [Text ''abc'']) (KeyDown ''F'' True False) s1" "?step s1 (Typed ''b'') s2" "?step s2 EnterKey s3"
    "?step s3 Toggle s4" by (auto intro: search_event)
  then have run: "steps ?step (search_init [Text ''abc'']) ?ev s4" by (intro steps_Cons) simp_all
  from search_keeps_document[OF nm run] ok(7,8) run show ?thesis by blast
qed

section \<open>Stepping through the slides\<close>

text \<open>
  Enter goes round the slides found: while the text in the box is not edited, each press goes to the next of them, and
  after the last to the first again.
\<close>

primrec press_enter ::
    "(string \<Rightarrow> regex option) \<Rightarrow> (string \<Rightarrow> bool) \<Rightarrow> (nat option \<Rightarrow> nat \<times> nat) \<Rightarrow> nat \<Rightarrow> search_box \<Rightarrow> handled option" where
  "press_enter compile inherited getIndices 0 s = Some (s, None)"
| "press_enter compile inherited getIndices (Suc n) s =
     Option.bind (search_handle compile inherited getIndices EnterKey s) (\<lambda>q.
       case q of (s1, Some t) \<Rightarrow> Some (s1, Some t) | (s1, None) \<Rightarrow> press_enter compile inherited getIndices n s1)"

lemma next_slide_found:
  assumes "matchedSlides s = Some ms" and "ms \<noteq> []" and "currentMatchedIndex s \<le> length ms"
  shows "\<exists>i. next_slide s = s\<lparr>visited := visited s @ [ms ! (currentMatchedIndex s mod length ms)], currentMatchedIndex := i\<rparr> \<and>
     i \<le> length ms \<and> i mod length ms = Suc (currentMatchedIndex s) mod length ms"
proof (cases "currentMatchedIndex s = length ms")
  case True
  with assms mod_add_self2[of "Suc 0" "length ms"] show ?thesis
    by (intro exI[of _ "Suc 0"]) (auto simp: next_slide_def Let_def Suc_le_eq)
next
  case False
  with assms show ?thesis by (intro exI[of _ "Suc (currentMatchedIndex s)"]) (auto simp: next_slide_def Let_def)
qed

lemma enter_goes_round:
  "\<not> searchboxDirty s \<Longrightarrow> matchedSlides s = Some ms \<Longrightarrow> ms \<noteq> [] \<Longrightarrow> currentMatchedIndex s \<le> length ms \<Longrightarrow>
     \<exists>t. press_enter compile inherited getIndices n s = Some (t, None) \<and>
       visited t = visited s @ map (\<lambda>k. ms ! ((currentMatchedIndex s + k) mod length ms)) [0..<n]"
proof (induction n arbitrary: s)
  case (Suc n)
  from next_slide_found[OF Suc.prems(2-4)] obtain i where i:
    "next_slide s = s\<lparr>visited := visited s @ [ms ! (currentMatchedIndex s mod length ms)], currentMatchedIndex := i\<rparr>"
    "i \<le> length ms" "i mod length ms = Suc (currentMatchedIndex s) mod length ms" by blast
  let ?s = "(next_slide s)\<lparr>searchboxDirty := False\<rparr>"
  from Suc.IH[of ?s] Suc.prems i obtain t where t: "press_enter compile inherited getIndices n ?s = Some (t, None)"
    "visited t = visited ?s @ map (\<lambda>k. ms ! ((i + k) mod length ms)) [0..<n]" by auto
  have "(i + k) mod length ms = (currentMatchedIndex s + Suc k) mod length ms" for k
    using i(3) by (metis add_Suc_right add_Suc_shift mod_add_left_eq)
  then have "map (\<lambda>k. ms ! ((i + k) mod length ms)) [0..<n] =
      map (\<lambda>k. ms ! ((currentMatchedIndex s + k) mod length ms)) [Suc 0..<Suc n]"
    by (simp add: map_Suc_upt[symmetric] comp_def del: upt_Suc)
  with t i(1) Suc.prems(1) show ?case
    by (simp add: search_handle_def doSearch_def upt_conv_Cons[of 0 "Suc n"] del: upt_Suc)
qed simp

lemma enter_goes_round_example:
  "\<exists>t. press_enter (\<lambda>_. None) (\<lambda>_. False) (\<lambda>_. (0, 0)) 3
       ((search_init [])\<lparr>matchedSlides := Some [(1, 0), (4, 2)], currentMatchedIndex := 1\<rparr>) = Some (t, None) \<and>
     visited t = [(4, 2), (1, 0), (4, 2)]"
proof -
  let ?s = "(search_init [])\<lparr>matchedSlides := Some [(1, 0), (4, 2)], currentMatchedIndex := 1\<rparr>"
  have "\<exists>t. press_enter (\<lambda>_. None) (\<lambda>_. False) (\<lambda>_. (0, 0)) 3 ?s = Some (t, None) \<and>
     visited t = visited ?s @ map (\<lambda>k. [(1, 0), (4, 2 :: nat)] ! ((currentMatchedIndex ?s + k) mod length [(1 :: nat, 0 :: nat), (4, 2)])) [0..<3]"
    by (rule enter_goes_round) (simp_all add: search_init_def)
  moreover have "map (\<lambda>k. [(1, 0), (4, 2 :: nat)] ! ((1 + k) mod length [(1 :: nat, 0 :: nat), (4, 2)])) [0..<3] = [(4 :: nat, 2), (1, 0), (4, 2)]"
    by code_simp
  ultimately show ?thesis by (simp add: search_init_def)
qed

section \<open>What goes wrong\<close>

text \<open>A search for spaces never ends: the trimmed text matches the empty text in front of every text.\<close>

lemma empty_match_hangs:
  assumes "hilite inherited getIndices r sec h ns = Some q"
  shows "\<not> (\<exists>s ks g. ns = Text s # ks \<and> s \<noteq> [] \<and> search r s = Some ([], [], g, s))"
proof (rule hilite.raw_induct[where P = "\<lambda>inherited getIndices r sec h ns q.
    \<not> (\<exists>s ks g. ns = Text s # ks \<and> s \<noteq> [] \<and> search r s = Some ([], [], g, s))", OF _ assms], goal_cases)
  case (1 f inherited getIndices r sec h ns q)
  show ?case
  proof
    assume "\<exists>s ks g. ns = Text s # ks \<and> s \<noteq> [] \<and> search r s = Some ([], [], g, s)"
    then obtain s ks g where s: "ns = Text s # ks" "s \<noteq> []" "search r s = Some ([], [], g, s)" by blast
    obtain col h1 where "word_color inherited [] (add_slide (getIndices sec) h) = Inr (col, h1)"
      using word_color_cases[of inherited "[]" "add_slide (getIndices sec) h"] by (auto simp: key_of_word_def)
    with 1(2) s obtain q' where "f inherited getIndices r sec h1 (Text s # ks) = Some q'" by (auto split: bind_splits)
    from 1(1)[OF this] s show False by blast
  qed
qed

lemma spaces_search_hangs:
  assumes "compile '''' = Some (Group 1 Eps)" and "s \<noteq> []"
  shows "apply_hilitor compile inherited getIndices ''  '' [Text s] = None"
proof -
  obtain c w where s: "s = c # w" using assms(2) by (cases s) auto
  have t: "trim ''  '' = ''''" by code_simp
  have "\<exists>g. search (Group 1 Eps) s = Some ([], [], g, s)" by (simp add: s search_def match_here_def)
  then have "hilite inherited getIndices (Group 1 Eps) None new_Hilitor [Text s] = None"
    using empty_match_hangs[of inherited getIndices "Group 1 Eps" None new_Hilitor "[Text s]"] assms(2)
    by (cases "hilite inherited getIndices (Group 1 Eps) None new_Hilitor [Text s]") auto
  then show ?thesis by (simp add: hilitor_defs t assms(1))
qed

text \<open>
  A search for the word \<^verbatim>\<open>length\<close> throws, because the array of colours has a length. Removing marks also removes the
  document's own emphasis, of which it keeps the first child only, and throws when it has none. And because the texts stay
  cut where a match was, a later search misses the words that reach over a cut: after \<^verbatim>\<open>b\<close>, the word \<^verbatim>\<open>bc\<close> is not found in
  \<^verbatim>\<open>abc\<close>, which it is at first.
\<close>

lemma length_search_throws: "word_color inherited ''Length'' new_Hilitor = Inl (ErrorObject ''Invalid array length'')"
proof -
  have "key_of_word ''Length'' = ''length''" by code_simp
  then show ?thesis by (simp add: word_color_def new_Hilitor_def)
qed

lemma emphasis_is_lost:
  "nodeName e = ''EM'' \<Longrightarrow> remove_marks [Elem e [Text a, Text b]] = ([Text a], None)"
  "nodeName e = ''EM'' \<Longrightarrow> remove_marks [Elem e []] = ([Elem e []], Some no_child)"
  by (simp_all add: hiliteTag_def)

lemma second_search_misses:
  defines "apply_b \<equiv> apply_hilitor compile_example (\<lambda>_. False) indices_example"
  shows "map_option (matchingSlides \<circ> fst \<circ> snd) (apply_b ''bc'' [Text ''abc'']) = Some [(0, 0)]"
    and "map_option (matchingSlides \<circ> fst \<circ> snd) (Option.bind (apply_b ''b'' [Text ''abc'']) (apply_b ''bc'' \<circ> fst)) = Some []"
  unfolding apply_b_def by code_simp+

end
