(* ===== verification/SpeakerNotes.thy ===== *)
theory SpeakerNotes
  imports JsValue
begin

text \<open>
  The notes plugin of the slides (\<^verbatim>\<open>src/slides/plugin/notes/plugin.js\<close>): the speaker window, the handshake with it over
  posted messages, the calls it may make on the presentation, and the notes that are sent for a slide.
\<close>

section \<open>The notes of a slide\<close>

text \<open>An \<^verbatim>\<open>aside.notes\<close>: its HTML, whether it has \<^verbatim>\<open>data-markdown\<close>, and whether it is inside a fragment.\<close>

record notes_element =
  innerHTML :: string
  is_markdown :: bool
  in_fragment :: bool

record fragment =
  fragment_aside :: "notes_element option"
  fragment_notes :: "string option"

record slide =
  data_notes :: "string option"
  asides :: "notes_element list"
  current_fragment :: "fragment option"

text \<open>The fields of the message; an undefined \<^verbatim>\<open>markdown\<close> is left out by \<^verbatim>\<open>JSON.stringify\<close>.\<close>

record notes_data =
  notes_text :: string
  markdown :: "bool option"
  whitespace :: string

definition from_slide_attribute :: "slide \<Rightarrow> notes_data" where
  "from_slide_attribute s =
     (case data_notes s of
        None \<Rightarrow> \<lparr>notes_text = '''', markdown = Some False, whitespace = ''normal''\<rparr>
      | Some n \<Rightarrow> \<lparr>notes_text = n, markdown = Some False, whitespace = ''pre-wrap''\<rparr>)"

text \<open>The notes of the current fragment, and whether those of the slide are still looked for.\<close>

definition from_fragment :: "slide \<Rightarrow> notes_data \<Rightarrow> notes_data \<times> bool" where
  "from_fragment s d =
     (case current_fragment s of
        None \<Rightarrow> (d, True)
      | Some f \<Rightarrow>
          (case fragment_aside f of
             Some a \<Rightarrow> (d\<lparr>notes_text := innerHTML a, markdown := Some (is_markdown a)\<rparr>, False)
           | None \<Rightarrow>
               (case fragment_notes f of
                  Some n \<Rightarrow> (d\<lparr>notes_text := n, whitespace := ''pre-wrap''\<rparr>, False)
                | None \<Rightarrow> (d, True))))"

definition notes_of :: "slide \<Rightarrow> notes_data" where
  "notes_of s =
     (let (d, look) = from_fragment s (from_slide_attribute s) in
      if look \<and> asides s \<noteq> [] then
        (let own = filter (\<lambda>a. \<not> in_fragment a) (asides s) in
         d\<lparr>notes_text := join [newline] (map innerHTML own),
           markdown := (case own of [] \<Rightarrow> None | a # _ \<Rightarrow> Some (is_markdown a))\<rparr>)
      else d)"

section \<open>The speaker window\<close>

text \<open>What the page is: the configured address of the presentation, and its location.\<close>

record page_info =
  config_url :: jprim
  protocol :: string
  host :: string
  pathname :: string
  search_part :: string

definition presentation_url :: "page_info \<Rightarrow> string" where
  "presentation_url p =
     (case config_url p of Str u \<Rightarrow> u | _ \<Rightarrow> protocol p @ ''//'' @ host p @ pathname p @ search_part p)"

datatype posted = Connect string | Return nat | State notes_data

text \<open>
  A message that arrives: the window it comes from, whether that window's location can be read and has the same origin,
  and what its text parses to: the namespace, the type, and for a call its method and identifier.
\<close>

record message =
  source :: nat
  same_origin :: bool
  is_text :: bool
  parsed :: "(string \<times> string \<times> string \<times> nat) option"

text \<open>
  The plugin's variables; \<open>running\<close> are the intervals that run, \<open>closed_windows\<close> the windows that were closed. The
  messages posted, the calls made on the presentation, both the latest last. \<open>listening\<close> and \<open>subscribed\<close> are the listener
  of messages and the handlers of the presentation's events; adding one that is there has no effect. \<open>watching\<close> is the
  listener of heartbeats.
\<close>

record notes_plugin =
  the_page :: page_info
  speakerWindow :: "nat option"
  connectInterval :: "nat option"
  running :: "nat list"
  next_handle :: nat
  closed_windows :: "nat list"
  listening :: bool
  subscribed :: bool
  watching :: bool
  has_key :: bool
  posts :: "(nat \<times> posted) list"
  calls :: "(string \<times> nat) list"

definition is_closed :: "notes_plugin \<Rightarrow> nat \<Rightarrow> bool" where
  "is_closed s w \<longleftrightarrow> w \<in> set (closed_windows s)"

definition post_message :: "posted \<Rightarrow> notes_plugin \<Rightarrow> thrown + notes_plugin" where
  "post_message m s =
     (case speakerWindow s of
        None \<Rightarrow> Inl (read_error ''null'' ''postMessage'')
      | Some w \<Rightarrow> Inr (s\<lparr>posts := posts s @ [(w, m)]\<rparr>))"

definition post :: "slide \<Rightarrow> notes_plugin \<Rightarrow> thrown + notes_plugin" where
  "post sl s = post_message (State (notes_of sl)) s"

definition onConnected :: "slide \<Rightarrow> notes_plugin \<Rightarrow> thrown + notes_plugin" where
  "onConnected sl s = post sl (s\<lparr>subscribed := True\<rparr>)"

definition connect :: "notes_plugin \<Rightarrow> notes_plugin" where
  "connect s =
     s\<lparr>connectInterval := Some (next_handle s), running := next_handle s # running s, next_handle := Suc (next_handle s),
       listening := True\<rparr>"

text \<open>
  \<^verbatim>\<open>openSpeakerWindow\<close>; \<open>opened\<close> is what \<^verbatim>\<open>window.open\<close> returns. When that is \<^verbatim>\<open>null\<close>, setting a property of it throws,
  before the code asks whether it is.
\<close>

definition set_property_error :: "string \<Rightarrow> thrown" where
  "set_property_error name =
     ErrorObject (''Cannot set properties of null (setting '' @ [CHR 0x27] @ name @ [CHR 0x27] @ '')'')"

definition openSpeakerWindow :: "nat option \<Rightarrow> notes_plugin \<Rightarrow> notes_plugin \<times> thrown option" where
  "openSpeakerWindow opened s =
     (if (case speakerWindow s of None \<Rightarrow> False | Some w \<Rightarrow> \<not> is_closed s w) then (s, None)
      else case opened of
        None \<Rightarrow> (s\<lparr>speakerWindow := None\<rparr>, Some (set_property_error ''marked''))
      | Some w \<Rightarrow> (connect (s\<lparr>speakerWindow := Some w, closed_windows := filter (\<lambda>v. v \<noteq> w) (closed_windows s)\<rparr>), None))"

definition reconnectSpeakerWindow :: "slide \<Rightarrow> nat \<Rightarrow> notes_plugin \<Rightarrow> notes_plugin" where
  "reconnectSpeakerWindow sl w s =
     (if (case speakerWindow s of None \<Rightarrow> False | Some v \<Rightarrow> \<not> is_closed s v) then s
      else (case onConnected sl (s\<lparr>speakerWindow := Some w, listening := True\<rparr>) of Inl t \<Rightarrow> s | Inr s' \<Rightarrow> s'))"

section \<open>Messages\<close>

definition reveal_notes :: string where
  "reveal_notes = ''reveal-notes''"

text \<open>A call: the presentation's method may throw, then nothing is posted; \<open>callable\<close> is the presentation's part.\<close>

definition callRevealApi :: "(string \<Rightarrow> bool) \<Rightarrow> string \<Rightarrow> nat \<Rightarrow> notes_plugin \<Rightarrow> notes_plugin" where
  "callRevealApi callable methodName callId s =
     (let s1 = s\<lparr>calls := calls s @ [(methodName, callId)]\<rparr> in
      if callable methodName then (case post_message (Return callId) s1 of Inl t \<Rightarrow> s1 | Inr s2 \<Rightarrow> s2) else s1)"

definition stop_interval :: "nat option \<Rightarrow> notes_plugin \<Rightarrow> notes_plugin" where
  "stop_interval i s = s\<lparr>running := filter (\<lambda>j. Some j \<noteq> i) (running s)\<rparr>"

definition onPostMessage :: "(string \<Rightarrow> bool) \<Rightarrow> slide \<Rightarrow> message \<Rightarrow> notes_plugin \<Rightarrow> notes_plugin" where
  "onPostMessage callable sl m s =
     (if \<not> same_origin m then s
      else case parsed m of
        None \<Rightarrow> s
      | Some (namespace, kind, methodName, callId) \<Rightarrow>
          if namespace = reveal_notes \<and> kind = ''connected'' then
            (let s1 = stop_interval (connectInterval s) s in
             case onConnected sl s1 of Inl t \<Rightarrow> s1\<lparr>subscribed := True\<rparr> | Inr s2 \<Rightarrow> s2)
          else if namespace = reveal_notes \<and> kind = ''call'' then callRevealApi callable methodName callId s
          else s)"

definition heartbeat :: "slide \<Rightarrow> message \<Rightarrow> notes_plugin \<Rightarrow> notes_plugin" where
  "heartbeat sl m s =
     (if speakerWindow s = None \<and> is_text m then
        (case parsed m of
           None \<Rightarrow> s
         | Some (namespace, kind, methodName, callId) \<Rightarrow>
             if namespace = reveal_notes \<and> kind = ''heartbeat'' then reconnectSpeakerWindow sl (source m) s else s)
      else s)"

text \<open>
  \<^verbatim>\<open>init\<close>, for a page whose query makes it a receiver, or asks for the notes, or neither: the two patterns ignore case.
\<close>

datatype query = Receiver | WithNotes | Plain

definition query_of :: "string \<Rightarrow> query" where
  "query_of location_search =
     (let q = map (\<lambda>c. if is_upper c then char_of (code_of c + 32) else c) location_search in
      if js_includes q ''receiver'' then Receiver
      else if js_includes q ''?notes'' \<or> js_includes q ''&notes'' then WithNotes
      else Plain)"

definition notes_start :: "page_info \<Rightarrow> notes_plugin" where
  "notes_start p = \<lparr>the_page = p, speakerWindow = None, connectInterval = None, running = [], next_handle = 1, closed_windows = [],
     listening = False, subscribed = False, watching = False, has_key = False, posts = [], calls = []\<rparr>"

text \<open>When opening throws, the key binding is not reached.\<close>

definition notes_init :: "page_info \<Rightarrow> nat option \<Rightarrow> notes_plugin" where
  "notes_init p opened =
     (case query_of (search_part p) of
        Receiver \<Rightarrow> notes_start p
      | WithNotes \<Rightarrow>
          (case openSpeakerWindow opened (notes_start p) of
             (s, None) \<Rightarrow> s\<lparr>has_key := True\<rparr> | (s, Some t) \<Rightarrow> s)
      | Plain \<Rightarrow> (notes_start p)\<lparr>watching := True, has_key := True\<rparr>)"

text \<open>
  The key, a call of the plugin's \<^verbatim>\<open>open\<close>, a message (seen by the heartbeat listener, which was added first, and the other), an interval's tick, an event
  of the presentation, and a window that is closed.
\<close>

datatype notes_event =
    OpenKey "nat option"
  | OpenCall "nat option"
  | Message message slide
  | Tick nat
  | DeckEvent slide
  | Closed nat

definition receive :: "(string \<Rightarrow> bool) \<Rightarrow> slide \<Rightarrow> message \<Rightarrow> notes_plugin \<Rightarrow> notes_plugin" where
  "receive callable sl m s =
     (let s1 = (if watching s then heartbeat sl m s else s) in
      if listening s then onPostMessage callable sl m s1 else s1)"

inductive notes_step :: "(string \<Rightarrow> bool) \<Rightarrow> notes_plugin \<Rightarrow> notes_event \<Rightarrow> notes_plugin \<Rightarrow> bool"
  for callable :: "string \<Rightarrow> bool" where
  open_key: "has_key s \<Longrightarrow> notes_step callable s (OpenKey opened) (fst (openSpeakerWindow opened s))"
| open_call: "notes_step callable s (OpenCall opened) (fst (openSpeakerWindow opened s))"
| message: "notes_step callable s (Message m sl) (receive callable sl m s)"
| tick: "i \<in> set (running s) \<Longrightarrow>
    notes_step callable s (Tick i) (case post_message (Connect (presentation_url (the_page s))) s of Inl t \<Rightarrow> s | Inr s' \<Rightarrow> s')"
| deck_event: "subscribed s \<Longrightarrow> notes_step callable s (DeckEvent sl) (case post sl s of Inl t \<Rightarrow> s | Inr s' \<Rightarrow> s')"
| closed: "notes_step callable s (Closed w) (s\<lparr>closed_windows := w # closed_windows s\<rparr>)"

inductive_simps notes_step_iff:
  "notes_step callable s (OpenKey opened) t" "notes_step callable s (OpenCall opened) t" "notes_step callable s (Message m sl) t" "notes_step callable s (Tick i) t"
  "notes_step callable s (DeckEvent sl) t" "notes_step callable s (Closed w) t"

section \<open>Calls and posts\<close>

text \<open>The calls that a message makes when its window has the origin of the page.\<close>

fun call_of :: "notes_event \<Rightarrow> (string \<times> nat) list" where
  "call_of (Message m sl) =
     (case parsed m of
        Some (namespace, kind, methodName, callId) \<Rightarrow>
          if same_origin m \<and> namespace = reveal_notes \<and> kind = ''call'' then [(methodName, callId)] else []
      | None \<Rightarrow> [])"
| "call_of e = []"

lemma post_message_calls: "post_message m s = Inr s' \<Longrightarrow>
    calls s' = calls s \<and> running s' = running s \<and> listening s' = listening s \<and> subscribed s' = subscribed s \<and> has_key s' = has_key s"
  by (auto simp: post_message_def split: option.splits)

lemma onConnected_calls: "onConnected sl s = Inr s' \<Longrightarrow> calls s' = calls s \<and> listening s' = listening s"
  by (auto simp: onConnected_def post_def dest: post_message_calls)

lemma heartbeat_calls: "calls (heartbeat sl m s) = calls s"
  by (auto simp: heartbeat_def reconnectSpeakerWindow_def split: option.splits sum.splits dest: onConnected_calls)

lemma onPostMessage_calls: "calls (onPostMessage callable sl m s) = calls s @ call_of (Message m sl)"
  by (auto simp: onPostMessage_def callRevealApi_def Let_def stop_interval_def reveal_notes_def
      split: option.splits sum.splits dest!: post_message_calls onConnected_calls)

lemma receive_calls:
  "calls (receive callable sl m s) = calls s @ (if listening s then call_of (Message m sl) else [])"
  by (simp add: receive_def Let_def onPostMessage_calls heartbeat_calls del: call_of.simps)

lemma open_calls: "calls (fst (openSpeakerWindow opened s)) = calls s"
  by (auto simp: openSpeakerWindow_def connect_def split: option.splits)

lemma notes_step_calls:
  "notes_step callable s e t \<Longrightarrow> calls t = calls s @ (if listening s then call_of e else [])"
  by (induction rule: notes_step.induct)
     (auto simp: receive_calls open_calls post_def simp del: call_of.simps(1) split: sum.splits dest!: post_message_calls)


lemma notes_steps_calls:
  "steps (notes_step callable) s es t \<Longrightarrow>
     \<exists>taken. calls t = calls s @ concat (map call_of taken) \<and> subseq taken es"
proof (induction rule: steps.induct)
  case (steps_Cons s e t es u)
  then obtain taken where taken: "calls u = calls t @ concat (map call_of taken)" "subseq taken es" by blast
  from notes_step_calls[OF steps_Cons(1)] show ?case
  proof (cases "listening s")
    case True
    with notes_step_calls[OF steps_Cons(1)] taken show ?thesis
      by (intro exI[of _ "e # taken"]) simp
  next
    case False
    with notes_step_calls[OF steps_Cons(1)] taken show ?thesis
      by (intro exI[of _ taken]) auto
  qed
qed (auto intro: exI[of _ "[]"])

lemma notes_init_calls: "calls (notes_init p opened) = []"
  by (auto simp: notes_init_def notes_start_def openSpeakerWindow_def connect_def split: query.splits option.splits)

lemma call_of_same_origin: "c \<in> set (call_of e) \<Longrightarrow> \<exists>m sl. e = Message m sl \<and> same_origin m"
  by (cases e) (auto split: option.splits if_splits)

section \<open>The properties\<close>

text \<open>
  C33: only pages of the same origin drive the presentation: whatever messages arrive, from whatever windows, every call
  made on the presentation was asked for by a message of the same origin, and the calls are made in the order of the
  messages.
\<close>

theorem notes_calls_same_origin:
  assumes "steps (notes_step callable) (notes_init p opened) es t"
  shows "(\<exists>taken. subseq taken es \<and> calls t = concat (map call_of taken)) \<and>
     (\<forall>c \<in> set (calls t). \<exists>m sl. Message m sl \<in> set es \<and> same_origin m \<and> c \<in> set (call_of (Message m sl)))"
proof -
  from notes_steps_calls[OF assms] notes_init_calls obtain taken where
    taken: "calls t = concat (map call_of taken)" "subseq taken es" by auto
  moreover have "\<exists>m sl. Message m sl \<in> set es \<and> same_origin m \<and> c \<in> set (call_of (Message m sl))" if "c \<in> set (calls t)" for c
  proof -
    from that taken(1) obtain e where e: "e \<in> set taken" "c \<in> set (call_of e)" by auto
    from list_emb_set[OF taken(2) e(1)] have "e \<in> set es" by blast
    with call_of_same_origin[OF e(2)] e(2) show ?thesis by auto
  qed
  ultimately show ?thesis by blast
qed

definition message_from :: "nat \<Rightarrow> bool \<Rightarrow> string \<Rightarrow> string \<Rightarrow> message" where
  "message_from w origin kind method' =
     \<lparr>source = w, same_origin = origin, is_text = True, parsed = Some (reveal_notes, kind, method', 5)\<rparr>"

definition plain_page :: page_info where
  "plain_page = \<lparr>config_url = Undefined, protocol = ''https:'', host = ''a.b'', pathname = ''/s'', search_part = ''''\<rparr>"

lemma plain_page_query [simp]: "query_of (search_part plain_page) = Plain"
  by code_simp

definition empty_slide :: slide where
  "empty_slide = \<lparr>data_notes = Some ''hello'', asides = [], current_fragment = None\<rparr>"

theorem notes_calls_same_origin_witness:
  "\<exists>t. steps (notes_step (\<lambda>_. True)) (notes_init plain_page None)
       [OpenKey (Some 7), Message (message_from 8 False ''call'' ''configure'') empty_slide,
        Message (message_from 7 True ''call'' ''next'') empty_slide] t \<and>
     calls t = [(''next'', 5)] \<and>
     (\<forall>c \<in> set (calls t). c \<in> set (call_of (Message (message_from 7 True ''call'' ''next'') empty_slide)))"
proof -
  obtain t where t: "steps (notes_step (\<lambda>_. True)) (notes_init plain_page None)
       [OpenKey (Some 7), Message (message_from 8 False ''call'' ''configure'') empty_slide,
        Message (message_from 7 True ''call'' ''next'') empty_slide] t" and c: "calls t = [(''next'', 5)]"
    by (simp add: steps_Cons_iff notes_step_iff notes_init_def notes_start_def openSpeakerWindow_def connect_def receive_def
        onPostMessage_def heartbeat_def message_from_def reveal_notes_def callRevealApi_def post_message_def Let_def)
  from notes_calls_same_origin[OF t] c have "(''next'', 5) \<in> set (calls t)" by simp
  with t c show ?thesis by (auto simp: message_from_def reveal_notes_def)
qed

text \<open>
  The handshake ends and the speaker view follows the presentation: when the speaker window answers, the interval of
  its connection is stopped, the window gets the notes of the slide, and from then on those of the slide of every event
  of the presentation.
\<close>

lemma handshake_connects:
  assumes "listening s" and "speakerWindow s = Some w" and "same_origin m"
    and "parsed m = Some (reveal_notes, ''connected'', x, n)"
  shows "\<exists>t u. notes_step callable s (Message m sl) t \<and> notes_step callable t (DeckEvent sl') u \<and>
     (case connectInterval s of None \<Rightarrow> True | Some i \<Rightarrow> i \<notin> set (running t)) \<and> set (running t) \<subseteq> set (running s) \<and>
     posts t = posts s @ [(w, State (notes_of sl))] \<and> posts u = posts t @ [(w, State (notes_of sl'))]"
proof -
  have hb: "heartbeat sl m s = s" by (simp add: heartbeat_def assms(2))
  let ?t = "s\<lparr>running := filter (\<lambda>j. Some j \<noteq> connectInterval s) (running s), subscribed := True,
      posts := posts s @ [(w, State (notes_of sl))]\<rparr>"
  have "receive callable sl m s = ?t"
    using assms by (simp add: receive_def hb onPostMessage_def Let_def onConnected_def post_def post_message_def stop_interval_def)
  then have "notes_step callable s (Message m sl) ?t" by (simp add: notes_step_iff)
  moreover have "notes_step callable ?t (DeckEvent sl') (?t\<lparr>posts := posts ?t @ [(w, State (notes_of sl'))]\<rparr>)"
    using assms(2) by (simp add: notes_step_iff post_def post_message_def)
  ultimately show ?thesis by (intro exI conjI) (auto split: option.splits)
qed

lemma handshake_connects_example:
  "\<exists>t u. notes_step (\<lambda>_. False) (fst (openSpeakerWindow (Some 7) (notes_start plain_page))) (Message (message_from 7 True ''connected'' '''') empty_slide) t \<and>
     notes_step (\<lambda>_. False) t (DeckEvent empty_slide) u \<and> running t = [] \<and>
     posts u = [(7, State (notes_of empty_slide)), (7, State (notes_of empty_slide))]"
proof -
  let ?s = "fst (openSpeakerWindow (Some 7) (notes_start plain_page))"
  have s: "listening ?s" "speakerWindow ?s = Some 7" "posts ?s = []" "running ?s = [1]" "connectInterval ?s = Some 1"
    by (simp_all add: openSpeakerWindow_def notes_start_def connect_def)
  have m: "same_origin (message_from 7 True ''connected'' '''')"
    "parsed (message_from 7 True ''connected'' '''') = Some (reveal_notes, ''connected'', '''', 5)" by (simp_all add: message_from_def)
  from handshake_connects[OF s(1,2) m, of "\<lambda>_. False" empty_slide empty_slide] obtain t u where
    "notes_step (\<lambda>_. False) ?s (Message (message_from 7 True ''connected'' '''') empty_slide) t"
    "notes_step (\<lambda>_. False) t (DeckEvent empty_slide) u" "1 \<notin> set (running t)" "set (running t) \<subseteq> {1}"
    "posts u = [(7, State (notes_of empty_slide)), (7, State (notes_of empty_slide))]"
    by (auto simp: s(3-5))
  then show ?thesis by (intro exI[of _ t] exI[of _ u]) (cases "running t"; auto)
qed

text \<open>
  After a reload the speaker window that is still open is taken over: its heartbeat connects it, and asking for the speaker
  view then opens no second window.
\<close>

lemma heartbeat_reconnects:
  assumes "watching s" and "speakerWindow s = None" and "is_text m" and "parsed m = Some (reveal_notes, ''heartbeat'', x, n)"
    and "\<not> is_closed s (source m)"
  shows "let t = heartbeat sl m s in
     speakerWindow t = Some (source m) \<and> listening t \<and> subscribed t \<and> posts t = posts s @ [(source m, State (notes_of sl))] \<and>
     openSpeakerWindow opened t = (t, None)"
  using assms
  by (simp add: heartbeat_def reconnectSpeakerWindow_def onConnected_def post_def post_message_def openSpeakerWindow_def is_closed_def)

section \<open>What goes wrong\<close>

text \<open>
  A popup that is blocked throws, and the alert after it is not reached. A window that is closed before it answered leaves
  an interval that no later handshake stops. A heartbeat is taken from any origin. The notes of a slide's attribute are
  lost when a fragment of the slide that is not current has notes.
\<close>

lemma blocked_popup_throws: "speakerWindow s = None \<Longrightarrow> snd (openSpeakerWindow None s) = Some (set_property_error ''marked'')"
  by (simp add: openSpeakerWindow_def)

lemma interval_is_leaked:
  "\<exists>s. steps (notes_step callable) (notes_init plain_page None)
       [OpenKey (Some 7), Closed 7, OpenKey (Some 8), Message (message_from 8 True ''connected'' '''') empty_slide] s \<and>
     running s = [1]"
  by (simp add: steps_Cons_iff notes_step_iff notes_init_def notes_start_def openSpeakerWindow_def connect_def receive_def
        onPostMessage_def heartbeat_def message_from_def reveal_notes_def Let_def is_closed_def onConnected_def post_def
        post_message_def stop_interval_def)

lemma heartbeat_of_any_origin:
  "speakerWindow s = None \<Longrightarrow>
     posts (heartbeat sl (message_from w False ''heartbeat'' '''') s) = posts s @ [(w, State (notes_of sl))]"
  by (simp add: heartbeat_def message_from_def reveal_notes_def reconnectSpeakerWindow_def onConnected_def post_def post_message_def)

lemma slide_notes_lost:
  assumes "asides s \<noteq> []" and "list_all in_fragment (asides s)" and "current_fragment s = None"
  shows "notes_text (notes_of s) = []"
proof -
  from assms(2) have "filter (\<lambda>a. \<not> in_fragment a) (asides s) = []" by (simp add: filter_empty_conv list_all_iff)
  with assms(1,3) show ?thesis by (simp add: notes_of_def from_fragment_def)
qed

end
