(* ===== verification/MathPlugins.thy ===== *)
theory MathPlugins
  imports JsValue
begin

text \<open>
  The slides' math plugins (\<^verbatim>\<open>katex.js\<close>, \<^verbatim>\<open>mathjax2.js\<close> and \<^verbatim>\<open>mathjax3.js\<close> of \<^verbatim>\<open>src/slides/plugin/math\<close>): the options they
  merge, the files they load, and what they do as those files and the presentation become ready, in whatever order. The
  libraries and the deck only contribute their events; what is asked of them is logged.
\<close>

section \<open>Options\<close>

text \<open>A function carries its source text.\<close>

datatype config_value =
    Prim jprim
  | Items "config_value list"
  | Obj "(string \<times> config_value) list"
  | Closure string

type_synonym config = "(string \<times> config_value) list"

abbreviation Txt :: "string \<Rightarrow> config_value" where
  "Txt s \<equiv> Prim (Str s)"

fun truthy_value :: "config_value \<Rightarrow> bool" where
  "truthy_value (Prim p) = truthy p"
| "truthy_value _ = True"

text \<open>\<^verbatim>\<open>options.name\<close>, and an object's text as the operator \<^verbatim>\<open>+\<close> takes it.\<close>

definition option_at :: "config \<Rightarrow> string \<Rightarrow> config_value" where
  "option_at c k = (case map_of c k of None \<Rightarrow> Prim Undefined | Some v \<Rightarrow> v)"

fun text_of :: "config_value \<Rightarrow> string" where
  "text_of (Prim p) = to_string p"
| "text_of (Items xs) = join '','' (map (\<lambda>x. if x = Prim Undefined \<or> x = Prim Null then [] else text_of x) xs)"
| "text_of (Obj fs) = ''[object Object]''"
| "text_of (Closure s) = s"

text \<open>\<^verbatim>\<open>{ ...base, ...over }\<close>: a key keeps its first place and takes its last value.\<close>

definition spread :: "config \<Rightarrow> config \<Rightarrow> config" where
  "spread base over =
     map (\<lambda>(k, v). (k, case map_of over k of None \<Rightarrow> v | Some v' \<Rightarrow> v')) base @
     filter (\<lambda>(k, v). map_of base k = None) over"

definition set_option :: "string \<Rightarrow> config_value \<Rightarrow> config \<Rightarrow> config" where
  "set_option k v c = spread c [(k, v)]"

text \<open>What a value spreads to: the fields of an object, the numbered items of a list or of a text, or nothing.\<close>

definition numbered :: "config_value list \<Rightarrow> config" where
  "numbered xs = zip (map nat_to_string [0..<length xs]) xs"

fun fields_of :: "config_value \<Rightarrow> config" where
  "fields_of (Obj fs) = fs"
| "fields_of (Items xs) = numbered xs"
| "fields_of (Prim (Str s)) = numbered (map (\<lambda>c. Txt [c]) s)"
| "fields_of _ = []"

definition value_or :: "config_value \<Rightarrow> config_value \<Rightarrow> config_value" where
  "value_or v w = (if truthy_value v then v else w)"

text \<open>The options of the deck's configuration, none when it has none.\<close>

definition config_at :: "config \<Rightarrow> string list \<Rightarrow> config" where
  "config_at deck_config ks =
     (case filter truthy_value (map (option_at deck_config) ks) of [] \<Rightarrow> [] | v # vs \<Rightarrow> fields_of v)"

definition tex_tags :: config_value where
  "tex_tags = Items [Txt ''script'', Txt ''noscript'', Txt ''style'', Txt ''textarea'', Txt ''pre'', Txt ''code'']"

definition backslash :: char where
  "backslash = CHR 0x5C"

definition dollar_and_paren :: config_value where
  "dollar_and_paren =
     Items [Items [Txt ''$'', Txt ''$''], Items [Txt (backslash # ''(''), Txt (backslash # '')'')]]"

lemma map_of_spread: "map_of (spread base over) k = (case map_of over k of None \<Rightarrow> map_of base k | Some v \<Rightarrow> Some v)"
proof -
  have "map_of (map (\<lambda>(k, v). (k, case map_of over k of None \<Rightarrow> v | Some v' \<Rightarrow> v')) base) k =
      map_option (\<lambda>v. case map_of over k of None \<Rightarrow> v | Some v' \<Rightarrow> v') (map_of base k)"
    by (induction base) (auto split: option.splits)
  moreover have "map_of base k = None \<Longrightarrow> map_of (filter (\<lambda>(k, v). map_of base k = None) over) k = map_of over k"
    by (induction over) auto
  ultimately show ?thesis by (auto simp: spread_def map_add_def split: option.splits)
qed

section \<open>KaTeX\<close>

definition delimiter :: "string \<Rightarrow> string \<Rightarrow> bool \<Rightarrow> config_value" where
  "delimiter left' right' display =
     Obj [(''left'', Txt left'), (''right'', Txt right'), (''display'', Prim (Bool display))]"

definition katex_defaults :: config where
  "katex_defaults =
     [(''version'', Txt ''latest''),
      (''delimiters'', Items [delimiter ''$$'' ''$$'' True, delimiter ''$'' ''$'' False,
         delimiter (backslash # ''('') (backslash # '')'') False, delimiter (backslash # ''['') (backslash # '']'') True]),
      (''ignoredTags'', tex_tags)]"

definition katex_options :: "config \<Rightarrow> config" where
  "katex_options deck_config = spread katex_defaults (config_at deck_config [''katex''])"

text \<open>\<^verbatim>\<open>options.extensions.includes("mhchem")\<close>\<close>

fun includes_value :: "config_value \<Rightarrow> string \<Rightarrow> thrown + bool" where
  "includes_value (Items xs) w = Inr (Txt w \<in> set xs)"
| "includes_value (Prim (Str s)) w = Inr (js_includes s w)"
| "includes_value _ w = Inl (ErrorObject ''options.extensions.includes is not a function'')"

definition katex_base :: "config \<Rightarrow> string" where
  "katex_base c =
     text_of (value_or (option_at c ''local'') (Txt ''https://cdn.jsdelivr.net/npm/katex'')) @
     (if truthy_value (option_at c ''local'') then '''' else ''@'' @ text_of (option_at c ''version''))"

definition katex_css :: "config \<Rightarrow> string" where
  "katex_css c = katex_base c @ ''/dist/katex.min.css''"

definition katex_scripts :: "config \<Rightarrow> thrown + string list" where
  "katex_scripts c =
     and_then (if truthy_value (option_at c ''extensions'') then includes_value (option_at c ''extensions'') ''mhchem''
               else Inr False)
       (\<lambda>mhchem. Inr ([katex_base c @ ''/dist/katex.min.js'']
          @ (if mhchem then [katex_base c @ ''/dist/contrib/mhchem.min.js''] else [])
          @ [katex_base c @ ''/dist/contrib/auto-render.min.js'']))"

definition katex_rest :: "config \<Rightarrow> config" where
  "katex_rest c = filter (\<lambda>(k, v). k \<notin> {''local'', ''version'', ''extensions''}) c"

text \<open>
  The deck becomes ready and announces it once, later; \<open>isReady\<close> is true from the first on. A script is loaded or
  not. \<open>remaining\<close> are the addresses of the loop of \<^verbatim>\<open>loadScripts\<close>, whose \<^verbatim>\<open>await\<close> a script that does not load ends.
\<close>

datatype deck_phase = Starting | Ready | Announced

datatype math_action = RenderMath config | Layout

record katex =
  math_options :: config
  stylesheets :: "string list"
  requested :: "string list"
  remaining :: "string list"
  script_pending :: bool
  on_ready :: bool
  deck :: deck_phase
  actions :: "math_action list"

definition renderMath :: "katex \<Rightarrow> katex" where
  "renderMath s = s\<lparr>actions := actions s @ [RenderMath (math_options s), Layout]\<rparr>"

definition scripts_loaded :: "katex \<Rightarrow> katex" where
  "scripts_loaded s =
     (if deck s \<noteq> Starting then renderMath s else s\<lparr>on_ready := True\<rparr>)"

definition load_next :: "katex \<Rightarrow> katex" where
  "load_next s =
     (case remaining s of
        [] \<Rightarrow> scripts_loaded (s\<lparr>script_pending := False\<rparr>)
      | url' # urls \<Rightarrow> s\<lparr>requested := requested s @ [url'], remaining := urls, script_pending := True\<rparr>)"

definition katex_init :: "config \<Rightarrow> deck_phase \<Rightarrow> thrown + katex" where
  "katex_init deck_config phase' =
     (let c = katex_options deck_config in
      and_then (katex_scripts c) (\<lambda>urls. Inr (load_next
        \<lparr>math_options = katex_rest c, stylesheets = [katex_css c], requested = [], remaining = urls, script_pending = False,
         on_ready = False, deck = phase', actions = []\<rparr>)))"

datatype katex_event = ScriptLoads | ScriptFails | DeckReady | DeckAnnounces

inductive katex_step :: "katex \<Rightarrow> katex_event \<Rightarrow> katex \<Rightarrow> bool" where
  script_loads: "script_pending s \<Longrightarrow> katex_step s ScriptLoads (load_next s)"
| script_fails: "script_pending s \<Longrightarrow> katex_step s ScriptFails (s\<lparr>script_pending := False\<rparr>)"
| deck_ready: "deck s = Starting \<Longrightarrow> katex_step s DeckReady (s\<lparr>deck := Ready\<rparr>)"
| deck_announces: "deck s = Ready \<Longrightarrow> katex_step s DeckAnnounces
    (if on_ready s then renderMath (s\<lparr>deck := Announced\<rparr>) else s\<lparr>deck := Announced\<rparr>)"

inductive_simps katex_step_iff: "katex_step s e t"

text \<open>How many files have been loaded so far; the invariant relates the state to the events that led to it.\<close>

definition loads :: "katex_event list \<Rightarrow> nat" where
  "loads es = length (filter (\<lambda>e. e = ScriptLoads) es)"

lemma loads_simps [simp]:
  "loads [] = 0" "loads (es @ [ScriptLoads]) = Suc (loads es)" "loads (es @ [ScriptFails]) = loads es"
  "loads (es @ [DeckReady]) = loads es" "loads (es @ [DeckAnnounces]) = loads es"
  by (simp_all add: loads_def)

definition katex_inv :: "config \<Rightarrow> string list \<Rightarrow> katex_event list \<Rightarrow> katex \<Rightarrow> bool" where
  "katex_inv c urls es s \<longleftrightarrow>
     requested s = take (Suc (loads es)) urls \<and> remaining s = drop (Suc (loads es)) urls \<and> math_options s = c \<and>
     loads es \<le> length urls \<and> (ScriptFails \<in> set es \<longrightarrow> loads es < length urls) \<and>
     (script_pending s \<longleftrightarrow> loads es < length urls \<and> ScriptFails \<notin> set es) \<and>
     (on_ready s \<longrightarrow> loads es = length urls) \<and>
     actions s = (if loads es = length urls \<and> (on_ready s \<longrightarrow> deck s = Announced) then [RenderMath c, Layout] else []) \<and>
     (deck s = Starting \<and> loads es = length urls \<longrightarrow> on_ready s)"

lemma renderMath_fields [simp]:
  "requested (renderMath s) = requested s" "remaining (renderMath s) = remaining s"
  "script_pending (renderMath s) = script_pending s" "on_ready (renderMath s) = on_ready s"
  "deck (renderMath s) = deck s" "math_options (renderMath s) = math_options s"
  "actions (renderMath s) = actions s @ [RenderMath (math_options s), Layout]"
  by (simp_all add: renderMath_def)

text \<open>The loop goes on when all that was requested has been loaded.\<close>

lemma load_next_inv:
  assumes "requested s @ remaining s = urls" and "length (requested s) = loads es" and "ScriptFails \<notin> set es"
    and "math_options s = c" and "\<not> on_ready s" and "actions s = []"
  shows "katex_inv c urls es (load_next s)"
proof (cases "remaining s")
  case Nil
  with assms show ?thesis by (cases "deck s") (auto simp: katex_inv_def load_next_def scripts_loaded_def)
next
  case (Cons u us)
  with assms(1,2) have "requested s @ [u] = take (Suc (loads es)) urls" "us = drop (Suc (loads es)) urls" by auto
  moreover from Cons assms(1,2) have "loads es < length urls" by auto
  ultimately show ?thesis using Cons assms(3-6) by (simp add: katex_inv_def load_next_def)
qed

lemma katex_inv_step: "katex_step s e t \<Longrightarrow> katex_inv c urls es s \<Longrightarrow> katex_inv c urls (es @ [e]) t"
proof (induction rule: katex_step.induct)
  case (script_loads s)
  then have "loads es < length urls" "requested s = take (Suc (loads es)) urls" "ScriptFails \<notin> set es" "\<not> on_ready s"
    by (auto simp: katex_inv_def)
  with script_loads(2) show ?case by (intro load_next_inv) (simp_all add: katex_inv_def)
next
  case (script_fails s)
  then show ?case by (simp add: katex_inv_def)
next
  case (deck_ready s)
  then show ?case by (cases "on_ready s") (auto simp: katex_inv_def)
next
  case (deck_announces s)
  then show ?case by (cases "on_ready s") (auto simp: katex_inv_def)
qed

lemma katex_inv_steps: "steps katex_step s fs t \<Longrightarrow> katex_inv c urls es s \<Longrightarrow> katex_inv c urls (es @ fs) t"
proof (induction arbitrary: es rule: steps.induct)
  case (steps_Cons s e t fs u)
  from steps_Cons.IH[OF katex_inv_step[OF steps_Cons(1,4)]] show ?case by simp
qed simp

lemma katex_init_Inr:
  "katex_init deck_config p = Inr s \<longleftrightarrow> (\<exists>urls. katex_scripts (katex_options deck_config) = Inr urls \<and>
     s = load_next \<lparr>math_options = katex_rest (katex_options deck_config), stylesheets = [katex_css (katex_options deck_config)],
       requested = [], remaining = urls, script_pending = False, on_ready = False, deck = p, actions = []\<rparr>)"
  by (auto simp: katex_init_def and_then_Inr Let_def)

lemma katex_inv_init:
  "katex_init deck_config p = Inr s \<Longrightarrow> katex_scripts (katex_options deck_config) = Inr urls \<Longrightarrow>
     katex_inv (katex_rest (katex_options deck_config)) urls [] s"
  by (auto simp: katex_init_Inr intro!: load_next_inv)

text \<open>
  C36: KaTeX renders once, and only when everything is there. A file is requested only when all before it have been loaded, in
  their order; the math is rendered, with the presentation's options, only when as many loads have been reported as there are
  files and the deck is ready; it has been rendered once all are loaded and the deck has announced itself,
  whichever comes last, and it is never rendered a second time. Until all are loaded or one has failed, another load may come; after
  a failure nothing is ever rendered.
\<close>

theorem katex_renders_once:
  assumes "katex_init deck_config p = Inr s0" and "katex_scripts (katex_options deck_config) = Inr urls"
    and "steps katex_step s0 es s"
  shows "requested s = take (Suc (loads es)) urls \<and>
     (actions s \<noteq> [] \<longrightarrow> loads es = length urls \<and> deck s \<noteq> Starting \<and>
        actions s = [RenderMath (katex_rest (katex_options deck_config)), Layout]) \<and>
     (loads es = length urls \<and> deck s = Announced \<longrightarrow> actions s \<noteq> []) \<and>
     (loads es < length urls \<and> ScriptFails \<notin> set es \<longrightarrow> (\<exists>t. katex_step s ScriptLoads t)) \<and>
     (ScriptFails \<in> set es \<longrightarrow> actions s = [] \<and> loads es < length urls)"
proof -
  let ?c = "katex_rest (katex_options deck_config)"
  from katex_inv_steps[OF assms(3) katex_inv_init[OF assms(1,2)]] have inv: "katex_inv ?c urls es s" by simp
  moreover have "\<exists>t. katex_step s ScriptLoads t" if "script_pending s"
    using script_loads[OF that] by blast
  ultimately show ?thesis unfolding katex_inv_def
    by (cases "on_ready s"; cases "deck s") (simp_all split: if_splits)
qed

theorem katex_renders_once_witness:
  "\<exists>s0 s. katex_init [] Starting = Inr s0 \<and>
     steps katex_step s0 [ScriptLoads, DeckReady, ScriptLoads, DeckAnnounces] s \<and> length (actions s) = 2 \<and>
     (\<exists>t. steps katex_step s0 [ScriptLoads] t \<and> length (requested t) = 2 \<and> actions t = [])"
proof -
  let ?urls = "[katex_base (katex_options []) @ ''/dist/katex.min.js'',
     katex_base (katex_options []) @ ''/dist/contrib/auto-render.min.js'']"
  have urls: "katex_scripts (katex_options []) = Inr ?urls"
    by (simp add: katex_scripts_def katex_options_def config_at_def option_at_def spread_def katex_defaults_def)
  then obtain s0 where s0: "katex_init [] Starting = Inr s0" by (simp add: katex_init_Inr)
  with urls have "s0 = load_next \<lparr>math_options = katex_rest (katex_options []), stylesheets = [katex_css (katex_options [])],
      requested = [], remaining = ?urls, script_pending = False, on_ready = False, deck = Starting, actions = []\<rparr>"
    by (simp add: katex_init_Inr)
  then obtain s t where s: "steps katex_step s0 [ScriptLoads, DeckReady, ScriptLoads, DeckAnnounces] s" "deck s = Announced"
    and t: "steps katex_step s0 [ScriptLoads] t"
    by (simp add: steps_Cons_iff katex_step_iff load_next_def scripts_loaded_def)
  have "loads [ScriptLoads, DeckReady, ScriptLoads, DeckAnnounces] = 2" "loads [ScriptLoads] = 1" by (simp_all add: loads_def)
  with katex_renders_once[OF s0 urls s(1)] katex_renders_once[OF s0 urls t] s(2)
  have "length (actions s) = 2" "length (requested t) = 2" "actions t = []" by (auto simp: numeral_2_eq_2)
  with s0 s(1) t show ?thesis by blast
qed

section \<open>MathJax 2\<close>

definition mathjax2_defaults :: config where
  "mathjax2_defaults =
     [(''messageStyle'', Txt ''none''),
      (''tex2jax'', Obj [(''inlineMath'', dollar_and_paren), (''skipTags'', tex_tags)]),
      (''skipStartupTypeset'', Prim (Bool True))]"

definition mathjax2_url :: "config \<Rightarrow> string" where
  "mathjax2_url options' =
     text_of (value_or (option_at options' ''mathjax'') (Txt ''https://cdn.jsdelivr.net/npm/mathjax@2/MathJax.js'')) @
     ''?config='' @ text_of (value_or (option_at options' ''config'') (Txt ''TeX-AMS_HTML-full''))"

definition mathjax2_options :: "config \<Rightarrow> config" where
  "mathjax2_options user =
     (let options' = spread mathjax2_defaults user;
          tex = spread (fields_of (option_at mathjax2_defaults ''tex2jax'')) (fields_of (option_at user ''tex2jax''))
      in set_option ''mathjax'' (Prim Null) (set_option ''config'' (Prim Null) (set_option ''tex2jax'' (Obj tex) options')))"

text \<open>What MathJax and the deck are asked to do. A slide is a number, the whole presentation is \<open>None\<close>.\<close>

datatype hub_action = HubConfig config | Typeset "nat option" | HubLayout

record mathjax2 =
  script_url :: string
  hub_options :: config
  callback :: bool
  slide_listener :: bool
  hub :: "hub_action list"

definition mathjax2_init :: "config \<Rightarrow> mathjax2" where
  "mathjax2_init deck_config =
     (let user = config_at deck_config [''mathjax2'', ''math''] in
      \<lparr>script_url = mathjax2_url (spread mathjax2_defaults user), hub_options = mathjax2_options user,
       callback = True, slide_listener = False, hub = []\<rparr>)"

text \<open>\<^verbatim>\<open>finish\<close> of \<^verbatim>\<open>loadScript\<close> with the callback of \<^verbatim>\<open>init\<close>.\<close>

definition mathjax2_finish :: "mathjax2 \<Rightarrow> mathjax2" where
  "mathjax2_finish s =
     (if callback s
      then s\<lparr>hub := hub s @ [HubConfig (hub_options s), Typeset None, HubLayout], slide_listener := True, callback := False\<rparr>
      else s)"

text \<open>
  In an arrow function \<^verbatim>\<open>this\<close> is that of \<^verbatim>\<open>loadScript\<close>, which a module calls without one, so the handler of the ready
  state throws whatever the state.
\<close>

definition onreadystatechange :: "mathjax2 \<Rightarrow> mathjax2 \<times> thrown option" where
  "onreadystatechange s = (s, Some (read_error ''undefined'' ''readyState''))"

definition slide_changed :: "nat \<Rightarrow> mathjax2 \<Rightarrow> mathjax2" where
  "slide_changed i s = (if slide_listener s then s\<lparr>hub := hub s @ [Typeset (Some i)]\<rparr> else s)"

datatype mathjax_event = Onload | ReadyState | SlideChanged nat

fun mathjax2_handle :: "mathjax_event \<Rightarrow> mathjax2 \<Rightarrow> mathjax2" where
  "mathjax2_handle Onload s = mathjax2_finish s"
| "mathjax2_handle ReadyState s = fst (onreadystatechange s)"
| "mathjax2_handle (SlideChanged i) s = slide_changed i s"

text \<open>The slides shown since the file was loaded.\<close>

fun slides_of :: "mathjax_event list \<Rightarrow> nat list" where
  "slides_of [] = []"
| "slides_of (SlideChanged i # es) = i # slides_of es"
| "slides_of (e # es) = slides_of es"

definition after_load :: "mathjax_event list \<Rightarrow> mathjax_event list" where
  "after_load es = drop 1 (dropWhile (\<lambda>e. e \<noteq> Onload) es)"

lemma mathjax2_listening:
  "slide_listener s \<and> \<not> callback s \<Longrightarrow>
     hub (fold mathjax2_handle es s) = hub s @ map (\<lambda>i. Typeset (Some i)) (slides_of es)"
proof (induction es arbitrary: s)
  case (Cons e es)
  then show ?case by (cases e) (simp_all add: mathjax2_finish_def onreadystatechange_def slide_changed_def)
qed simp

lemma mathjax2_waiting:
  "callback s \<and> \<not> slide_listener s \<Longrightarrow>
     hub (fold mathjax2_handle es s) = hub s @
       (if Onload \<in> set es then [HubConfig (hub_options s), Typeset None, HubLayout] @ map (\<lambda>i. Typeset (Some i)) (slides_of (after_load es))
        else [])"
proof (induction es arbitrary: s)
  case (Cons e es)
  then show ?case
    by (cases e) (simp_all add: mathjax2_listening mathjax2_finish_def onreadystatechange_def slide_changed_def after_load_def)
qed simp

section \<open>MathJax 3\<close>

definition ready_text :: string where
  "ready_text = join [newline]
     [''() => {'', replicate 16 (CHR '' '') @ ''MathJax.startup.defaultReady();'',
      replicate 16 (CHR '' '') @ ''MathJax.startup.promise.then(() => {'', replicate 20 (CHR '' '') @ ''deck.layout();'',
      replicate 16 (CHR '' '') @ ''});'', replicate 12 (CHR '' '') @ ''}'']"

definition mathjax3_defaults :: config where
  "mathjax3_defaults =
     [(''tex'', Obj [(''inlineMath'', dollar_and_paren)]),
      (''options'', Obj [(''skipHtmlTags'', tex_tags)]),
      (''startup'', Obj [(''ready'', Closure ready_text)])]"

definition mathjax3_url :: "config \<Rightarrow> string" where
  "mathjax3_url options' =
     text_of (value_or (option_at options' ''mathjax'') (Txt ''https://cdn.jsdelivr.net/npm/mathjax@3/es5/tex-mml-chtml.js''))"

definition merge_at :: "config \<Rightarrow> string \<Rightarrow> config \<Rightarrow> config" where
  "merge_at user k options' =
     set_option k (Obj (spread (fields_of (option_at mathjax3_defaults k)) (fields_of (option_at user k)))) options'"

text \<open>The options with the three groups merged; \<^verbatim>\<open>init\<close> reads the address from them before it clears it.\<close>

definition mathjax3_merged :: "config \<Rightarrow> config" where
  "mathjax3_merged user =
     merge_at user ''startup'' (merge_at user ''options'' (merge_at user ''tex'' (spread mathjax3_defaults user)))"

definition mathjax3_options :: "config \<Rightarrow> config" where
  "mathjax3_options user = set_option ''mathjax'' (Prim Null) (mathjax3_merged user)"

text \<open>The library is configured by a global variable and laid out by its \<open>ready\<close>; a slide makes it typeset everything.\<close>

record mathjax3 =
  script_url3 :: string
  global_options :: config
  callback3 :: bool
  slide_listener3 :: bool
  typesets :: nat

definition mathjax3_init :: "config \<Rightarrow> mathjax3" where
  "mathjax3_init deck_config =
     (let user = config_at deck_config [''mathjax3''] in
      \<lparr>script_url3 = mathjax3_url (mathjax3_merged user),
       global_options = mathjax3_options user, callback3 = True, slide_listener3 = False, typesets = 0\<rparr>)"

fun mathjax3_handle :: "mathjax_event \<Rightarrow> mathjax3 \<Rightarrow> mathjax3" where
  "mathjax3_handle Onload s = (if callback3 s then s\<lparr>slide_listener3 := True, callback3 := False\<rparr> else s)"
| "mathjax3_handle ReadyState s = s"
| "mathjax3_handle (SlideChanged i) s = (if slide_listener3 s then s\<lparr>typesets := typesets s + 1\<rparr> else s)"

lemma mathjax3_listening:
  "slide_listener3 s \<and> \<not> callback3 s \<Longrightarrow> typesets (fold mathjax3_handle es s) = typesets s + length (slides_of es)"
proof (induction es arbitrary: s)
  case (Cons e es)
  then show ?case by (cases e) simp_all
qed simp

lemma mathjax3_waiting:
  "callback3 s \<and> \<not> slide_listener3 s \<Longrightarrow>
     typesets (fold mathjax3_handle es s) = typesets s + length (slides_of (after_load es))"
proof (induction es arbitrary: s)
  case (Cons e es)
  then show ?case by (cases e) (simp_all add: mathjax3_listening after_load_def)
qed (simp add: after_load_def)

text \<open>What a plugin's own option, the user's, the merged one and the cleared address are looked up to.\<close>

lemma option_at_spread: "option_at (spread base over) k = (case map_of over k of None \<Rightarrow> option_at base k | Some v \<Rightarrow> v)"
  by (simp add: option_at_def map_of_spread split: option.splits)

lemma option_at_set: "option_at (set_option k v c) k' = (if k' = k then v else option_at c k')"
  by (simp add: set_option_def option_at_spread)

text \<open>
  What MathJax is told. Once its file has been loaded, however often that is reported, version 2 is configured, typesets the
  presentation and lays it out, and then typesets each slide shown from then on; version 3 typesets
  everything for each of these slides. Before that neither is asked for anything. Both are configured with the
  presentation's options over the defaults, also within the groups, and without the address of the file.
\<close>

lemma mathjax_typesets_shown_slides:
  "hub (fold mathjax2_handle es (mathjax2_init c)) =
     (if Onload \<in> set es
      then [HubConfig (hub_options (mathjax2_init c)), Typeset None, HubLayout] @ map (\<lambda>i. Typeset (Some i)) (slides_of (after_load es))
      else []) \<and>
   typesets (fold mathjax3_handle es (mathjax3_init c)) = length (slides_of (after_load es)) \<and>
   option_at (hub_options (mathjax2_init c)) ''mathjax'' = Prim Null \<and>
   option_at (global_options (mathjax3_init c)) ''mathjax'' = Prim Null \<and>
   option_at (hub_options (mathjax2_init c)) ''messageStyle'' =
     (case map_of (config_at c [''mathjax2'', ''math'']) ''messageStyle'' of None \<Rightarrow> Txt ''none'' | Some v \<Rightarrow> v) \<and>
   option_at (fields_of (option_at (global_options (mathjax3_init c)) ''options'')) ''skipHtmlTags'' =
     (case map_of (fields_of (option_at (config_at c [''mathjax3'']) ''options'')) ''skipHtmlTags'' of None \<Rightarrow> tex_tags | Some v \<Rightarrow> v)"
proof -
  let ?m2 = "mathjax2_init c" and ?m3 = "mathjax3_init c"
  have "callback ?m2 \<and> \<not> slide_listener ?m2 \<and> hub ?m2 = []" by (simp add: mathjax2_init_def Let_def)
  moreover have "callback3 ?m3 \<and> \<not> slide_listener3 ?m3 \<and> typesets ?m3 = 0" by (simp add: mathjax3_init_def Let_def)
  moreover have "option_at (hub_options ?m2) ''mathjax'' = Prim Null" "option_at (global_options ?m3) ''mathjax'' = Prim Null"
    by (simp_all add: mathjax2_init_def mathjax2_options_def mathjax3_init_def mathjax3_options_def option_at_set Let_def)
  moreover have "option_at (hub_options ?m2) ''messageStyle'' =
      (case map_of (config_at c [''mathjax2'', ''math'']) ''messageStyle'' of None \<Rightarrow> Txt ''none'' | Some v \<Rightarrow> v)"
    by (simp add: mathjax2_init_def mathjax2_options_def option_at_set option_at_spread Let_def)
       (simp add: option_at_def mathjax2_defaults_def split: option.split)
  moreover have "option_at (fields_of (option_at (global_options ?m3) ''options'')) ''skipHtmlTags'' =
      (case map_of (fields_of (option_at (config_at c [''mathjax3'']) ''options'')) ''skipHtmlTags'' of None \<Rightarrow> tex_tags | Some v \<Rightarrow> v)"
    by (simp add: mathjax3_init_def mathjax3_options_def mathjax3_merged_def merge_at_def option_at_set option_at_spread Let_def)
       (simp add: option_at_def mathjax3_defaults_def split: option.split)
  ultimately show ?thesis by (simp add: mathjax2_waiting mathjax3_waiting)
qed

text \<open>The branch for old browsers never finishes the loading.\<close>

lemma ready_state_ignored: "mathjax2_handle ReadyState s = s \<and> snd (onreadystatechange s) \<noteq> None"
  by (simp add: onreadystatechange_def)

section \<open>The plugin\<close>

text \<open>The math plugin is that of \<^verbatim>\<open>MathJax2\<close> with the three as its properties.\<close>

datatype typesetter = KaTeX | MathJax2 | MathJax3

definition defaultTypesetter :: typesetter where
  "defaultTypesetter = MathJax2"

end
