(* ===== verification/SlidesBuild.thy ===== *)
theory SlidesBuild
  imports JsValue "HOL-Library.Multiset"
begin

text \<open>
  The build of the slides (\<^verbatim>\<open>src/slides/gulpfile.js\<close>): its tasks and their order, the bundles, the style sheets, the
  package, the server with its watchers, and the tests. Promises settle by events, in any order the libraries (\<^verbatim>\<open>rollup\<close>,
  \<^verbatim>\<open>sass\<close>, \<^verbatim>\<open>node-qunit-puppeteer\<close>) may bring about; what they give is in the events or a parameter.
\<close>

section \<open>Settings\<close>

text \<open>\<^verbatim>\<open>yargs.argv\<close> as the value of each option, and the three options with their defaults.\<close>

definition argument :: "(string \<Rightarrow> jprim) \<Rightarrow> string \<Rightarrow> jprim \<Rightarrow> jprim" where
  "argument argv name otherwise = (if truthy (argv name) then argv name else otherwise)"

definition root_arg :: "(string \<Rightarrow> jprim) \<Rightarrow> jprim" where
  "root_arg argv = argument argv ''root'' (Str ''.'')"

definition port_arg :: "(string \<Rightarrow> jprim) \<Rightarrow> jprim" where
  "port_arg argv = argument argv ''port'' (Num 8000)"

definition host_arg :: "(string \<Rightarrow> jprim) \<Rightarrow> jprim" where
  "host_arg argv = argument argv ''host'' (Str ''localhost'')"

record package_json =
  version :: string
  homepage :: string

definition cssLicense :: "package_json \<Rightarrow> string" where
  "cssLicense pkg = join [newline] ['''', ''reveal.js '' @ version pkg, homepage pkg, ''MIT licensed'', '''',
     ''Copyright (C) 2011-2024 Hakim El Hattab, https://hakim.se'', '''']"

definition jsLicense :: "package_json \<Rightarrow> string" where
  "jsLicense pkg = join [newline] [''/*!'', '' * reveal.js '' @ version pkg, '' * '' @ homepage pkg, '' * MIT licensed'', '' *'',
     '' * Copyright (C) 2011-2024 Hakim El Hattab, https://hakim.se'', '' */'', '''']"

text \<open>An entry of \<^verbatim>\<open>ignore\<close> is a path or a regular expression, here its source.\<close>

datatype ignored = IgnoredPath string | IgnoredPattern string

record babel_config =
  babelHelpers :: string
  ignore_list :: "ignored list"
  compact :: bool
  extensions :: "string list"
  babel_plugins :: "string list"
  preset :: string
  corejs :: nat
  useBuiltIns :: string
  es_modules :: bool
  targets :: "string list option"

definition babelConfig :: babel_config where
  "babelConfig = \<lparr>babelHelpers = ''bundled'', ignore_list = [IgnoredPath ''node_modules''], compact = False,
     extensions = [''.js'', ''.html''], babel_plugins = [''transform-html-import-to-string''], preset = ''@babel/preset-env'',
     corejs = 3, useBuiltIns = ''usage'', es_modules = False, targets = None\<rparr>"

definition babelConfigESM :: babel_config where
  "babelConfigESM = babelConfig\<lparr>targets := Some [''last 2 Chrome versions'', ''last 2 Safari versions'',
     ''last 2 iOS versions'', ''last 2 Firefox versions'', ''last 2 Edge versions'']\<rparr>"

definition pluginBabel :: babel_config where
  "pluginBabel = babelConfig\<lparr>ignore_list := [IgnoredPattern (''node_modules'' @ [CHR 0x5C] @ ''/(?!(highlight'' @ [CHR 0x5C] @
     ''.js|marked)'' @ [CHR 0x5C] @ ''/).*'')]\<rparr>"

section \<open>Bundles\<close>

text \<open>
  What \<^verbatim>\<open>bundle.write\<close> is told, and one call of \<^verbatim>\<open>rollup\<close> with what follows it: the entry of the cache, the input, the
  configuration, the files written, and whether the promise of the writing is returned. The other plugins of \<^verbatim>\<open>rollup\<close> are
  the same in every job: \<^verbatim>\<open>resolve\<close> and \<^verbatim>\<open>commonjs\<close> before \<^verbatim>\<open>babel\<close>, \<^verbatim>\<open>terser\<close> after it.
\<close>

record write_options =
  file_name :: string
  bundle_name :: "string option"
  format :: string
  banner :: "string option"
  sourcemap :: bool

record rollup_job =
  cache_key :: string
  job_input :: string
  babel_config :: babel_config
  outputs :: "write_options list"
  awaited :: bool

definition js_es5 :: "package_json \<Rightarrow> rollup_job list" where
  "js_es5 pkg = [\<lparr>cache_key = ''umd'', job_input = ''js/index.js'', babel_config = babelConfig,
     outputs = [\<lparr>file_name = ''./dist/reveal.js'', bundle_name = Some ''Reveal'', format = ''umd'', banner = Some (jsLicense pkg), sourcemap = True\<rparr>],
     awaited = True\<rparr>]"

definition js_es6 :: "package_json \<Rightarrow> rollup_job list" where
  "js_es6 pkg = [\<lparr>cache_key = ''esm'', job_input = ''js/index.js'', babel_config = babelConfigESM,
     outputs = [\<lparr>file_name = ''./dist/reveal.esm.js'', bundle_name = None, format = ''es'', banner = Some (jsLicense pkg), sourcemap = True\<rparr>],
     awaited = True\<rparr>]"

definition plugin_table :: "(string \<times> string \<times> string) list" where
  "plugin_table =
     [(''RevealHighlight'', ''./plugin/highlight/plugin.js'', ''./plugin/highlight/highlight''),
      (''RevealMarkdown'', ''./plugin/markdown/plugin.js'', ''./plugin/markdown/markdown''),
      (''RevealSearch'', ''./plugin/search/plugin.js'', ''./plugin/search/search''),
      (''RevealNotes'', ''./plugin/notes/plugin.js'', ''./plugin/notes/notes''),
      (''RevealZoom'', ''./plugin/zoom/plugin.js'', ''./plugin/zoom/zoom''),
      (''RevealMath'', ''./plugin/math/plugin.js'', ''./plugin/math/math'')]"

fun plugin_job :: "string \<times> string \<times> string \<Rightarrow> rollup_job" where
  "plugin_job (plugin, source, out) = \<lparr>cache_key = source, job_input = source, babel_config = pluginBabel,
     outputs = [\<lparr>file_name = out @ ''.esm.js'', bundle_name = Some plugin, format = ''es'', banner = None, sourcemap = False\<rparr>,
                \<lparr>file_name = out @ ''.js'', bundle_name = Some plugin, format = ''umd'', banner = None, sourcemap = False\<rparr>],
     awaited = False\<rparr>"

definition plugin_jobs :: "rollup_job list" where
  "plugin_jobs = map plugin_job plugin_table"

text \<open>
  A task that runs: the variable \<^verbatim>\<open>cache\<close>, the calls of \<^verbatim>\<open>rollup\<close> with the cache they got, the jobs that have no bundle
  yet, the files being written, those written, the promises that are not fulfilled, what the task has come to (\<open>None\<close>
  while it runs, then what it failed with, if it did), and the rejections nobody handles.
\<close>

record 'c bundling =
  cached :: "string \<Rightarrow> 'c option"
  rollup_calls :: "(rollup_job \<times> 'c option) list"
  unbundled :: "nat list"
  writing :: "(nat \<times> write_options) list"
  written :: "write_options list"
  unfulfilled :: "nat list"
  task_result :: "thrown option option"
  unhandled :: "thrown list"

definition start_bundling :: "rollup_job list \<Rightarrow> (string \<Rightarrow> 'c option) \<Rightarrow> 'c bundling" where
  "start_bundling jobs cs = \<lparr>cached = cs, rollup_calls = map (\<lambda>j. (j, cs (cache_key j))) jobs, unbundled = [0..<length jobs],
     writing = [], written = [], unfulfilled = [0..<length jobs], task_result = (if jobs = [] then Some None else None), unhandled = []\<rparr>"

text \<open>\<^verbatim>\<open>Promise.all\<close>, or the one promise of a task with a single job: the last to be fulfilled, or the first to be rejected, decides.\<close>

definition fulfil :: "nat \<Rightarrow> 'c bundling \<Rightarrow> 'c bundling" where
  "fulfil i s = (let us = remove1 i (unfulfilled s) in
     s\<lparr>unfulfilled := us, task_result := (if us = [] \<and> task_result s = None then Some None else task_result s)\<rparr>)"

definition reject_task :: "thrown \<Rightarrow> 'c bundling \<Rightarrow> 'c bundling" where
  "reject_task t s = s\<lparr>task_result := (if task_result s = None then Some (Some t) else task_result s)\<rparr>"

datatype 'c build_event = Bundled nat "thrown + 'c" | Wrote nat write_options "thrown option"

definition bundled :: "rollup_job list \<Rightarrow> nat \<Rightarrow> thrown + 'c \<Rightarrow> 'c bundling \<Rightarrow> 'c bundling" where
  "bundled jobs i r s =
     (let s1 = s\<lparr>unbundled := remove1 i (unbundled s)\<rparr> in
      case r of
        Inl t \<Rightarrow> reject_task t s1
      | Inr c \<Rightarrow>
          (let s2 = s1\<lparr>cached := (cached s1)(cache_key (jobs ! i) \<mapsto> c),
                      writing := writing s1 @ map (Pair i) (outputs (jobs ! i))\<rparr>
           in if awaited (jobs ! i) then s2 else fulfil i s2))"

definition wrote :: "rollup_job list \<Rightarrow> nat \<Rightarrow> write_options \<Rightarrow> thrown option \<Rightarrow> 'c bundling \<Rightarrow> 'c bundling" where
  "wrote jobs i w e s =
     (let s1 = s\<lparr>writing := remove1 (i, w) (writing s)\<rparr> in
      case e of
        None \<Rightarrow> (let s2 = s1\<lparr>written := written s1 @ [w]\<rparr> in if awaited (jobs ! i) then fulfil i s2 else s2)
      | Some t \<Rightarrow> if awaited (jobs ! i) then reject_task t s1 else s1\<lparr>unhandled := unhandled s1 @ [t]\<rparr>)"

inductive build_step :: "rollup_job list \<Rightarrow> 'c bundling \<Rightarrow> 'c build_event \<Rightarrow> 'c bundling \<Rightarrow> bool" for jobs :: "rollup_job list" where
  step_bundled: "i \<in> set (unbundled s) \<Longrightarrow> build_step jobs s (Bundled i r) (bundled jobs i r s)"
| step_wrote: "(i, w) \<in> set (writing s) \<Longrightarrow> build_step jobs s (Wrote i w e) (wrote jobs i w e s)"

inductive_simps build_step_iff: "build_step jobs s (Bundled i r) t" "build_step jobs s (Wrote i w e) t"

section \<open>The tests\<close>

text \<open>
  The task \<^verbatim>\<open>qunit\<close>: the files whose tests run, the two totals, the promise \<^verbatim>\<open>tests\<close> and the chain
  \<^verbatim>\<open>tests.then(...).catch(...).finally(...)\<close> with the callbacks still to run, how the returned promise is settled, and
  whether the server is open. A rejection has an error's message, without its colour, or no value. What is written to the
  console is left out.
\<close>

record stats =
  passed :: nat
  total :: nat
  failed :: nat

datatype chain = WaitTests | ThenNext | CatchNext | FinallyNext | ChainDone

datatype verdict = Passed | Failed "string option"

record qunit_run =
  test_files :: "string list"
  totalTests :: nat
  failingTests :: nat
  chain :: chain
  verdict :: "verdict option"
  server_open :: bool

text \<open>The server of the tests, and the page that the library is told to open for a file.\<close>

record test_server =
  ts_root :: jprim
  ts_port :: nat
  ts_host :: string
  ts_name :: string

definition serverConfig :: "(string \<Rightarrow> jprim) \<Rightarrow> test_server" where
  "serverConfig argv = \<lparr>ts_root = root_arg argv, ts_port = 8009, ts_host = ''localhost'', ts_name = ''test-server''\<rparr>"

definition targetUrl :: "test_server \<Rightarrow> string \<Rightarrow> string" where
  "targetUrl server filename = ''http://'' @ ts_host server @ '':'' @ nat_to_string (ts_port server) @ ''/'' @ filename"

text \<open>\<^verbatim>\<open>Promise.all\<close> of no promises is fulfilled at once.\<close>

definition start_qunit :: "string list \<Rightarrow> qunit_run" where
  "start_qunit testFiles = \<lparr>test_files = testFiles, totalTests = 0, failingTests = 0,
     chain = (if testFiles = [] then ThenNext else WaitTests), verdict = None, server_open = True\<rparr>"

text \<open>The tests of a file have a result, or could not be run; or the next callback of the chain runs.\<close>

datatype qunit_event = Result string stats | TestError string | Callback

definition failed_message :: "nat \<Rightarrow> nat \<Rightarrow> string" where
  "failed_message failing all = nat_to_string failing @ ''/'' @ nat_to_string all @ '' tests failed''"

fun qunit_callback :: "qunit_run \<Rightarrow> qunit_run" where
  "qunit_callback s =
     (case chain s of
        ThenNext \<Rightarrow> s\<lparr>chain := FinallyNext,
          verdict := Some (if failingTests s > 0 then Failed (Some (failed_message (failingTests s) (totalTests s))) else Passed)\<rparr>
      | CatchNext \<Rightarrow> s\<lparr>chain := FinallyNext, verdict := Some (Failed None)\<rparr>
      | FinallyNext \<Rightarrow> s\<lparr>chain := ChainDone, server_open := False\<rparr>
      | _ \<Rightarrow> s)"

definition qunit_result :: "string \<Rightarrow> stats \<Rightarrow> qunit_run \<Rightarrow> qunit_run" where
  "qunit_result f r s =
     (let fs = remove1 f (test_files s) in
      s\<lparr>test_files := fs, totalTests := totalTests s + total r, failingTests := failingTests s + failed r,
        chain := (if fs = [] \<and> chain s = WaitTests then ThenNext else chain s)\<rparr>)"

definition qunit_error :: "string \<Rightarrow> qunit_run \<Rightarrow> qunit_run" where
  "qunit_error f s =
     s\<lparr>test_files := remove1 f (test_files s), chain := (if chain s = WaitTests then CatchNext else chain s)\<rparr>"

inductive qunit_step :: "qunit_run \<Rightarrow> qunit_event \<Rightarrow> qunit_run \<Rightarrow> bool" where
  step_result: "f \<in> set (test_files s) \<Longrightarrow> qunit_step s (Result f r) (qunit_result f r s)"
| step_error: "f \<in> set (test_files s) \<Longrightarrow> qunit_step s (TestError f) (qunit_error f s)"
| step_callback: "chain s \<noteq> WaitTests \<Longrightarrow> chain s \<noteq> ChainDone \<Longrightarrow> qunit_step s Callback (qunit_callback s)"

inductive_simps qunit_step_iff: "qunit_step s (Result f r) t" "qunit_step s (TestError f) t" "qunit_step s Callback t"

section \<open>Style sheets and the package\<close>

text \<open>\<^verbatim>\<open>compileSass\<close> on a file of the stream; \<open>render\<close> is the library, given the contents and the path.\<close>

record vinyl =
  stem :: string
  extname :: string
  contents :: string

definition compileSass :: "(string \<Rightarrow> string \<Rightarrow> thrown + string) \<Rightarrow> vinyl \<Rightarrow> thrown + vinyl" where
  "compileSass render vinylFile =
     (case render (contents vinylFile) (stem vinylFile @ extname vinylFile) of
        Inl err \<Rightarrow> Inl err
      | Inr css \<Rightarrow> Inr (vinylFile\<lparr>extname := ''.css'', contents := css\<rparr>))"

text \<open>The two tasks on one file: its place below the destination and its contents.\<close>

definition css_themes :: "(string \<Rightarrow> string \<Rightarrow> thrown + string) \<Rightarrow> vinyl \<Rightarrow> thrown + (string \<times> vinyl)" where
  "css_themes render f = and_then (compileSass render f) (\<lambda>g. Inr (''./dist/theme'', g))"

definition css_core ::
    "(string \<Rightarrow> string \<Rightarrow> thrown + string) \<Rightarrow> (vinyl \<Rightarrow> vinyl) \<Rightarrow> (string \<Rightarrow> vinyl \<Rightarrow> vinyl) \<Rightarrow> (string \<Rightarrow> vinyl \<Rightarrow> vinyl) \<Rightarrow>
     package_json \<Rightarrow> vinyl \<Rightarrow> thrown + (string \<times> vinyl)" where
  "css_core render autoprefixer minify header pkg f =
     and_then (compileSass render f) (\<lambda>g. Inr (''./dist'', header (cssLicense pkg) (minify ''ie9'' (autoprefixer g))))"

text \<open>What goes into the archive; \<open>exists_file\<close> is the file system.\<close>

definition package_dirs :: "(string \<Rightarrow> bool) \<Rightarrow> string list" where
  "package_dirs exists_file = [''./index.html'', ''./dist/**'', ''./plugin/**'', ''./*/*.md''] @
     (if exists_file ''./lib'' then [''./lib/**''] else []) @
     (if exists_file ''./images'' then [''./images/**''] else []) @
     (if exists_file ''./slides'' then [''./slides/**''] else [])"

section \<open>Tasks\<close>

text \<open>The tasks that are made of others; the remaining ones are leaves.\<close>

datatype task = Task string | Series "task list" | Parallel "task list"

definition js_task :: task where
  "js_task = Parallel [Task ''js-es5'', Task ''js-es6'']"

definition css_task :: task where
  "css_task = Parallel [Task ''css-themes'', Task ''css-core'']"

definition gulp_tasks :: "(string \<times> task) list" where
  "gulp_tasks =
     [(''js'', js_task), (''css'', css_task),
      (''test'', Series [Task ''eslint'', Task ''qunit'']),
      (''default'', Series [Parallel [Task ''js'', Task ''css'', Task ''plugins''], Task ''test'']),
      (''build'', Parallel [Task ''js'', Task ''css'', Task ''plugins''])]"

text \<open>The leaves of a task, and which of them is over before which begins. Three rounds reach every leaf of the table.\<close>

fun expand :: "nat \<Rightarrow> task \<Rightarrow> task" where
  "expand 0 t = t"
| "expand (Suc n) (Task k) = (case map_of gulp_tasks k of None \<Rightarrow> Task k | Some t \<Rightarrow> expand n t)"
| "expand (Suc n) (Series ts) = Series (map (expand (Suc n)) ts)"
| "expand (Suc n) (Parallel ts) = Parallel (map (expand (Suc n)) ts)"

fun leaves :: "task \<Rightarrow> string list" where
  "leaves (Task k) = [k]"
| "leaves (Series ts) = concat (map leaves ts)"
| "leaves (Parallel ts) = concat (map leaves ts)"

fun ordered_pairs :: "'a list list \<Rightarrow> ('a \<times> 'a) list" where
  "ordered_pairs [] = []"
| "ordered_pairs (xs # xss) = List.product xs (concat xss) @ ordered_pairs xss"

fun before :: "task \<Rightarrow> (string \<times> string) list" where
  "before (Task k) = []"
| "before (Series ts) = ordered_pairs (map leaves ts) @ concat (map before ts)"
| "before (Parallel ts) = concat (map before ts)"

section \<open>The server\<close>

record connect_settings =
  served_root :: jprim
  served_port :: jprim
  served_host :: jprim
  livereload :: bool

text \<open>
  The task \<^verbatim>\<open>serve\<close>: how the server is started, and what runs when a file that matches the patterns of a watcher changes.
  A root that is no string makes \<^verbatim>\<open>endsWith\<close> throw, after the server was started.
\<close>

definition serve_settings :: "(string \<Rightarrow> jprim) \<Rightarrow> connect_settings" where
  "serve_settings argv = \<lparr>served_root = root_arg argv, served_port = port_arg argv, served_host = host_arg argv, livereload = True\<rparr>"

definition slidesRoot :: "(string \<Rightarrow> jprim) \<Rightarrow> thrown + string" where
  "slidesRoot argv =
     (case root_arg argv of
        Str root \<Rightarrow> Inr (if root \<noteq> '''' \<and> last root = CHR ''/'' then root else root @ ''/'')
      | _ \<Rightarrow> Inl (ErrorObject ''root.endsWith is not a function''))"

definition watchers :: "string \<Rightarrow> (string list \<times> task) list" where
  "watchers slides =
     [([slides @ ''**/*.html'', slides @ ''**/*.md'', ''!'' @ slides @ ''**/node_modules/**''], Series [Task ''reload'']),
      ([''js/**''], Series [Task ''js'', Task ''reload'', Task ''eslint'']),
      ([''plugin/**/plugin.js'', ''plugin/**/*.html''], Series [Task ''plugins'', Task ''reload'']),
      ([''css/theme/source/**/*.{sass,scss}'', ''css/theme/template/*.{sass,scss}''], Series [Task ''css-themes'', Task ''reload'']),
      ([''css/*.scss'', ''css/print/*.{sass,scss,css}''], Series [Task ''css-core'', Task ''reload'']),
      ([''test/*.html''], Series [Task ''test''])]"

definition serve :: "(string \<Rightarrow> jprim) \<Rightarrow> connect_settings \<times> (thrown + (string list \<times> task) list)" where
  "serve argv = (serve_settings argv, and_then (slidesRoot argv) (Inr \<circ> watchers))"

text \<open>
  The tasks that a changed file starts: the patterns of a watcher match when one that is not negated does and none of those
  with \<^verbatim>\<open>!\<close>. \<open>glob\<close> is the library's matching of one pattern.
\<close>

definition watched :: "(string \<Rightarrow> string \<Rightarrow> bool) \<Rightarrow> string list \<Rightarrow> string \<Rightarrow> bool" where
  "watched glob patterns f \<longleftrightarrow>
     (\<exists>p \<in> set patterns. \<not> prefix ''!'' p \<and> glob p f) \<and> (\<forall>p \<in> set patterns. prefix ''!'' p \<longrightarrow> \<not> glob (tl p) f)"

definition started_by :: "(string \<Rightarrow> string \<Rightarrow> bool) \<Rightarrow> string \<Rightarrow> string \<Rightarrow> task list" where
  "started_by glob slides f = map snd (filter (\<lambda>(ps, t). watched glob ps f) (watchers slides))"

section \<open>Bundling ends\<close>

definition work :: "rollup_job list \<Rightarrow> 'c bundling \<Rightarrow> nat" where
  "work jobs s = sum_list (map (\<lambda>i. Suc (length (outputs (jobs ! i)))) (unbundled s)) + length (writing s)"

lemma settle_facts [simp]:
  "unbundled (fulfil i s) = unbundled s" "writing (fulfil i s) = writing s" "written (fulfil i s) = written s"
  "unhandled (fulfil i s) = unhandled s" "unfulfilled (fulfil i s) = remove1 i (unfulfilled s)"
  "unbundled (reject_task t s) = unbundled s" "writing (reject_task t s) = writing s" "written (reject_task t s) = written s"
  "unhandled (reject_task t s) = unhandled s" "unfulfilled (reject_task t s) = unfulfilled s"
  by (simp_all add: fulfil_def reject_task_def Let_def)

lemma settle_result:
  "task_result (fulfil i s) = (if remove1 i (unfulfilled s) = [] \<and> task_result s = None then Some None else task_result s)"
  "task_result (reject_task t s) = (if task_result s = None then Some (Some t) else task_result s)"
  by (simp_all add: fulfil_def reject_task_def Let_def)

lemma sum_remove1: "x \<in> set xs \<Longrightarrow> sum_list (map f (remove1 x xs)) + f x = sum_list (map f xs)" for f :: "'a \<Rightarrow> nat"
  by (induction xs) auto

lemma work_step: "build_step jobs s e t \<Longrightarrow> work jobs t < work jobs s"
proof (induction rule: build_step.induct)
  case (step_bundled i s r)
  from sum_remove1[OF this, of "\<lambda>i. Suc (length (outputs (jobs ! i)))"] show ?case
    by (cases r) (simp_all add: bundled_def work_def Let_def)
next
  case (step_wrote i w s e)
  then have "0 < length (writing s)" by (cases "writing s") auto
  with step_wrote show ?case by (cases e) (simp_all add: wrote_def work_def Let_def length_remove1)
qed

lemma work_steps: "steps (build_step jobs) s es t \<Longrightarrow> length es + work jobs t \<le> work jobs s"
proof (induction rule: steps.induct)
  case (steps_Cons s e t es u)
  with work_step[OF steps_Cons(1)] show ?case by simp
qed simp

definition all_work :: "rollup_job list \<Rightarrow> nat" where
  "all_work jobs = sum_list (map (\<lambda>j. Suc (length (outputs j))) jobs)"

lemma work_start: "work jobs (start_bundling jobs cs) = all_work jobs"
proof -
  have "map (\<lambda>i. Suc (length (outputs (jobs ! i)))) [0..<length jobs] = map (\<lambda>j. Suc (length (outputs j))) jobs"
    by (rule nth_equalityI) simp_all
  then show ?thesis unfolding all_work_def by (simp add: work_def start_bundling_def del: sum_list_Suc)
qed

text \<open>
  While a job's promise is open and the task is not over, something is still to come for it; a promise that is fulfilled
  though its writing is awaited means that the file is there.
\<close>

definition single_output :: "rollup_job list \<Rightarrow> bool" where
  "single_output jobs \<longleftrightarrow> (\<forall>j \<in> set jobs. awaited j \<longrightarrow> length (outputs j) = 1)"

definition has_work :: "rollup_job list \<Rightarrow> 'c bundling \<Rightarrow> nat \<Rightarrow> bool" where
  "has_work jobs s i \<longleftrightarrow> i \<in> set (unbundled s) \<or> awaited (jobs ! i) \<and> (\<exists>w. (i, w) \<in> set (writing s))"

definition base_inv :: "rollup_job list \<Rightarrow> 'c bundling \<Rightarrow> bool" where
  "base_inv jobs s \<longleftrightarrow>
     (\<forall>i \<in> set (unbundled s). i < length jobs) \<and>
     (\<forall>(i, w) \<in> set (writing s). i < length jobs \<and> w \<in> set (outputs (jobs ! i))) \<and>
     (\<forall>i < length jobs. i \<notin> set (unfulfilled s) \<longrightarrow> awaited (jobs ! i) \<longrightarrow> set (outputs (jobs ! i)) \<subseteq> set (written s)) \<and>
     (task_result s = Some None \<longrightarrow> unfulfilled s = []) \<and>
     distinct (unfulfilled s) \<and> (list_all awaited jobs \<longrightarrow> unhandled s = [])"

definition bundling_inv :: "rollup_job list \<Rightarrow> 'c bundling \<Rightarrow> bool" where
  "bundling_inv jobs s \<longleftrightarrow>
     base_inv jobs s \<and> (task_result s = None \<longrightarrow> unfulfilled s \<noteq> [] \<and> (\<forall>i \<in> set (unfulfilled s). has_work jobs s i))"

lemma bundling_inv_start: "jobs \<noteq> [] \<Longrightarrow> bundling_inv jobs (start_bundling jobs cs)"
  by (simp add: bundling_inv_def base_inv_def has_work_def start_bundling_def)

lemma inv_reject: "base_inv jobs s \<Longrightarrow> bundling_inv jobs (reject_task t s)"
  by (auto simp: bundling_inv_def base_inv_def settle_result)

lemma inv_fulfil:
  assumes "base_inv jobs s" and "task_result s = None \<longrightarrow> (\<forall>j \<in> set (unfulfilled s). j \<noteq> i \<longrightarrow> has_work jobs s j)"
    and "awaited (jobs ! i) \<longrightarrow> set (outputs (jobs ! i)) \<subseteq> set (written s)"
  shows "bundling_inv jobs (fulfil i s)"
  using assms by (auto simp: bundling_inv_def base_inv_def has_work_def settle_result)

lemma inv_bundled:
  assumes "bundling_inv jobs s" and "single_output jobs" and "i \<in> set (unbundled s)"
  shows "bundling_inv jobs (bundled jobs i r s)"
proof -
  have sub: "set (remove1 i (unbundled s)) \<subseteq> set (unbundled s)" by (rule set_remove1_subset)
  from assms(1,3) have i: "i < length jobs" by (simp add: bundling_inv_def base_inv_def)
  have kept: "j \<in> set (remove1 i (unbundled s))" if "j \<in> set (unbundled s)" "j \<noteq> i" for j
    using that by simp
  show ?thesis
  proof (cases r)
    case (Inl t)
    have "base_inv jobs (s\<lparr>unbundled := remove1 i (unbundled s)\<rparr>)"
      using assms(1) sub by (auto simp: bundling_inv_def base_inv_def)
    then show ?thesis by (simp add: Inl bundled_def Let_def inv_reject)
  next
    case (Inr c)
    let ?s = "s\<lparr>unbundled := remove1 i (unbundled s), cached := (cached s)(cache_key (jobs ! i) \<mapsto> c),
      writing := writing s @ map (Pair i) (outputs (jobs ! i))\<rparr>"
    have base: "base_inv jobs ?s" using assms(1) sub i by (auto simp: bundling_inv_def base_inv_def)
    have others: "has_work jobs s j \<Longrightarrow> j \<noteq> i \<Longrightarrow> has_work jobs ?s j" for j
      using kept by (auto simp: has_work_def)
    show ?thesis
    proof (cases "awaited (jobs ! i)")
      case True
      with assms(2) i have "outputs (jobs ! i) \<noteq> []" by (auto simp: single_output_def)
      then have "has_work jobs ?s i" using True by (cases "outputs (jobs ! i)") (auto simp: has_work_def)
      then have "has_work jobs s j \<Longrightarrow> has_work jobs ?s j" for j using others by (cases "j = i") auto
      with base assms(1) True show ?thesis by (simp add: Inr bundled_def Let_def) (simp add: bundling_inv_def)
    next
      case False
      have "bundling_inv jobs (fulfil i ?s)"
        using base assms(1) others False by (intro inv_fulfil) (simp_all add: bundling_inv_def)
      then show ?thesis using False by (simp add: Inr bundled_def Let_def)
    qed
  qed
qed

lemma inv_wrote:
  assumes "bundling_inv jobs s" and "single_output jobs" and "(i, w) \<in> set (writing s)"
  shows "bundling_inv jobs (wrote jobs i w e s)"
proof -
  have sub: "set (remove1 (i, w) (writing s)) \<subseteq> set (writing s)" by (rule set_remove1_subset)
  from assms(1,3) have i: "i < length jobs" "w \<in> set (outputs (jobs ! i))" by (auto simp: bundling_inv_def base_inv_def)
  let ?s = "s\<lparr>writing := remove1 (i, w) (writing s)\<rparr>"
  have base: "base_inv jobs ?s" using assms(1) sub by (auto simp: bundling_inv_def base_inv_def)
  have others: "has_work jobs s j \<Longrightarrow> j \<noteq> i \<or> \<not> awaited (jobs ! i) \<Longrightarrow> has_work jobs ?s j" for j
    by (cases "j = i") (auto simp: has_work_def)
  show ?thesis
  proof (cases "awaited (jobs ! i)")
    case True
    with assms(2) i have out: "set (outputs (jobs ! i)) = {w}"
      by (cases "outputs (jobs ! i)") (auto simp: single_output_def)
    show ?thesis
    proof (cases e)
      case None
      have "base_inv jobs (?s\<lparr>written := written s @ [w]\<rparr>)" using base by (auto simp: base_inv_def)
      moreover have "has_work jobs (?s\<lparr>written := written s @ [w]\<rparr>) j = has_work jobs ?s j" for j by (simp add: has_work_def)
      ultimately have "bundling_inv jobs (fulfil i (?s\<lparr>written := written s @ [w]\<rparr>))"
        using assms(1) others out by (intro inv_fulfil) (simp_all add: bundling_inv_def)
      with None True show ?thesis by (simp add: wrote_def Let_def)
    next
      case (Some t)
      with True inv_reject[OF base] show ?thesis by (simp add: wrote_def Let_def)
    qed
  next
    case False
    with i(1) have "\<not> list_all awaited jobs" by (auto simp: list_all_length)
    with base have "base_inv jobs (wrote jobs i w e s)"
      by (cases e) (auto simp: wrote_def Let_def False base_inv_def)
    moreover have "has_work jobs (wrote jobs i w e s) j = has_work jobs ?s j" for j
      by (cases e) (simp_all add: wrote_def Let_def False has_work_def)
    moreover have "task_result (wrote jobs i w e s) = task_result s" "unfulfilled (wrote jobs i w e s) = unfulfilled s"
      by (cases e; simp add: wrote_def Let_def False)+
    ultimately show ?thesis using assms(1) others False by (simp add: bundling_inv_def)
  qed
qed

lemma bundling_inv_step: "build_step jobs s e t \<Longrightarrow> bundling_inv jobs s \<Longrightarrow> single_output jobs \<Longrightarrow> bundling_inv jobs t"
  by (induction rule: build_step.induct) (auto intro: inv_bundled inv_wrote)

text \<open>
  Whatever order \<^verbatim>\<open>rollup\<close> settles in, there are at most as many events as calls and files; until the task is over there is
  always another; and a task whose jobs all return the promise of their one file has, when it succeeds, written every file, with no
  rejection unhandled.
\<close>

lemma bundling_ends:
  assumes "single_output jobs" and "jobs \<noteq> []" and "steps (build_step jobs) (start_bundling jobs cs) es s"
  shows "length es \<le> all_work jobs \<and> (task_result s = None \<longrightarrow> (\<exists>e t. build_step jobs s e t)) \<and>
     (list_all awaited jobs \<longrightarrow> task_result s = Some None \<longrightarrow>
        (\<forall>j \<in> set jobs. set (outputs j) \<subseteq> set (written s)) \<and> unhandled s = [])"
proof (intro conjI impI)
  have "bundling_inv jobs s"
    using steps_preserve[where P = "bundling_inv jobs" and Q = "\<lambda>_. True", OF _ assms(3)] bundling_inv_step[OF _ _ assms(1)]
      bundling_inv_start[OF assms(2)] by blast
  note inv = this[unfolded bundling_inv_def] this[unfolded bundling_inv_def base_inv_def]
  show "length es \<le> all_work jobs" using work_steps[OF assms(3)] by (simp add: work_start)
  show "\<exists>e t. build_step jobs s e t" if "task_result s = None"
  proof -
    from inv(1) that obtain i where "has_work jobs s i" by (cases "unfulfilled s") auto
    then show ?thesis by (auto simp: has_work_def intro: build_step.intros)
  qed
  assume awaits: "list_all awaited jobs" and over: "task_result s = Some None"
  show "unhandled s = []" using inv(2) awaits by simp
  show "\<forall>j \<in> set jobs. set (outputs j) \<subseteq> set (written s)"
  proof
    fix j assume "j \<in> set jobs"
    then obtain i where "i < length jobs" "jobs ! i = j" by (metis in_set_conv_nth)
    with inv(2) awaits over show "set (outputs j) \<subseteq> set (written s)" by (auto simp: list_all_length)
  qed
qed

text \<open>A promise is open as long as its bundle is missing, so a task that succeeds has all its bundles.\<close>

definition open_inv :: "'c bundling \<Rightarrow> bool" where
  "open_inv s \<longleftrightarrow> distinct (unbundled s) \<and> distinct (unfulfilled s) \<and> set (unbundled s) \<subseteq> set (unfulfilled s) \<and>
     (\<forall>(i, w) \<in> set (writing s). i \<notin> set (unbundled s))"

lemma open_inv_start: "open_inv (start_bundling jobs cs)"
  by (simp add: open_inv_def start_bundling_def)

lemma open_inv_step: "build_step jobs s e t \<Longrightarrow> open_inv s \<Longrightarrow> open_inv t"
proof (induction rule: build_step.induct)
  case (step_bundled i s r)
  then show ?case by (cases r) (auto simp: open_inv_def bundled_def Let_def)
next
  case (step_wrote i w s e)
  then have "i \<notin> set (unbundled s)" and sub: "set (remove1 (i, w) (writing s)) \<subseteq> set (writing s)"
    by (auto simp: open_inv_def set_remove1_subset)
  with step_wrote show ?case by (cases e) (auto simp: open_inv_def wrote_def Let_def)
qed

lemma success_has_bundles:
  assumes "single_output jobs" and "jobs \<noteq> []" and "steps (build_step jobs) (start_bundling jobs cs) es s"
    and "task_result s = Some None"
  shows "unbundled s = []"
proof -
  have "bundling_inv jobs s"
    using steps_preserve[where P = "bundling_inv jobs" and Q = "\<lambda>_. True", OF _ assms(3)] bundling_inv_step[OF _ _ assms(1)]
      bundling_inv_start[OF assms(2)] by blast
  moreover have "open_inv s"
    using steps_preserve[where P = open_inv and Q = "\<lambda>_. True", OF _ assms(3)] open_inv_step open_inv_start by blast
  ultimately show ?thesis using assms(4) by (simp add: bundling_inv_def base_inv_def open_inv_def)
qed

text \<open>The three tasks of the build that bundle.\<close>

lemma bundling_tasks:
  "single_output (js_es5 pkg)" "single_output (js_es6 pkg)" "single_output plugin_jobs"
  "js_es5 pkg \<noteq> []" "js_es6 pkg \<noteq> []" "plugin_jobs \<noteq> []"
  "all_work (js_es5 pkg) = 2" "all_work (js_es6 pkg) = 2" "all_work plugin_jobs = 18"
  "length (js_es5 pkg) = 1" "length (js_es6 pkg) = 1" "length plugin_jobs = 6"
  by (simp_all add: single_output_def all_work_def js_es5_def js_es6_def plugin_jobs_def plugin_table_def)

lemma js_tasks_awaited:
  "list_all awaited (js_es5 pkg)" "list_all awaited (js_es6 pkg)"
  "\<exists>j \<in> set (js_es5 pkg). ''./dist/reveal.js'' \<in> file_name ` set (outputs j)"
  "\<exists>j \<in> set (js_es6 pkg). ''./dist/reveal.esm.js'' \<in> file_name ` set (outputs j)"
  by (simp_all add: js_es5_def js_es6_def)

text \<open>
  C39: the tasks \<^verbatim>\<open>js-es5\<close>, \<^verbatim>\<open>js-es6\<close> and \<^verbatim>\<open>plugins\<close> end. In whatever order \<^verbatim>\<open>rollup\<close> answers, the first two are over after at
  most two answers and the third after at most eighteen (six bundles and twelve files), and until a task is over another answer can
  come. A task that succeeds has all its bundles; when \<^verbatim>\<open>js-es5\<close> succeeds \<^verbatim>\<open>dist/reveal.js\<close> has been written, when \<^verbatim>\<open>js-es6\<close> does
  \<^verbatim>\<open>dist/reveal.esm.js\<close> has, and no rejection is left unhandled. (For the files of \<^verbatim>\<open>plugins\<close> this is not so: \<open>plugins_end_before_files\<close>.)
\<close>

theorem bundling_task_ends:
  assumes "jobs \<in> {js_es5 pkg, js_es6 pkg, plugin_jobs}" and "steps (build_step jobs) (start_bundling jobs cs) es s"
  shows "length es \<le> (if jobs = plugin_jobs then 18 else 2) \<and>
     (task_result s = None \<longrightarrow> (\<exists>e t. build_step jobs s e t)) \<and>
     (task_result s = Some None \<longrightarrow> unbundled s = [] \<and>
        (jobs = js_es5 pkg \<longrightarrow> ''./dist/reveal.js'' \<in> file_name ` set (written s) \<and> unhandled s = []) \<and>
        (jobs = js_es6 pkg \<longrightarrow> ''./dist/reveal.esm.js'' \<in> file_name ` set (written s) \<and> unhandled s = []))"
proof -
  have single: "single_output jobs" and ne: "jobs \<noteq> []"
    using assms(1) by (elim insertE emptyE; simp add: bundling_tasks)+
  note ends = bundling_ends[OF single ne assms(2)] success_has_bundles[OF single ne assms(2)]
  have "all_work jobs \<le> (if jobs = plugin_jobs then 18 else 2)" 
    using assms(1) by (elim insertE emptyE) (simp_all add: bundling_tasks)
  moreover have "f \<in> file_name ` set (written s) \<and> unhandled s = []"
    if "task_result s = Some None" "list_all awaited jobs" "\<exists>j \<in> set jobs. f \<in> file_name ` set (outputs j)" for f
    using ends(1) that by blast
  ultimately show ?thesis using ends js_tasks_awaited by fastforce
qed

definition example_package :: package_json where
  "example_package = \<lparr>version = ''5.1.0'', homepage = ''https://revealjs.com''\<rparr>"

theorem bundling_task_ends_witness:
  "\<exists>s w. steps (build_step (js_es5 example_package)) (start_bundling (js_es5 example_package) (\<lambda>_. None)) [Bundled 0 (Inr ()), Wrote 0 w None] s \<and>
     task_result s = Some None \<and> ''./dist/reveal.js'' \<in> file_name ` set (written s)"
proof -
  define jobs where "jobs = js_es5 example_package"
  obtain j w where j: "jobs = [j]" "outputs j = [w]" "awaited j" "file_name w = ''./dist/reveal.js''"
    by (simp add: jobs_def js_es5_def)
  let ?s0 = "start_bundling jobs (\<lambda>_. None) :: unit bundling"
  define s1 where "s1 = bundled jobs 0 (Inr ()) ?s0"
  define s where "s = wrote jobs 0 w None s1"
  have s1: "writing s1 = [(0, w)]" "unfulfilled s1 = [0]" "task_result s1 = None" "written s1 = []"
    by (simp_all add: s1_def bundled_def start_bundling_def j(1-3))
  have "build_step jobs ?s0 (Bundled 0 (Inr ())) s1" unfolding s1_def
    by (rule step_bundled) (simp add: start_bundling_def j(1))
  moreover have "build_step jobs s1 (Wrote 0 w None) s" unfolding s_def by (rule step_wrote) (simp add: s1)
  ultimately have run: "steps (build_step jobs) ?s0 [Bundled 0 (Inr ()), Wrote 0 w None] s" by (simp add: steps_Cons_iff) blast
  have over: "task_result s = Some None" by (simp add: s_def wrote_def j(1,3) s1 settle_result)
  from bundling_task_ends[of jobs example_package, OF _ run] over have "''./dist/reveal.js'' \<in> file_name ` set (written s)"
    by (simp add: jobs_def)
  with run over show ?thesis unfolding jobs_def by blast
qed

text \<open>
  The task \<^verbatim>\<open>plugins\<close> does not return the promises of its files: it is over when the last bundle is there, with no file written,
  and a file that cannot be written is a rejection that nobody handles. So the tests of \<^verbatim>\<open>default\<close>, which are put after it, may
  run on the files of an earlier build.
\<close>

definition all_bundled :: "nat \<Rightarrow> unit bundling \<Rightarrow> unit bundling" where
  "all_bundled n s = fold (\<lambda>i. bundled plugin_jobs i (Inr ())) [0..<n] s"

lemma plugins_end_before_files:
  "task_result (all_bundled 6 (start_bundling plugin_jobs (\<lambda>_. None))) = Some None"
  "written (all_bundled 6 (start_bundling plugin_jobs (\<lambda>_. None))) = []"
  "length (writing (all_bundled 6 (start_bundling plugin_jobs (\<lambda>_. None)))) = 12"
  by code_simp+

lemma failed_plugin_file_unhandled:
  "\<not> awaited (jobs ! i) \<Longrightarrow> task_result (wrote jobs i w (Some t) s) = task_result s \<and> t \<in> set (unhandled (wrote jobs i w (Some t) s))"
  by (simp add: wrote_def Let_def)

section \<open>What the tests come to\<close>

fun result_of :: "qunit_event \<Rightarrow> (string \<times> stats) list" where
  "result_of (Result f r) = [(f, r)]"
| "result_of _ = []"

fun error_of :: "qunit_event \<Rightarrow> string list" where
  "error_of (TestError f) = [f]"
| "error_of _ = []"

definition results :: "qunit_event list \<Rightarrow> (string \<times> stats) list" where
  "results es = concat (map result_of es)"

definition test_errors :: "qunit_event list \<Rightarrow> string list" where
  "test_errors es = concat (map error_of es)"

definition total_of :: "(stats \<Rightarrow> nat) \<Rightarrow> qunit_event list \<Rightarrow> nat" where
  "total_of n es = sum_list (map (n \<circ> snd) (results es))"

text \<open>What the task should say.\<close>

definition fair_verdict :: "qunit_event list \<Rightarrow> verdict" where
  "fair_verdict es =
     (if test_errors es \<noteq> [] then Failed None
      else if total_of failed es > 0 then Failed (Some (failed_message (total_of failed es) (total_of total es)))
      else Passed)"

lemma history_simps [simp]:
  "results [] = []" "results (es @ [Result f r]) = results es @ [(f, r)]" "results (es @ [TestError f]) = results es"
  "results (es @ [Callback]) = results es"
  "test_errors [] = []" "test_errors (es @ [Result f r]) = test_errors es" "test_errors (es @ [TestError f]) = test_errors es @ [f]"
  "test_errors (es @ [Callback]) = test_errors es"
  by (simp_all add: results_def test_errors_def)

lemma total_of_simps [simp]:
  "total_of n [] = 0" "total_of n (es @ [Result f r]) = total_of n es + n r" "total_of n (es @ [TestError f]) = total_of n es"
  "total_of n (es @ [Callback]) = total_of n es"
  by (simp_all add: total_of_def)

lemma fair_error: "test_errors es \<noteq> [] \<Longrightarrow> fair_verdict es = Failed None"
  by (simp add: fair_verdict_def)

definition qunit_inv :: "string list \<Rightarrow> qunit_event list \<Rightarrow> qunit_run \<Rightarrow> bool" where
  "qunit_inv files es s \<longleftrightarrow>
     mset (test_files s) + mset (map fst (results es)) + mset (test_errors es) = mset files \<and>
     totalTests s = total_of total es \<and> failingTests s = total_of failed es \<and>
     (case chain s of
        WaitTests \<Rightarrow> test_errors es = [] \<and> test_files s \<noteq> [] \<and> verdict s = None
      | ThenNext \<Rightarrow> test_errors es = [] \<and> test_files s = [] \<and> verdict s = None
      | CatchNext \<Rightarrow> test_errors es \<noteq> [] \<and> verdict s = None
      | _ \<Rightarrow> verdict s = Some (fair_verdict es) \<and> (test_errors es = [] \<longrightarrow> test_files s = [])) \<and>
     (server_open s \<longleftrightarrow> chain s \<noteq> ChainDone)"

lemma qunit_inv_start: "qunit_inv files [] (start_qunit files)"
  by (simp add: qunit_inv_def start_qunit_def)

lemma qunit_inv_step: "qunit_step s e t \<Longrightarrow> qunit_inv files es s \<Longrightarrow> qunit_inv files (es @ [e]) t"
proof (induction rule: qunit_step.induct)
  case (step_result f s r)
  then have ne: "test_files s \<noteq> []" by auto
  obtain M where M: "mset (test_files s) = add_mset f M" "mset (remove1 f (test_files s)) = M"
    using step_result(1) by (metis in_multiset_in_set insert_DiffM mset_remove1)
  from step_result(2) ne M show ?case
    by (cases "chain s") (auto simp: qunit_inv_def qunit_result_def Let_def fair_error)
next
  case (step_error f s)
  then have ne: "test_files s \<noteq> []" by auto
  obtain M where M: "mset (test_files s) = add_mset f M" "mset (remove1 f (test_files s)) = M"
    using step_error(1) by (metis in_multiset_in_set insert_DiffM mset_remove1)
  from step_error(2) ne M show ?case
    by (cases "chain s") (auto simp: qunit_inv_def qunit_error_def fair_error)
next
  case (step_callback s)
  then show ?case by (cases "chain s") (auto simp: qunit_inv_def fair_verdict_def)
qed

lemma qunit_inv_steps: "steps qunit_step s fs t \<Longrightarrow> qunit_inv files es s \<Longrightarrow> qunit_inv files (es @ fs) t"
proof (induction arbitrary: es rule: steps.induct)
  case (steps_Cons s e t fs u)
  from steps_Cons.IH[OF qunit_inv_step[OF steps_Cons(1,4)]] show ?case by simp
qed simp

text \<open>How many events are left.\<close>

definition qunit_left :: "qunit_run \<Rightarrow> nat" where
  "qunit_left s = length (test_files s) + (case chain s of FinallyNext \<Rightarrow> 1 | ChainDone \<Rightarrow> 0 | _ \<Rightarrow> 2)"

lemma length_remove1_Suc: "x \<in> set xs \<Longrightarrow> length xs = Suc (length (remove1 x xs))"
  by (induction xs) auto

lemma qunit_left_step: "qunit_step s e t \<Longrightarrow> qunit_left s = Suc (qunit_left t)"
proof (induction rule: qunit_step.induct)
  case (step_result f s r)
  from length_remove1_Suc[OF this] show ?case by (auto simp: qunit_left_def qunit_result_def Let_def split: chain.splits)
next
  case (step_error f s)
  from length_remove1_Suc[OF this] show ?case by (auto simp: qunit_left_def qunit_error_def split: chain.splits)
next
  case (step_callback s)
  then show ?case by (cases "chain s") (simp_all add: qunit_left_def)
qed

lemma qunit_left_steps: "steps qunit_step s es t \<Longrightarrow> qunit_left s = length es + qunit_left t"
  by (induction rule: steps.induct) (auto dest: qunit_left_step)

text \<open>
  C40: the tests come to a fair verdict. In whatever order the files report, the task ends after one event per file and two
  callbacks, and there is always another event until then; its verdict is the one the reports justify: passed only if every
  file reported and no test failed, failed with the right numbers if every file reported, and failed without an error if a
  file could not be run; the server is closed when, and only when, the verdict has been given and the chain is at its end.
\<close>

theorem qunit_verdict:
  assumes "steps qunit_step (start_qunit files) es s"
  shows "length es \<le> length files + 2 \<and> (chain s \<noteq> ChainDone \<longrightarrow> (\<exists>e t. qunit_step s e t)) \<and>
     (\<forall>v. verdict s = Some v \<longrightarrow> v = fair_verdict es \<and> (v \<noteq> Failed None \<longrightarrow> mset (map fst (results es)) = mset files)) \<and>
     (\<not> server_open s \<longleftrightarrow> chain s = ChainDone) \<and> (chain s = ChainDone \<longrightarrow> verdict s \<noteq> None)"
proof -
  from qunit_inv_steps[OF assms qunit_inv_start] have inv: "qunit_inv files es s" by simp
  have "length es \<le> length files + 2"
    using qunit_left_steps[OF assms] by (simp add: qunit_left_def start_qunit_def split: if_splits)
  moreover have "\<exists>e t. qunit_step s e t" if "chain s \<noteq> ChainDone"
  proof (cases "chain s = WaitTests")
    case True
    with inv obtain f where "f \<in> set (test_files s)" by (cases "test_files s") (auto simp: qunit_inv_def)
    then show ?thesis by (blast intro: step_error)
  next
    case False
    with that show ?thesis by (blast intro: step_callback)
  qed
  moreover have "v = fair_verdict es \<and> (v \<noteq> Failed None \<longrightarrow> mset (map fst (results es)) = mset files)" if "verdict s = Some v" for v
    using inv that by (cases "chain s") (auto simp: qunit_inv_def fair_verdict_def split: if_splits)
  moreover have "\<not> server_open s \<longleftrightarrow> chain s = ChainDone" "chain s = ChainDone \<longrightarrow> verdict s \<noteq> None"
    using inv by (auto simp: qunit_inv_def)
  ultimately show ?thesis by blast
qed

theorem qunit_verdict_witness:
  "\<exists>s. steps qunit_step (start_qunit [''test/a.html'', ''test/b.html''])
       [Result ''test/b.html'' \<lparr>passed = 3, total = 4, failed = 1\<rparr>, Result ''test/a.html'' \<lparr>passed = 2, total = 2, failed = 0\<rparr>, Callback, Callback] s \<and>
     verdict s = Some (Failed (Some ''1/6 tests failed'')) \<and> \<not> server_open s"
proof -
  let ?es = "[Result ''test/b.html'' \<lparr>passed = 3, total = 4, failed = 1\<rparr>, Result ''test/a.html'' \<lparr>passed = 2, total = 2, failed = 0\<rparr>, Callback, Callback]"
  obtain s where s: "steps qunit_step (start_qunit [''test/a.html'', ''test/b.html'']) ?es s" "chain s = ChainDone"
    by (simp add: steps_Cons_iff qunit_step_iff start_qunit_def qunit_result_def)
  have "fair_verdict ?es = Failed (Some ''1/6 tests failed'')" by code_simp
  with qunit_verdict[OF s(1)] s show ?thesis by (cases "verdict s") auto
qed

text \<open>Without any test files the task passes.\<close>

lemma no_tests_pass: "verdict (qunit_callback (start_qunit [])) = Some Passed"
  by (simp add: start_qunit_def)

section \<open>The order of the tasks\<close>

text \<open>
  \<^verbatim>\<open>default\<close> runs each leaf of \<^verbatim>\<open>build\<close> once, all of them before the two of \<^verbatim>\<open>test\<close>, and those of \<^verbatim>\<open>build\<close> in no order.
\<close>

lemma default_order:
  "leaves (expand 3 (Task ''default'')) = leaves (expand 3 (Task ''build'')) @ leaves (expand 3 (Task ''test''))"
  "set (before (expand 3 (Task ''default''))) =
     set (leaves (expand 3 (Task ''build''))) \<times> {''eslint'', ''qunit''} \<union> {(''eslint'', ''qunit'')}"
  "before (expand 3 (Task ''build'')) = []"
  by (simp_all add: numeral_3_eq_3 gulp_tasks_def js_task_def css_task_def) auto

lemma slidesRoot_ends: "slidesRoot argv = Inr r \<Longrightarrow> r \<noteq> [] \<and> last r = CHR ''/''"
  by (auto simp: slidesRoot_def split: jprim.splits if_splits)

text \<open>With the default options, a change of a file whose name the first pattern matches reloads the page, unless it belongs to a dependency.\<close>

lemma slide_change_reloads:
  assumes "glob (slides @ ''**/*.html'') f" and "\<not> glob (slides @ ''**/node_modules/**'') f" and "hd slides \<noteq> CHR ''!''" and "slides \<noteq> []"
  shows "Series [Task ''reload''] \<in> set (started_by glob slides f)"
  using assms by (cases slides) (auto simp: started_by_def watchers_def watched_def)

end
