(* ===== verification/Spec2Isabelle.thy ===== *)
theory Spec2Isabelle
  imports FullStack FormToast HighlightInit MarkdownInit Zoom Search SpeakerNotes MathPlugins SlidesBuild
begin

text \<open>
  A verification library of the translation validator: a Next.js application that takes a C++ and a Rust function, has them
  compiled to LLVM IR and checked with Alive2, that the Rust function refines the C++ one, and shows what Alive2 answered; and
  the two servers that do so for it, in C++. Paths without a prefix are relative to
  \<^verbatim>\<open>src/validator-frontend/src\<close>. A second part are the plugins of the project's slides, the sources in the
  directories \<^verbatim>\<open>highlight\<close>, \<^verbatim>\<open>markdown\<close>, \<^verbatim>\<open>zoom\<close>, \<^verbatim>\<open>search\<close>, \<^verbatim>\<open>notes\<close> and \<^verbatim>\<open>math\<close> of \<^verbatim>\<open>src/slides/plugin\<close>,
  and their build, \<^verbatim>\<open>src/slides/gulpfile.js\<close>.

  \<^bold>\<open>How the parts work together.\<close> \<^verbatim>\<open>app/page.tsx\<close> shows \<^verbatim>\<open>components/ValidationForm.tsx\<close>, the form inside an error
  boundary. The form (\<^verbatim>\<open>components/CodeEditorForm.tsx\<close>) holds the two programs, edited in Monaco editors
  (\<^verbatim>\<open>components/CodeEditor.tsx\<close>) or chosen from a menu (\<^verbatim>\<open>components/ExampleSelector.tsx\<close>,
  \<^verbatim>\<open>data/examples.ts\<close>). A submit posts them to \<^verbatim>\<open>app/api/generate-ir/route.ts\<close>, then posts the two IRs it got to
  \<^verbatim>\<open>app/api/validate/route.ts\<close>; both routes pass the request on to the relay server
  (\<^verbatim>\<open>src/relay_server/RelayServer.cpp\<close>), which sends a command to the validator server
  (\<^verbatim>\<open>src/src/ValidatorServer.cpp\<close>) over a socket. There a child process handles the command: it runs the compilers, or parses
  the two IRs, picks a pair of functions (\<^verbatim>\<open>src/src/Comparer.h\<close>) and runs Alive2. The modal
  (\<^verbatim>\<open>components/LLVMIRModal.tsx\<close>) shows the IRs and then the verifier's output, cut into sections and
  rendered line by line with tooltips; toasts report the progress.

  \<^bold>\<open>Theories, bottom up.\<close>
  \<^item> \<open>Prelude\<close>: JavaScript's string operations, \<^verbatim>\<open>parseInt\<close>, runs of labelled step relations, and the locale
    \<open>invariant_machine\<close> that every state machine below interprets, with its extension \<open>simulation\<close>. \<open>JsRegExp\<close>: the regular expressions of
    the sources, as expressions with a matcher that is checked against its language. \<open>JsValue\<close>: values,
    JSON bodies, thrown values, \<^verbatim>\<open>fetch\<close> outcomes.
  \<^item> \<open>Routes\<close>: \<open>generate_ir_POST\<close> and \<open>validate_POST\<close>, one definition per \<^verbatim>\<open>POST\<close>; the relay is an argument, a
    function from requests to outcomes, and \<open>env\<close> is the environment's \<^verbatim>\<open>RELAY_URL\<close>.
  \<^item> \<open>VerifierOutput\<close>: \<^verbatim>\<open>formatVerifierOutput\<close> as a fold of \<open>process_line\<close>, an abstract syntax of Alive2 reports
    with its printer, and the round trip between them. \<open>LineView\<close>: the component \<^verbatim>\<open>Line\<close> and the table of terms.
    \<open>IRModal\<close>: the panels, the modal, its scroll effects, and the portals of \<^verbatim>\<open>TooltipPortal\<close>, which nothing uses.
  \<^item> \<open>EditorForm\<close>: the record \<open>form\<close> holds the \<^verbatim>\<open>useState\<close> values, the requests sent so far and the runs of
    \<^verbatim>\<open>handleSubmit\<close> in flight, each with the function names its closure captured and the \<^verbatim>\<open>await\<close> it waits at.
    \<^verbatim>\<open>handleSubmit\<close> is cut at its awaits (\<open>handleSubmit\<close>, \<open>response_piece\<close>, \<open>json_piece\<close>); \<open>resume\<close> is its
    \<^verbatim>\<open>catch\<close> and \<^verbatim>\<open>finally\<close>. \<open>form_step\<close> interleaves answers with whatever the page lets the user do.
  \<^item> \<open>FormSpec\<close>: what the form promises, as a session with one phase that the form refines (an interpretation of
    \<open>simulation\<close>), and the types its states are declared with (\<^verbatim>\<open>types/validator.ts\<close>).
  \<^item> \<open>Timers\<close>: the locale \<open>timer_service\<close> of a page's timers, interpreted as \<open>browser\<close>. \<open>Widgets\<close>: \<^verbatim>\<open>Tooltip\<close>,
    \<^verbatim>\<open>CopyButton\<close>, \<^verbatim>\<open>Toast\<close>, \<^verbatim>\<open>CollapsibleSection\<close> and \<^verbatim>\<open>ErrorBoundary\<close> over it.
    \<open>FormToast\<close>: the form together with its toast, which each render of the form may mount, restart or unmount.
  \<^item> \<open>CodeEditor\<close>: mounting, the Monarch token rules, the hover provider. \<open>Examples\<close>: the menu's programs.
  \<^item> \<open>System\<close>: the form with the routes and the relay behind it; the page, which holds the form in an error boundary and whose
    events are the form's, the retry, and the hovering of a tooltip of the modal; and the home page with its two boundaries.
  \<^item> \<open>Wire\<close>: the messages between the two servers, with a locale of what sending must satisfy that is interpreted in both
    directions, and the commands with their separators. \<open>RelayServer\<close>: the two handlers of the relay server, over any validator.
    \<open>ValidatorServer\<close>: the choice of the functions, the two requests with the files they leave, the child process and the loop of
    the parent with its sockets. \<open>FullStack\<close>: the form, the routes and the two servers connected.
  \<^item> \<open>HighlightSteps\<close> and \<open>CodeTrim\<close>: the slides' code plugin: the format of the line numbers to highlight,
    with a locale of list formats interpreted at both levels, the fragments made from it, and the trimming and
    escaping of a block's text. \<open>HighlightScroll\<close>: the scroll target of the highlighted lines and the animation of the
    blocks of a group, with the frames requested of the browser. \<open>HighlightInit\<close>: the start of the plugin, which puts the
    three together, and the listeners it leaves.
  \<^item> \<open>MarkdownSlides\<close>, \<open>MarkdownText\<close> and \<open>MarkdownLoad\<close>: the Markdown plugin: cutting a text into slides, the texts and
    code blocks, and the replacement of sections as their files arrive. \<open>MarkdownAttributes\<close>: the conversion of the
    slides, with the attributes their comments set, over a document whose nodes are numbered. \<open>MarkdownInit\<close>: the start of the
    plugin, from the sections to the promise of the converted slides.
  \<^item> \<open>Zoom\<close>, \<open>Search\<close> and \<open>SpeakerNotes\<close>: one plugin each, its variables as a record and its listeners as a step
    relation or a handler: zooming and panning with timers; marking matches in the document, a tree; the handshake with the
    speaker window. \<open>MathPlugins\<close>: the options of the three math plugins, the files they load in order, and what they ask of
    the libraries and the deck.
  \<^item> \<open>SlidesBuild\<close>: the tasks of the build: the bundles with the promises they wait for, the tests with their verdict, the order
    of the tasks, style sheets, package, server and watchers.
  \<^item> this theory: the properties that span components.

  \<^bold>\<open>What the lemmas show.\<close> For the form: an invariant of its flags and runs, from which follow that one run is
  in flight at a time, that every run ends and is reported, the limits and order of the requests; its refinement of
  the session, that the declared types hold behind the relay server whatever its validator does; and the result of a whole run, through both routes and through both servers to the tools; and that the page keeps the form and its state. For the servers: that messages and commands arrive as they were sent, when no separator is in the way, exactly which functions are compared, what is left behind, and what the user learns when the verifier is killed. For the output: scanning undoes printing a report, every line is filed once,
  each panel shows exactly its section, exactly which lines make the renderer throw, and which can have a tooltip that throws when it opens. For the small
  components: contracts over time, and that the toast and the form that shows it always agree. For the plugins: round trips of the formats, also from one plugin to the other,
  what each fragment marks, what trimming keeps, that scrolling ends where it should, and that cutting into slides
  agrees with a reference that cuts first and groups then; that the attributes written in a comment are
  those its element gets, which attributes are refused, and what a refused one leaves unset and unconverted; that the Markdown plugin ends once its files are answered, in any order; that zooming shows its target and leaves no
  timers, that a search finds the right slides and that whatever was searched, no mark outlives the search box, that the code plugin
  prepares and splits every block and scrolls the one that is seen, that only the own origin drives the presentation, that math is rendered once and only when everything is loaded. For the build: that \<^verbatim>\<open>js-es5\<close>, \<^verbatim>\<open>js-es6\<close> and \<^verbatim>\<open>plugins\<close> end in whatever order the
  tools answer, the first two with their files, and that the tests come to the verdict the reports justify. Some properties state behaviour that the code's authors may not intend; the manifest lists these as
  findings.

  \<^bold>\<open>Bounds.\<close> No definition uses fuel but the expansion of the build's task names, whose table is three deep; all recursion is structural or has a measure, but for the loop over a user's
  separators, which may run for ever and returns an option; it is proved to return for separators that match no empty
  text. The same holds of the marking of matches. The loop over the attributes in a comment stops at an empty match, of which its
  expression has none. An animation has at most 50 frames. The number of steps a run of
  the form still needs is bounded by four, that of a task of the build by its files.

  \<^bold>\<open>Assumptions of the model.\<close> Strings are lists of code units below 256, numbers are integers or rationals (JavaScript's integers are
  exact up to \<open>2\<^sup>5\<^sup>3\<close>). The fields of JSON objects are primitive, as both servers send them; a body without the
  fields the code reads is a \<open>ScalarBody\<close>. React applies the state updates of a piece of code before the next
  event. Bytes and characters are the same; a read of a socket does not fail, and forking succeeds. The compilers, the parser of LLVM and
  Alive2 are the fields of a record \<open>toolchain\<close>, and a process that exceeds its limits is an outcome of Alive2. In the theories up to
  \<open>System\<close> the relay is a parameter; the clipboard, Monaco, the browser's HTML parser, its test of attribute names and its layout, the highlighter, the
  Markdown library and the build tools are parameters too, or contribute only their events. Classes and icons of the markup are left out unless a decision of the code picks them.

  \<^bold>\<open>Not modelled.\<close> Of the C++ programs, the command-line program for local files (\<^verbatim>\<open>src/src/standalone.cpp\<close>,
  \<^verbatim>\<open>Preprocessor.h\<close>) and the log (\<^verbatim>\<open>Printer.h\<close>); Alive2 under \<^verbatim>\<open>src/alive2_snapshot\<close> is a third-party program. \<^verbatim>\<open>app/layout.tsx\<close> and the configuration files
  are markup and settings without behaviour. Of the slides, the built files (\<^verbatim>\<open>dist\<close>, \<^verbatim>\<open>*.esm.js\<close>) are generated.
  Of the build script, the streams between its tools, the checks of \<^verbatim>\<open>eslint\<close>, the making of the archive and what is
  written to the console are left out.
\<close>

section \<open>The form, the routes and the relay\<close>

text \<open>
  C1: a validation from end to end. From a form that is ready, when the relay answers the generation with two
  IRs within the limit and the validation with an object without an error, the run through both routes asks
  the relay for exactly the code of the editors and then for exactly these IRs and the names, and it ends
  with the relay's data as the result, the IRs and the modal shown, and the toast of its success flag.
\<close>

theorem end_to_end:
  assumes "ready s" and "good_answer (relay (generate_query env s)) fs"
    and "field_of fs ''cppIR'' = Str c" and "field_of fs ''rustIR'' = Str q"
    and "length c \<le> LLVM_IR_LENGTH_LIMIT" and "length q \<le> LLVM_IR_LENGTH_LIMIT"
    and "good_answer (relay (validate_query env s c q)) gs"
  shows "let t = complete_run relay env s in
     result t = Some (serialize (ObjectBody gs)) \<and> cppIR t = Str c \<and> rustIR t = Str q \<and> showIRModal t \<and>
     flights t = [] \<and> \<not> isGeneratingIR t \<and> \<not> isLoading t \<and>
     toast t = Some (if truthy (field_of gs ''success'') then (SuccessToast, ''Validation completed successfully!'')
                     else (ErrorToast, ''Validation failed. Check the results for details.''))"
  by (rule complete_run_good[where relay = relay, OF generation_served[where relay = relay, OF assms(1-6)] assms(7)])

definition example_form :: form where
  "example_form = initial\<lparr>cppCode := ''c'', rustCode := ''r''\<rparr>"

definition example_relay :: relay where
  "example_relay q =
     (if url q = ''http://localhost:3001/api/generate-ir''
      then Responded True (Inr (ObjectBody [(''cppIR'', Str ''x''), (''rustIR'', Str ''y'')]))
      else Responded True (Inr (ObjectBody [(''success'', Bool True), (''verifier_output'', Str '''')])))"

lemma example_ready: "ready example_form"
  by (simp add: ready_def example_form_def initial_def CODE_LENGTH_LIMIT_def)

lemma example_generated:
  "good_answer (example_relay (generate_query None example_form)) [(''cppIR'', Str ''x''), (''rustIR'', Str ''y'')]"
  by (simp add: good_answer_def example_relay_def generate_query_def relay_request_def RELAY_URL_def)

theorem end_to_end_witness:
  "toast (complete_run example_relay None example_form) = Some (SuccessToast, ''Validation completed successfully!'')"
proof -
  have "good_answer (example_relay (validate_query None example_form ''x'' ''y''))
      [(''success'', Bool True), (''verifier_output'', Str '''')]"
    by (simp add: good_answer_def example_relay_def validate_query_def relay_request_def RELAY_URL_def)
  from end_to_end[where relay = example_relay, OF example_ready example_generated _ _ _ _ this] show ?thesis
    by (simp add: LLVM_IR_LENGTH_LIMIT_def Let_def)
qed

text \<open>
  What the user learns when the relay cannot be reached. If the request for the generation fails, the toast
  and the result carry the error's message; if the one for the validation fails, both are empty, because the
  validate route reports the message in a field the form does not read.
\<close>

lemma unreachable_relay_reported:
  assumes "ready s" and "relay (generate_query env s) = Rejected t"
    and "good_answer (relay' (generate_query env s)) fs"
    and "field_of fs ''cppIR'' = Str c" and "field_of fs ''rustIR'' = Str q"
    and "length c \<le> LLVM_IR_LENGTH_LIMIT" and "length q \<le> LLVM_IR_LENGTH_LIMIT"
    and "relay' (validate_query env s c q) = Rejected t"
  shows "toast (complete_run relay env s) = Some (ErrorToast, error_message t) \<and>
         result (complete_run relay env s) = Some (failure_result (error_message t)) \<and>
         toast (complete_run relay' env s) = Some (ErrorToast, '''') \<and>
         result (complete_run relay' env s) = Some (failure_result '''')"
  using generation_thrown[where relay = relay, OF assms(1,2)]
    complete_run_thrown[where relay = relay', OF generation_served[where relay = relay', OF assms(1,3-7)] assms(8)]
  by blast

lemma unreachable_relay_reported_example:
  "let relay = (\<lambda>q. if url q = ''http://localhost:3001/api/generate-ir'' then example_relay q
                    else Rejected (ErrorObject ''fetch failed'')) in
   toast (complete_run relay None example_form) = Some (ErrorToast, '''')"
proof -
  let ?relay = "\<lambda>q. if url q = ''http://localhost:3001/api/generate-ir'' then example_relay q
                    else Rejected (ErrorObject ''fetch failed'')"
  have g: "good_answer (?relay (generate_query None example_form)) [(''cppIR'', Str ''x''), (''rustIR'', Str ''y'')]"
    using example_generated by (simp add: generate_query_def relay_request_def RELAY_URL_def)
  have v: "?relay (validate_query None example_form ''x'' ''y'') = Rejected (ErrorObject ''fetch failed'')"
    by (simp add: validate_query_def relay_request_def RELAY_URL_def)
  have u: "(\<lambda>q. Rejected (ErrorObject ''fetch failed'')) (generate_query None example_form)
      = Rejected (ErrorObject ''fetch failed'')" by simp
  from unreachable_relay_reported[where relay = "\<lambda>q. Rejected (ErrorObject ''fetch failed'')" and relay' = ?relay,
      OF example_ready u g _ _ _ _ v]
  show ?thesis by (simp add: LLVM_IR_LENGTH_LIMIT_def Let_def)
qed

section \<open>The examples in the form\<close>

text \<open>
  Every example of the menu can be submitted: on a form with no run in flight, choosing an example enables the
  submit button, and the submit passes the length checks and sends the code of that example.
\<close>

lemma examples_can_be_submitted:
  assumes "v \<in> set (map fst example_options)" and "v \<noteq> []" and "flags_ok s" and "flights s = []"
  shows "\<exists>ex s1. (v, ex) \<in> set examples \<and>
     select_example (\<lambda>c r. handle (SelectExample c r)) v s = Some s1 \<and> \<not> submit_disabled s1 \<and>
     sent (handleSubmit s1) = sent s @ [\<lparr>url = ''/api/generate-ir'',
        sent_fields = [(''cppCode'', Str (cpp ex)), (''rustCode'', Str (rust ex))]\<rparr>]"
proof -
  from map_of_option[OF assms(1,2)] obtain ex where ex: "map_of examples v = Some ex" "(v, ex) \<in> set examples" by blast
  with example_lengths have len: "0 < length (cpp ex)" "length (cpp ex) \<le> 2000" "0 < length (rust ex)" "length (rust ex) \<le> 2000"
    by (auto simp: list_all_iff)
  let ?s = "s\<lparr>cppCode := cpp ex, rustCode := rust ex\<rparr>"
  from len assms(4) have "ready ?s" by (auto simp: ready_def CODE_LENGTH_LIMIT_def)
  from submit_ready[OF this] have "sent (handleSubmit ?s) = sent s @ [\<lparr>url = ''/api/generate-ir'',
        sent_fields = [(''cppCode'', Str (cpp ex)), (''rustCode'', Str (rust ex))]\<rparr>]" by (simp add: submitted_def)
  moreover from len assms(3,4) have "\<not> submit_disabled ?s" by (auto simp: submit_disabled_def flags_ok_def)
  ultimately show ?thesis using ex assms(2) by (auto simp: select_example_def)
qed

lemma examples_can_be_submitted_example:
  "\<exists>ex s1. (''factorial'', ex) \<in> set examples \<and>
     select_example (\<lambda>c r. handle (SelectExample c r)) ''factorial'' initial = Some s1 \<and> \<not> submit_disabled s1"
proof -
  have "''factorial'' \<in> set (map fst example_options)" by code_simp
  moreover have "flags_ok initial" "flights initial = []" by (simp_all add: flags_ok_def initial_def)
  ultimately show ?thesis using examples_can_be_submitted[of "''factorial''" initial] by blast
qed

section \<open>The page\<close>

text \<open>
  C15: the page keeps its form. Whatever the user types, chooses, clicks and hovers, in whatever order and with whatever
  answers of the network, the form stays on the page with its state, which is the one the form's own handlers made: the
  boundary never takes over, and no reload of the form is ever offered. What the answers must not have, since it does cost
  the form, is an error message or a result with a line that makes the renderer throw or has \<open>__proto__\<close> in it, or a
  result without a text as verifier output. The Monaco editors are taken not to throw.
\<close>

theorem page_keeps_form:
  assumes "steps served_step page_mount es p"
  shows "\<not> hasError (guard p) \<and> RetryClick \<notin> set es \<and>
     (\<exists>s. mounted_form p = Some s \<and> steps form_step initial (events_of_form es) s)"
proof -
  have "mounted_form page_mount = Some initial"
    using render_form_initial by (simp add: page_mount_def ValidationForm_cases boundary_mount_def)
  from page_run[OF assms page_inv_mount this] page_machine.inv_reachable[OF assms] show ?thesis by (simp add: page_inv_def)
qed

text \<open>A run with a report as its answer, a tooltip of which is then hovered.\<close>

theorem page_keeps_form_witness:
  "\<exists>p s. steps served_step page_mount
       (map FormEvent report_run @ [Hover (TextContent ''The original C++ program converted to Alive2 IR form'')]) p \<and>
     \<not> hasError (guard p) \<and> mounted_form p = Some s \<and> result s = Some report_answer"
proof -
  let ?tip = "TextContent ''The original C++ program converted to Alive2 IR form''"
  let ?s = "foldl (\<lambda>s e. handle e s) initial report_run"
  have m: "mounted_form page_mount = Some initial"
    using render_form_initial by (simp add: page_mount_def ValidationForm_cases boundary_mount_def)
  from page_makes_run[OF conjunct1[OF report_run_fine] page_inv_mount m] obtain q where
    q: "steps served_step page_mount (map FormEvent report_run) q" "mounted_form q = Some ?s" by blast
  have s: "result ?s = Some report_answer" "showIRModal ?s" "\<not> isLoading ?s" using report_run_fine by (simp_all add: Let_def)
  have "?tip \<in> set (form_tips ?s)"
    using shown_report_tips[of report_answer timeout_report "''ret''" ?s] report_answer_fine s
    by (simp add: report_answer_def timeout_report_def wf_report_def ir_line_def control_line_def starts_with_def
        alive2_rule_def ub_rule_def numeral_eq_Suc)
  then have "served_step q (Hover ?tip) (hovered q ?tip)"
    using page_step.hover[OF q(2)] by (simp add: served_step_def page_answer_fine_def)
  then have "steps served_step q [Hover ?tip] (hovered q ?tip)" by (simp add: steps_Cons_iff)
  with q(1) have run: "steps served_step page_mount (map FormEvent report_run @ [Hover ?tip]) (hovered q ?tip)"
    by (rule steps_append)
  have "\<not> hasError (guard q)" using page_machine.inv_reachable[OF q(1)] by (simp add: page_inv_def)
  then have "hovered q ?tip = q" by (simp add: hovered_fine)
  with page_keeps_form[OF run] run q(2) s(1) show ?thesis by auto
qed

text \<open>
  C21: a result that cannot be shown costs the user the form: when an event leads to a state whose modal throws, the
  boundary shows the error instead of the form, and \<open>Try again\<close> brings up an empty form; code, names and
  IRs are gone.
\<close>

theorem bad_result_loses_form:
  assumes "mounted_form p = Some s" and "\<not> hasError (guard p)" and "form_step s e t" and "render_form t = Inl err"
  shows "\<exists>q q'. page_step p (FormEvent e) q \<and> mounted_form q = None \<and> caught (guard q) = Some err \<and>
     page_step q RetryClick q' \<and> mounted_form q' = Some initial"
proof -
  let ?q = "ValidationForm (guard p) t"
  have q: "?q = \<lparr>guard = getDerivedStateFromError err, mounted_form = None\<rparr>"
    using assms(2,4) by (simp add: ValidationForm_cases)
  moreover have "page_step p (FormEvent e) ?q" using assms(1,3) by (rule form_event)
  moreover have "page_step ?q RetryClick (ValidationForm (try_again (guard ?q)) initial)"
    by (rule retry_click) (simp add: q getDerivedStateFromError_def)
  moreover have "mounted_form (ValidationForm (try_again (guard ?q)) initial) = Some initial"
    using render_form_initial by (simp add: ValidationForm_cases try_again_def)
  ultimately show ?thesis by (auto simp: getDerivedStateFromError_def)
qed

theorem bad_result_loses_form_witness:
  "\<exists>q q'. page_step \<lparr>guard = boundary_mount, mounted_form = Some (last_answer_example\<lparr>showIRModal := True\<rparr>)\<rparr>
       (FormEvent (Parses 0 (Inr (ObjectBody [(''success'', Bool True)])))) q \<and> mounted_form q = None \<and>
     page_step q RetryClick q' \<and> mounted_form q' = Some initial"
proof -
  let ?s = "last_answer_example\<lparr>showIRModal := True\<rparr>"
  let ?e = "Parses 0 (Inr (ObjectBody [(''success'', Bool True)]))"
  have "form_step ?s ?e (handle ?e ?s)" by (simp add: form_step_iff last_answer_example_def)
  moreover have "render_form (handle ?e ?s) = Inl (read_error ''undefined'' ''includes'')"
    by (simp add: last_answer_example_def validation_received_def check_response_def Let_def piece_defs
        render_form_def render_modal_def result_view_def)
  moreover have "\<not> hasError boundary_mount" by (simp add: boundary_mount_def)
  ultimately show ?thesis
    using bad_result_loses_form[of "\<lparr>guard = boundary_mount, mounted_form = Some ?s\<rparr>" ?s ?e] by fastforce
qed

end
